(* ===== verification/Cero_Prelude.thy ===== *)
theory Cero_Prelude
  imports Main "HOL-Library.Word" "HOL-Library.Char_ord" "HOL-Library.Sublist"
begin

text \<open>
  Shared vocabulary of the development: the machine integer types of the C++ code, the byte
  values of the characters it switches on, \<open>std::string_view::substr\<close>, slices of a text, and the
  generic lemmas on words, lists and slices that the component theories rely on.

  A C++ \<open>char\<close> is a HOL \<^typ>\<open>char\<close> (one byte); a \<open>std::string_view\<close> is a \<^typ>\<open>string\<close>, whose
  length counts bytes. Unsigned fixed-width integers are words.
\<close>

unbundle bit_operations_syntax

type_synonym u8 = "8 word"
type_synonym u32 = "32 word"
type_synonym u64 = "64 word"

named_theorems cero_unfold \<open>definitions of the small operations that proofs unfold together\<close>

text \<open>
  The ways in which the compiler leaves its normal control flow for good: a failed
  \<open>cero_assert\<close>, a reached \<open>util::assert_unreachable\<close>, an uncaught \<open>std::out_of_range\<close>, or a read
  outside an array (undefined behaviour in C++, a value of its own here).
\<close>

datatype fault =
    Assertion_failed string
  | Unreachable_reached
  | Out_of_range
  | Out_of_bounds

text \<open>
  The macro \<open>cero_assert\<close> (\<open>src/cero/util/assert.hh\<close>): a failed assertion prints its message and
  aborts, so that the rest of the function, the last argument, does not run.
\<close>

definition cero_assert :: "bool \<Rightarrow> string \<Rightarrow> fault + 'a \<Rightarrow> fault + 'a" where [simp]:
  "cero_assert condition msg rest = (if \<not> condition then Inl (Assertion_failed msg) else rest)"

section \<open>Characters\<close>

abbreviation nul :: char where "nul \<equiv> CHR 0x00"
abbreviation tab_char :: char where "tab_char \<equiv> CHR 0x09"
abbreviation newline_char :: char where "newline_char \<equiv> CHR 0x0A"
abbreviation quote_char :: char where "quote_char \<equiv> CHR 0x22"
abbreviation apostrophe_char :: char where "apostrophe_char \<equiv> CHR 0x27"
abbreviation backslash_char :: char where "backslash_char \<equiv> CHR 0x5C"

section \<open>Strings\<close>

text \<open>
  \<open>std::string_view::substr(pos, count)\<close>: \<^const>\<open>None\<close> is the \<open>std::out_of_range\<close> exception that
  it throws when \<open>pos\<close> exceeds the size; the count is clamped to the rest of the string.
\<close>

definition substr :: "string \<Rightarrow> nat \<Rightarrow> nat \<Rightarrow> string option" where
  "substr s pos count = (if pos \<le> length s then Some (take count (drop pos s)) else None)"

text \<open>The part of a text from one index up to another.\<close>

definition segment :: "nat \<Rightarrow> nat \<Rightarrow> 'a list \<Rightarrow> 'a list" where
  "segment a b xs = take (b - a) (drop a xs)"

lemma substr_Some: "pos \<le> length s \<Longrightarrow> substr s pos n = Some (take n (drop pos s))"
  by (simp add: substr_def)

lemma substr_segment: "a \<le> length s \<Longrightarrow> substr s a n = Some (segment a (a + n) s)"
  by (simp add: substr_def segment_def)

lemma segment_self [simp]: "segment a a xs = []"
  by (simp add: segment_def)

lemma length_segment [simp]: "b \<le> length xs \<Longrightarrow> length (segment a b xs) = b - a"
  by (simp add: segment_def)

lemma segment_append:
  assumes "a \<le> b" "b \<le> c"
  shows "segment a b xs @ segment b c xs = segment a c xs"
proof -
  have "take (c - a) (drop a xs) = take (b - a) (drop a xs) @ take (c - b) (drop (b - a) (drop a xs))"
    by (simp only: take_add[symmetric]) (use assms in simp)
  then show ?thesis
    using assms by (simp add: segment_def)
qed

lemma segment_Suc: "a < length xs \<Longrightarrow> segment a (Suc a) xs = [xs ! a]"
  by (simp add: segment_def take_Suc_conv_app_nth)

lemma segment_Suc_append:
  assumes "a \<le> b" "b < length xs"
  shows "segment a (Suc b) xs = segment a b xs @ [xs ! b]"
  using segment_append[of a b "Suc b" xs] assms by (simp add: segment_Suc)

lemma segment_Cons:
  assumes "a < b" "a < length xs"
  shows "segment a b xs = xs ! a # segment (Suc a) b xs"
  using segment_append[of a "Suc a" b xs] assms by (simp add: segment_Suc)

lemma nth_segment: "a + i < b \<Longrightarrow> b \<le> length xs \<Longrightarrow> segment a b xs ! i = xs ! (a + i)"
  by (simp add: segment_def)

lemma set_segment_nth:
  assumes "b \<le> length xs"
  shows "x \<in> set (segment a b xs) \<longleftrightarrow> (\<exists>i. a \<le> i \<and> i < b \<and> x = xs ! i)"
proof
  assume "x \<in> set (segment a b xs)"
  then obtain i where "i < length (segment a b xs)" "x = segment a b xs ! i"
    by (auto simp: in_set_conv_nth)
  with assms show "\<exists>i. a \<le> i \<and> i < b \<and> x = xs ! i"
    by (intro exI[of _ "a + i"]) (auto simp: nth_segment)
next
  assume "\<exists>i. a \<le> i \<and> i < b \<and> x = xs ! i"
  then obtain i where "a \<le> i" "i < b" "x = xs ! i" by blast
  with assms show "x \<in> set (segment a b xs)"
    by (auto simp: in_set_conv_nth nth_segment intro!: exI[of _ "i - a"])
qed

lemma drop_Cons_nth: "i < length xs \<Longrightarrow> drop i xs = xs ! i # drop (Suc i) xs"
  by (rule Cons_nth_drop_Suc[symmetric])

section \<open>Words\<close>

text \<open>Converting an index to a \<open>SourceSize\<close> and subtracting two of them.\<close>

lemma unat_of_nat_u32: "n < 2 ^ 32 \<Longrightarrow> unat (word_of_nat n :: u32) = n"
  by (simp add: unat_of_nat take_bit_nat_eq_self)

lemma unat_diff_of_nat_u32:
  assumes "a \<le> b" "b < 2 ^ 32"
  shows "unat ((word_of_nat b :: u32) - word_of_nat a) = b - a"
proof -
  have "(word_of_nat b :: u32) - word_of_nat a = word_of_nat (b - a)"
    using assms(1) by simp
  then show ?thesis
    using assms by (simp only: unat_of_nat_u32)
qed

lemma unat_and_mask24: "unat ((w :: u32) AND 0xffffff) = unat w mod 2 ^ 24"
proof -
  have "w AND 0xffffff = take_bit 24 w"
    by (simp add: take_bit_eq_mask mask_eq_exp_minus_1)
  then show ?thesis
    by (simp only: unsigned_take_bit_eq) (simp add: take_bit_eq_mod)
qed

end
