(* ===== verification/Symbol_Table.thy ===== *)
theory Symbol_Table
  imports Cero_Prelude
begin

text \<open>
  \<open>src/cero/sema/symbol_table.hh\<close> and \<open>symbol_table.cc\<close>, with the type identifiers of
  \<open>type_context.hh\<close>. \<open>std::hash\<close> is a parameter. A name carries its hash, and an entry of the
  \<open>std::unordered_map\<close> is found when its hash is the one looked for and the names are equal.
\<close>

type_synonym type_id = u64

datatype symbol_kind = symbol_function | symbol_parameter | symbol_output

record symbol =
  sym_kind :: symbol_kind
  sym_type :: type_id

record symbol_name =
  sn_name :: string
  sn_hash :: u64

definition symbol_name_init :: "(string \<Rightarrow> u64) \<Rightarrow> string \<Rightarrow> symbol_name" where
  "symbol_name_init hash identifier = \<lparr>sn_name = identifier, sn_hash = hash identifier\<rparr>"

definition symbol_name_eq :: "symbol_name \<Rightarrow> symbol_name \<Rightarrow> bool" where
  "symbol_name_eq a b \<longleftrightarrow> sn_name a = sn_name b"

definition symbol_name_hash :: "symbol_name \<Rightarrow> u64" where
  "symbol_name_hash key = sn_hash key"

section \<open>Scopes\<close>

text \<open>
  A scope is the list of its entries: looking a key up compares the stored hashes, by which the
  container chooses a bucket, and then the names. \<open>emplace\<close> adds an entry only if the key is not found,
  and gives the symbol its kind and the zero type.
\<close>

type_synonym scope = "(symbol_name \<times> symbol) list"

fun scope_lookup :: "scope \<Rightarrow> symbol_name \<Rightarrow> symbol option" where
  "scope_lookup [] key = None"
| "scope_lookup ((k, s) # rest) key = 
     (if symbol_name_hash k = symbol_name_hash key \<and> symbol_name_eq k key then Some s else scope_lookup rest key)"

definition scope_put :: "(string \<Rightarrow> u64) \<Rightarrow> string \<Rightarrow> symbol_kind \<Rightarrow> scope \<Rightarrow> scope" where
  "scope_put hash identifier kind sc =
     (let key = symbol_name_init hash identifier
      in if scope_lookup sc key = None then (key, \<lparr>sym_kind = kind, sym_type = 0\<rparr>) # sc else sc)"

definition scope_find :: "scope \<Rightarrow> symbol_name \<Rightarrow> symbol option" where
  "scope_find sc key = scope_lookup sc key"

section \<open>The table\<close>

text \<open>The scopes in the order of the vector, the innermost last.\<close>

type_synonym symbol_table = "scope list"

definition push_scope :: "symbol_table \<Rightarrow> symbol_table" where
  "push_scope t = t @ [[]]"

definition pop_scope :: "symbol_table \<Rightarrow> fault + symbol_table" where
  "pop_scope t = cero_assert (t \<noteq> []) ''must not pop empty scope stack'' (Inr (butlast t))"

definition symbol_table_put :: "string \<Rightarrow> symbol_kind \<Rightarrow> symbol_table \<Rightarrow> fault + symbol_table" where
  "symbol_table_put identifier kind t =
     cero_assert (t \<noteq> []) ''must not push empty scope stack'' (Inr t)"

text \<open>The loop of \<open>find\<close>, over the reversed scopes.\<close>

fun find_in_scopes :: "symbol_name \<Rightarrow> scope list \<Rightarrow> symbol option" where
  "find_in_scopes key [] = None"
| "find_in_scopes key (sc # scopes) =
     (case scope_find sc key of Some s \<Rightarrow> Some s | None \<Rightarrow> find_in_scopes key scopes)"

definition symbol_table_find :: "(string \<Rightarrow> u64) \<Rightarrow> symbol_table \<Rightarrow> string \<Rightarrow> symbol option" where
  "symbol_table_find hash t identifier = find_in_scopes (symbol_name_init hash identifier) (rev t)"

section \<open>Properties\<close>

text \<open>
  All names of a scope have their hashes from one function, as \<open>std::hash\<close> is one: then a scope is a
  map from names to symbols. A name that is put is found with its kind unless the scope had it
  already, in which case the first entry stays; other names are not affected.
\<close>

definition scope_ok :: "(string \<Rightarrow> u64) \<Rightarrow> scope \<Rightarrow> bool" where
  "scope_ok hash sc \<longleftrightarrow> list_all (\<lambda>(k, s). k = symbol_name_init hash (sn_name k)) sc"

definition scope_map :: "scope \<Rightarrow> string \<Rightarrow> symbol option" where
  "scope_map sc = map_of (map (\<lambda>(k, s). (sn_name k, s)) sc)"

lemma scope_put_ok: "scope_ok hash sc \<Longrightarrow> scope_ok hash (scope_put hash n kind sc)"
  by (simp add: scope_ok_def scope_put_def Let_def symbol_name_init_def)

lemma scope_find_map: "scope_ok hash sc \<Longrightarrow> scope_find sc (symbol_name_init hash n) = scope_map sc n"
proof (induction sc)
  case (Cons e sc)
  obtain k s where e: "e = (k, s)" by (cases e)
  have "sn_hash k = hash (sn_name k)" using Cons.prems by (cases k) (simp add: scope_ok_def symbol_name_init_def e)
  with Cons show ?case
    by (auto simp: e scope_ok_def scope_find_def scope_map_def symbol_name_eq_def symbol_name_hash_def symbol_name_init_def)
qed (simp add: scope_find_def scope_map_def)

lemma scope_put_find:
  assumes "scope_ok hash sc"
  shows "scope_find (scope_put hash n kind sc) (symbol_name_init hash n') =
    (if n' = n \<and> scope_find sc (symbol_name_init hash n) = None then Some \<lparr>sym_kind = kind, sym_type = 0\<rparr>
     else scope_find sc (symbol_name_init hash n'))"
  unfolding scope_find_map[OF scope_put_ok[OF assms]] scope_find_map[OF assms]
  using scope_find_map[OF assms, of n] by (auto simp: scope_put_def scope_find_def scope_map_def symbol_name_init_def Let_def)

text \<open>The states that the operations of the table lead to.\<close>

inductive table_step :: "symbol_table \<Rightarrow> symbol_table \<Rightarrow> bool" where
  Push: "table_step t (push_scope t)"
| Pop: "pop_scope t = Inr t' \<Longrightarrow> table_step t t'"
| Put: "symbol_table_put n kind t = Inr t' \<Longrightarrow> table_step t t'"

inductive_cases table_stepE: "table_step t t'"

definition table_reachable :: "symbol_table \<Rightarrow> bool" where
  "table_reachable t \<longleftrightarrow> table_step\<^sup>*\<^sup>* [] t"

lemma step_keeps_empty: "table_step t t' \<Longrightarrow> set t \<subseteq> {[]} \<Longrightarrow> set t' \<subseteq> {[]}"
  by (erule table_stepE)
    (auto simp: push_scope_def pop_scope_def symbol_table_put_def split: if_splits dest: in_set_butlastD)

lemma reachable_empty: "table_reachable t \<Longrightarrow> set t \<subseteq> {[]}"
  unfolding table_reachable_def by (induction rule: rtranclp_induct) (auto dest: step_keeps_empty)

text \<open>C39. The table never holds a symbol: \<open>put\<close> only checks that there is a scope, so that in every state its operations
  lead to, no name is found.\<close>
theorem symbol_table_never_finds:
  assumes "table_reachable t"
  shows "symbol_table_find hash t n = None"
proof -
  have "find_in_scopes key scs = None" if "set scs \<subseteq> {[]}" for key scs
    using that by (induction scs) (auto simp: scope_find_def)
  with reachable_empty[OF assms] show ?thesis by (simp add: symbol_table_find_def)
qed

theorem symbol_table_never_finds_witness:
  "symbol_table_put ''x'' symbol_parameter (push_scope []) = Inr (push_scope []) \<and>
   symbol_table_find (\<lambda>_. 0) (push_scope []) ''x'' = None"
proof -
  have "table_reachable (push_scope [])" unfolding table_reachable_def by (intro r_into_rtranclp Push)
  from symbol_table_never_finds[OF this] show ?thesis by (simp add: symbol_table_put_def push_scope_def)
qed

end
