(* ===== verification/Reporting.thy ===== *)
theory Reporting
  imports Cero_Prelude
begin

text \<open>
  The reporting layer, \<open>src/cero/report\<close>: code locations, the diagnostics and their format
  strings and levels, message arguments with their placeholder check, and \<open>Reporter::report\<close>.

  The formatting library (fmt) is not part of the repository: its \<open>vformat\<close> is an argument of the
  definitions that call it. The virtual \<open>handle_report\<close> of a concrete reporter is represented by
  the triples it receives. A compilation stage keeps the list of its calls of \<open>Reporter::report\<close>;
  \<open>deliver\<close> runs \<open>Reporter::report\<close> on such a list.
\<close>

section \<open>Code locations\<close>

record code_location =
  loc_path :: string
  loc_line :: u32
  loc_column :: u32

definition default_tab_size :: u8 where
  "default_tab_size = 4"

section \<open>Messages\<close>

datatype message =
    file_not_found
  | could_not_open_file
  | source_file_too_large
  | invalid_character
  | missing_closing_quote
  | unterminated_block_comment
  | expect_function_struct_or_enum
  | expect_paren_after_function_name
  | expect_parameter_type
  | expect_parameter_name
  | expect_paren_after_parameters
  | expect_return_type
  | expect_brace_before_function_body
  | expect_expression
  | expect_semicolon
  | expect_closing_paren_in_call

primrec get_message_format_string :: "message \<Rightarrow> string" where
  "get_message_format_string file_not_found = ''file not found''"
| \<open>get_message_format_string could_not_open_file = ''could not open file, system error: "{}"''\<close>
| "get_message_format_string source_file_too_large =
     ''source file is too large, maximum allowed is {} bytes''"
| "get_message_format_string invalid_character = ''invalid character `0x{:x}`''"
| "get_message_format_string missing_closing_quote = ''missing closing quote''"
| "get_message_format_string unterminated_block_comment = ''block comment must be closed with `*/`''"
| "get_message_format_string expect_function_struct_or_enum =
     ''expected function, struct or enum, but found {}''"
| "get_message_format_string expect_paren_after_function_name =
     ''expected `(` after function name, but found {}''"
| "get_message_format_string expect_parameter_type = ''expected type for parameter, but found {}''"
| "get_message_format_string expect_parameter_name = ''expected name for parameter, but found {}''"
| "get_message_format_string expect_paren_after_parameters =
     ''expected `)` after parameters, but found {}''"
| "get_message_format_string expect_return_type = ''expected return type, but found {}''"
| "get_message_format_string expect_brace_before_function_body =
     ''expected `{{` before function body, but found {}''"
| "get_message_format_string expect_expression = ''expected expression, but found {}''"
| "get_message_format_string expect_semicolon = ''expected a `;`, but found {}''"
| "get_message_format_string expect_closing_paren_in_call =
     ''expected closing `)` in function call, but found {}''"

datatype message_level = level_error | level_warning | level_help | level_note

primrec get_message_level_string :: "message_level \<Rightarrow> string" where
  "get_message_level_string level_error = ''error''"
| "get_message_level_string level_warning = ''warning''"
| "get_message_level_string level_help = ''help''"
| "get_message_level_string level_note = ''note''"

definition get_default_message_level :: "message \<Rightarrow> message_level" where
  "get_default_message_level m =
     (case m of unterminated_block_comment \<Rightarrow> level_warning | _ \<Rightarrow> level_error)"

section \<open>Message arguments\<close>

text \<open>
  The elements of fmt's dynamic argument store: an integer, a string, or the string that
  \<open>fmt::vformat\<close> makes of a format string and one lexeme (the parser formats the offending token
  this way before it reports).
\<close>

datatype msg_arg =
    Arg_int nat
  | Arg_string string
  | Arg_formatted string string

type_synonym message_args = "msg_arg list"

type_synonym vformat_fn = "string \<Rightarrow> message_args \<Rightarrow> string"

text \<open>The loop of \<open>MessageArgs::valid_for_message\<close>, with its two local variables as arguments.\<close>

fun count_placeholders :: "string \<Rightarrow> bool \<Rightarrow> nat \<Rightarrow> nat" where
  "count_placeholders [] is_open placeholder_count = placeholder_count"
| "count_placeholders (c # cs) is_open placeholder_count =
     (if c = CHR ''{'' then count_placeholders cs (\<not> is_open) placeholder_count
      else if c = CHR ''}'' \<and> is_open then count_placeholders cs False (placeholder_count + 1)
      else count_placeholders cs is_open placeholder_count)"

definition valid_for_message :: "message_args \<Rightarrow> message \<Rightarrow> bool" where
  "valid_for_message store m \<longleftrightarrow>
     length store = count_placeholders (get_message_format_string m) False 0"

section \<open>The reporter\<close>

record report_call =
  rep_location :: code_location
  rep_message :: message
  rep_args :: message_args

text \<open>The arguments as \<open>fmt::vformat\<close> receives them, with inner formatting done.\<close>

primrec eval_arg :: "vformat_fn \<Rightarrow> msg_arg \<Rightarrow> msg_arg" where
  "eval_arg vformat (Arg_int n) = Arg_int n"
| "eval_arg vformat (Arg_string s) = Arg_string s"
| "eval_arg vformat (Arg_formatted format lexeme) = Arg_string (vformat format [Arg_string lexeme])"

type_synonym handled_report = "code_location \<times> message_level \<times> string"

definition reporter_report ::
    "vformat_fn \<Rightarrow> code_location \<Rightarrow> message \<Rightarrow> message_args \<Rightarrow> fault + handled_report" where
  "reporter_report vformat location m args =
     cero_assert (valid_for_message args m) ''incorrect number of message arguments''
       (Inr (location, get_default_message_level m,
             vformat (get_message_format_string m) (map (eval_arg vformat) args)))"

fun deliver :: "vformat_fn \<Rightarrow> report_call list \<Rightarrow> fault + handled_report list" where
  "deliver vformat [] = Inr []"
| "deliver vformat (r # rs) =
     (case reporter_report vformat (rep_location r) (rep_message r) (rep_args r) of
        Inl f \<Rightarrow> Inl f
      | Inr h \<Rightarrow> (case deliver vformat rs of Inl f \<Rightarrow> Inl f | Inr hs \<Rightarrow> Inr (h # hs)))"

definition code_location_to_string :: "vformat_fn \<Rightarrow> code_location \<Rightarrow> string" where
  "code_location_to_string vformat l =
     vformat ''{}:{}:{}'' [Arg_string (loc_path l), Arg_int (unat (loc_line l)), Arg_int (unat (loc_column l))]"

definition code_location_to_short_string :: "vformat_fn \<Rightarrow> code_location \<Rightarrow> string" where
  "code_location_to_short_string vformat l =
     vformat ''[{}:{}]'' [Arg_int (unat (loc_line l)), Arg_int (unat (loc_column l))]"

section \<open>Placeholders\<close>

text \<open>How many arguments each diagnostic takes, as a table: what callers must supply.\<close>

definition message_arity :: "message \<Rightarrow> nat" where
  "message_arity m =
     (if m \<in> {file_not_found, missing_closing_quote, unterminated_block_comment} then 0 else 1)"

lemma valid_for_message_arity: "valid_for_message args m \<longleftrightarrow> length args = message_arity m"
  by (cases m) (simp_all add: valid_for_message_def message_arity_def)

definition report_valid :: "report_call \<Rightarrow> bool" where
  "report_valid r \<longleftrightarrow> valid_for_message (rep_args r) (rep_message r)"

text \<open>
  What the reporter shows of a report: its place, a warning for an unterminated comment and an error
  for everything else, and the message's text with the arguments formatted in.
\<close>

definition shown :: "vformat_fn \<Rightarrow> report_call \<Rightarrow> handled_report" where
  "shown vformat r =
     (rep_location r, if rep_message r = unterminated_block_comment then level_warning else level_error,
      vformat (get_message_format_string (rep_message r)) (map (eval_arg vformat) (rep_args r)))"

lemma deliver_shown: "list_all report_valid rs \<Longrightarrow> deliver vformat rs = Inr (map (shown vformat) rs)"
proof (induction rs)
  case (Cons r rs)
  then show ?case
    by (cases "rep_message r") (simp_all add: report_valid_def reporter_report_def shown_def get_default_message_level_def)
qed simp

lemma deliver_all_valid:
  "list_all report_valid rs \<Longrightarrow> \<exists>hs. deliver vformat rs = Inr hs \<and> length hs = length rs"
  by (simp add: deliver_shown)

lemma deliver_append:
  "deliver vformat (xs @ ys) =
     (case deliver vformat xs of
        Inl f \<Rightarrow> Inl f
      | Inr hs \<Rightarrow> (case deliver vformat ys of Inl f \<Rightarrow> Inl f | Inr hs' \<Rightarrow> Inr (hs @ hs')))"
  by (induction xs) (auto split: sum.splits)

section \<open>Properties\<close>

text \<open>C28. Placeholder counting: the loop that counts \<open>{}\<close> placeholders, ignoring escaped braces, demands exactly
  one argument for every diagnostic whose text names an offending token, character, limit or
  reason, and none for the other three.\<close>

theorem valid_for_message_correct:
  "valid_for_message args m \<longleftrightarrow>
     length args = (if m \<in> {file_not_found, missing_closing_quote, unterminated_block_comment} then 0 else 1)"
  using valid_for_message_arity[of args m] by (simp add: message_arity_def)

end
