(* ===== verification/File_View.thy ===== *)
theory File_View
  imports Cero_Prelude
begin

text \<open>
  \<open>util::FileView\<close> (\<open>src/cero/util/file_view.posix.cc\<close>, with the error helpers of
  \<open>system_error.cc\<close>): a read-only memory mapping of a file. The operating system is a parameter,
  a record of system calls and of the error they leave in \<open>errno\<close>; an operation returns its result
  together with the system calls it made, in order.
\<close>

datatype syscall =
    Sys_open string
  | Sys_fstat int
  | Sys_mmap int nat
  | Sys_munmap nat
  | Sys_close int

record error_condition =
  err_value :: int
  err_message :: string

text \<open>
  \<open>sys_mmap\<close> gives the bytes of the mapping, or \<^const>\<open>None\<close> for \<open>MAP_FAILED\<close>; \<open>last_error\<close> is the
  condition that \<open>default_error_condition\<close> makes of the \<open>errno\<close> a failing call left.
\<close>

record posix_api =
  sys_open :: "string \<Rightarrow> int"
  sys_fstat :: "int \<Rightarrow> int \<times> nat"
  sys_mmap :: "int \<Rightarrow> nat \<Rightarrow> string option"
  sys_munmap :: "nat \<Rightarrow> int"
  sys_close :: "int \<Rightarrow> int"
  last_error :: "syscall \<Rightarrow> error_condition"

text \<open>\<open>FileView::Impl\<close>; the mapped memory stands for its address.\<close>

record file_view =
  fv_fd :: int
  fv_size :: nat
  fv_addr :: "string option"

definition file_view_default :: file_view where
  "file_view_default = \<lparr>fv_fd = -1, fv_size = 0, fv_addr = None\<rparr>"

definition get_system_error :: "posix_api \<Rightarrow> syscall \<Rightarrow> error_condition" where
  "get_system_error os failed = last_error os failed"

text \<open>The message of an error; \<open>fmt::format\<close> with an integer and a string is an argument.\<close>

definition get_system_error_msg :: "(string \<Rightarrow> int \<Rightarrow> string \<Rightarrow> string) \<Rightarrow> error_condition \<Rightarrow> string" where
  "get_system_error_msg format error = format ''system error 0x{:x} (\"{}\")'' (err_value error) (err_message error)"

text \<open>\<open>Impl::destroy\<close>: unmap, then close; a failing call trips an assertion.\<close>

definition file_view_destroy :: "posix_api \<Rightarrow> file_view \<Rightarrow> (fault option) \<times> syscall list" where
  "file_view_destroy os f =
     (let unmap = (fv_addr f \<noteq> None);
          close = (fv_fd f \<noteq> -1);
          unmap_calls = (if unmap then [Sys_munmap (fv_size f)] else [])
      in if unmap \<and> sys_munmap os (fv_size f) = -1
         then (Some (Assertion_failed ''could not unmap file''), unmap_calls)
         else if close
         then ((if sys_close os (fv_fd f) = -1 then Some (Assertion_failed ''could not close file'') else None),
               unmap_calls @ [Sys_close (fv_fd f)])
         else (None, unmap_calls))"

text \<open>
  The destructor; move construction, which gives the new view and what the moved-from one keeps; and
  the end of the life of a view, whose system calls follow those made so far.
\<close>

definition file_view_destructor :: "posix_api \<Rightarrow> file_view \<Rightarrow> (fault option) \<times> syscall list" where
  "file_view_destructor os f = file_view_destroy os f"

definition file_view_move :: "file_view \<Rightarrow> file_view \<times> file_view" where
  "file_view_move other = (other, file_view_default)"

definition and_then_destroy :: "posix_api \<Rightarrow> file_view \<Rightarrow> (fault + 'a) \<times> syscall list \<Rightarrow> (fault + 'a) \<times> syscall list" where
  "and_then_destroy os f st =
     (let (aborted, cleanup) = file_view_destructor os f
      in (case aborted of Some a \<Rightarrow> Inl a | None \<Rightarrow> fst st, snd st @ cleanup))"

text \<open>
  An early return destroys the local \<open>f\<close> after its error has been read from \<open>errno\<close>. The last
  return moves \<open>f\<close> into the result, and then destroys what the move leaves of it.
\<close>

definition file_view_fail ::
    "posix_api \<Rightarrow> file_view \<Rightarrow> syscall list \<Rightarrow> syscall \<Rightarrow> (fault + error_condition + file_view) \<times> syscall list" where
  "file_view_fail os f calls failed =
     (let error = get_system_error os failed in and_then_destroy os f (Inr (Inl error), calls))"

definition file_view_return ::
    "posix_api \<Rightarrow> file_view \<Rightarrow> syscall list \<Rightarrow> (fault + error_condition + file_view) \<times> syscall list" where
  "file_view_return os f calls =
     (let (result, f) = file_view_move f in and_then_destroy os f (Inr (Inr result), calls))"

definition file_view_from ::
    "posix_api \<Rightarrow> string \<Rightarrow> (fault + error_condition + file_view) \<times> syscall list" where
  "file_view_from os path =
     (let path_nt = takeWhile (\<lambda>c. c \<noteq> nul) path;
          f0 = file_view_default\<lparr>fv_fd := sys_open os path_nt\<rparr>;
          calls0 = [Sys_open path_nt]
      in if fv_fd f0 = -1 then file_view_fail os f0 calls0 (Sys_open path_nt)
         else
           (let (ret, st_size) = sys_fstat os (fv_fd f0); calls1 = calls0 @ [Sys_fstat (fv_fd f0)]
            in if ret = -1 then file_view_fail os f0 calls1 (Sys_fstat (fv_fd f0))
               else
                 (let f1 = f0\<lparr>fv_size := st_size\<rparr>
                  in if fv_size f1 > 0 then
                       (let f2 = f1\<lparr>fv_addr := sys_mmap os (fv_fd f1) (fv_size f1)\<rparr>;
                            calls2 = calls1 @ [Sys_mmap (fv_fd f1) (fv_size f1)]
                        in if fv_addr f2 = None
                           then file_view_fail os f2 calls2 (Sys_mmap (fv_fd f1) (fv_size f1))
                           else file_view_return os f2 calls2)
                     else file_view_return os f1 calls1)))"

definition file_view_get_text :: "file_view \<Rightarrow> string" where
  "file_view_get_text f =
     (if fv_size f = 0 then '''' else (case fv_addr f of None \<Rightarrow> '''' | Some bytes \<Rightarrow> bytes))"

text \<open>Move assignment between two views (a view assigned to itself stays as it is).\<close>

definition file_view_move_assign ::
    "posix_api \<Rightarrow> file_view \<Rightarrow> file_view \<Rightarrow> (fault + file_view \<times> file_view) \<times> syscall list" where
  "file_view_move_assign os this other =
     (let (aborted, calls) = file_view_destroy os this
      in (case aborted of Some a \<Rightarrow> Inl a | None \<Rightarrow> Inr (other, file_view_default), calls))"

text \<open>A view that was moved from has nothing to release.\<close>

lemma destroy_default: "file_view_destroy os file_view_default = (None, [])"
  by (simp add: file_view_destroy_def file_view_default_def)

lemma and_then_destroy_default [simp]: "and_then_destroy os file_view_default st = st"
  by (simp add: and_then_destroy_def file_view_destructor_def destroy_default)

lemma file_view_return_eq [simp]: "file_view_return os f calls = (Inr (Inr f), calls)"
  by (simp add: file_view_return_def file_view_move_def)

section \<open>Resources\<close>

text \<open>
  The descriptors and mappings a sequence of calls leaves behind: what the calls acquire
  successfully, minus what they release.
\<close>

fun open_descriptors :: "posix_api \<Rightarrow> syscall list \<Rightarrow> int list" where
  "open_descriptors os [] = []"
| "open_descriptors os (c # cs) =
     (case c of
        Sys_open p \<Rightarrow> if sys_open os p = -1 then open_descriptors os cs
                      else sys_open os p # open_descriptors os cs
      | _ \<Rightarrow> open_descriptors os cs)"

definition closed_descriptors :: "syscall list \<Rightarrow> int list" where
  "closed_descriptors cs = concat (map (\<lambda>c. case c of Sys_close fd \<Rightarrow> [fd] | _ \<Rightarrow> []) cs)"

fun mapped_regions :: "posix_api \<Rightarrow> syscall list \<Rightarrow> nat list" where
  "mapped_regions os [] = []"
| "mapped_regions os (c # cs) =
     (case c of
        Sys_mmap fd n \<Rightarrow> if sys_mmap os fd n = None then mapped_regions os cs
                          else n # mapped_regions os cs
      | _ \<Rightarrow> mapped_regions os cs)"

definition unmapped_regions :: "syscall list \<Rightarrow> nat list" where
  "unmapped_regions cs = concat (map (\<lambda>c. case c of Sys_munmap n \<Rightarrow> [n] | _ \<Rightarrow> []) cs)"

definition no_leak :: "posix_api \<Rightarrow> syscall list \<Rightarrow> bool" where
  "no_leak os calls \<longleftrightarrow>
     open_descriptors os calls = closed_descriptors calls \<and>
     mapped_regions os calls = unmapped_regions calls"

lemmas file_view_unfold =
  file_view_from_def file_view_fail_def and_then_destroy_def file_view_destructor_def file_view_destroy_def file_view_default_def
  get_system_error_def no_leak_def closed_descriptors_def unmapped_regions_def

text \<open>
  A system where \<open>munmap\<close> succeeds for a region that \<open>mmap\<close> gave, and \<open>close\<close> for a descriptor that
  \<open>open\<close> gave, and where the mapping of \<open>n\<close> bytes of a file has \<open>n\<close> bytes: the documented behaviour the
  code relies on. Nothing is said of other regions and descriptors.
\<close>

definition posix_ok :: "posix_api \<Rightarrow> bool" where
  "posix_ok os \<longleftrightarrow>
     (\<forall>fd n bytes. sys_mmap os fd n = Some bytes \<longrightarrow> sys_munmap os n \<noteq> -1) \<and>
     (\<forall>p. sys_open os p \<noteq> -1 \<longrightarrow> sys_close os (sys_open os p) \<noteq> -1) \<and>
     (\<forall>fd n bytes. sys_mmap os fd n = Some bytes \<longrightarrow> length bytes = n)"

lemma file_view_from_never_aborts: "posix_ok os \<Longrightarrow> fst (file_view_from os path) \<noteq> Inl f"
  by (auto simp: file_view_unfold posix_ok_def Let_def split: prod.splits if_splits)

lemma file_view_from_error_no_leak:
  "posix_ok os \<Longrightarrow> fst (file_view_from os path) = Inr (Inl e) \<Longrightarrow>
   no_leak os (snd (file_view_from os path))"
  by (auto simp: file_view_unfold posix_ok_def Let_def split: prod.splits if_splits)

lemma file_view_from_then_destroy_no_leak:
  "posix_ok os \<Longrightarrow> fst (file_view_from os path) = Inr (Inr f) \<Longrightarrow>
   fst (file_view_destroy os f) = None \<and>
   no_leak os (snd (file_view_from os path) @ snd (file_view_destroy os f))"
  by (auto simp: file_view_unfold posix_ok_def Let_def split: prod.splits if_splits) blast

lemma file_view_from_text_length:
  "posix_ok os \<Longrightarrow> fst (file_view_from os path) = Inr (Inr f) \<Longrightarrow>
   length (file_view_get_text f) = fv_size f"
  by (auto simp: file_view_unfold file_view_get_text_def Let_def posix_ok_def
      split: prod.splits if_splits option.splits)

section \<open>Properties\<close>

text \<open>C25. No leak: on a system where \<open>munmap\<close> and \<open>close\<close> succeed for what \<open>mmap\<close> and \<open>open\<close> gave, opening a file never aborts; if it fails, every
  descriptor it opened and every region it mapped has been released; if it succeeds, destroying the
  view releases them, and the text of the view has the size of the file.\<close>

theorem file_view_no_leak:
  assumes "posix_ok os"
  shows "case fst (file_view_from os path) of
      Inl f \<Rightarrow> False
    | Inr (Inl e) \<Rightarrow> no_leak os (snd (file_view_from os path))
    | Inr (Inr f) \<Rightarrow>
        fst (file_view_destroy os f) = None \<and>
        no_leak os (snd (file_view_from os path) @ snd (file_view_destroy os f)) \<and>
        length (file_view_get_text f) = fv_size f"
  using file_view_from_never_aborts[OF assms] file_view_from_error_no_leak[OF assms]
    file_view_from_then_destroy_no_leak[OF assms] file_view_from_text_length[OF assms]
  by (auto split: sum.splits)

theorem file_view_no_leak_witness:
  "let os = \<lparr>sys_open = (\<lambda>p. 3), sys_fstat = (\<lambda>fd. (0, 2)), sys_mmap = (\<lambda>fd n. Some (replicate n (CHR ''x''))),
       sys_munmap = (\<lambda>n. 0), sys_close = (\<lambda>fd. 0), last_error = (\<lambda>c. \<lparr>err_value = 0, err_message = ''''\<rparr>)\<rparr>;
     f = \<lparr>fv_fd = 3, fv_size = 2, fv_addr = Some ''xx''\<rparr>
   in fst (file_view_from os ''a'') = Inr (Inr f) \<and>
      no_leak os (snd (file_view_from os ''a'') @ snd (file_view_destroy os f))"
proof -
  let ?os = "\<lparr>sys_open = (\<lambda>p. 3), sys_fstat = (\<lambda>fd. (0, 2)), sys_mmap = (\<lambda>fd n. Some (replicate n (CHR ''x''))),
       sys_munmap = (\<lambda>n. 0), sys_close = (\<lambda>fd. 0), last_error = (\<lambda>c. \<lparr>err_value = 0, err_message = ''''\<rparr>)\<rparr>"
  have ok: "posix_ok ?os" by (auto simp: posix_ok_def)
  have "fst (file_view_from ?os ''a'') = Inr (Inr \<lparr>fv_fd = 3, fv_size = 2, fv_addr = Some ''xx''\<rparr>)"
    by (simp add: file_view_from_def file_view_default_def Let_def numeral_2_eq_2)
  with file_view_no_leak[OF ok, of "''a''"] show ?thesis by (simp add: Let_def)
qed

text \<open>C36. Moving views leaks nothing: opening two files, moving the second view over the first and destroying both
  variables releases what the two openings acquired, each exactly once, in whatever state the files are.\<close>
theorem file_view_move_no_leak:
  assumes "posix_ok os" "fst (file_view_from os p) = Inr (Inr f)" "fst (file_view_from os q) = Inr (Inr g)"
  shows "\<exists>f' g' calls. file_view_move_assign os f g = (Inr (f', g'), calls) \<and>
    no_leak os (snd (file_view_from os p) @ calls) \<and>
    no_leak os (snd (file_view_from os q) @ snd (file_view_destructor os f') @ snd (file_view_destructor os g')) \<and>
    fst (file_view_destructor os f') = None \<and> fst (file_view_destructor os g') = None"
  using file_view_from_then_destroy_no_leak[OF assms(1,2)] file_view_from_then_destroy_no_leak[OF assms(1,3)]
  by (intro exI[of _ g] exI[of _ file_view_default] exI[of _ "snd (file_view_destroy os f)"])
    (simp add: file_view_move_assign_def file_view_destructor_def destroy_default case_prod_beta)

definition sample_posix :: posix_api where
  "sample_posix = \<lparr>sys_open = (\<lambda>p. 3), sys_fstat = (\<lambda>fd. (0, 2)), sys_mmap = (\<lambda>fd n. Some (replicate n (CHR ''x''))),
     sys_munmap = (\<lambda>n. 0), sys_close = (\<lambda>fd. if fd = 3 then 0 else -1),
     last_error = (\<lambda>c. \<lparr>err_value = 0, err_message = ''?''\<rparr>)\<rparr>"

lemma sample_posix_ok: "posix_ok sample_posix"
  by (auto simp: posix_ok_def sample_posix_def)

lemma sample_posix_open:
  "fst (file_view_from sample_posix ''a'') = Inr (Inr \<lparr>fv_fd = 3, fv_size = 2, fv_addr = Some ''xx''\<rparr>)"
  by (simp add: sample_posix_def file_view_from_def file_view_default_def Let_def numeral_2_eq_2)

theorem file_view_move_no_leak_witness:
  "\<exists>f g f' g' calls. fst (file_view_from sample_posix ''a'') = Inr (Inr f) \<and>
     file_view_move_assign sample_posix f g = (Inr (f', g'), calls) \<and>
     no_leak sample_posix (snd (file_view_from sample_posix ''a'') @ calls)"
  using file_view_move_no_leak[OF sample_posix_ok sample_posix_open sample_posix_open] sample_posix_open by blast

end
