(* ===== verification/Source_Text.thy ===== *)
theory Source_Text
  imports Reporting File_View
begin

text \<open>
  Source inputs, \<open>src/cero/syntax/source.hh\<close> and \<open>source.cc\<close>: a source is a file path or a C
  string; locking it gives a view of its text, and the view maps byte offsets to lines and columns.
\<close>

type_synonym source_size = u32

definition source_size_bits :: nat where
  "source_size_bits = 24"

definition source_size_max :: source_size where
  "source_size_max = push_bit source_size_bits 1 - 1"

record source_view =
  sv_file_view :: "file_view option"
  sv_text :: "string option"
  sv_path :: string

record source =
  src_text :: "string option"
  src_path :: string

text \<open>A view converts its C string with \<open>strlen\<close>, so the text stops at the first null character.\<close>

definition get_text :: "source_view \<Rightarrow> string" where
  "get_text v =
     (case sv_file_view v of
        Some f \<Rightarrow> file_view_get_text f
      | None \<Rightarrow> (case sv_text v of Some t \<Rightarrow> takeWhile (\<lambda>c. c \<noteq> nul) t | None \<Rightarrow> ''''))"

definition get_path :: "source_view \<Rightarrow> string" where
  "get_path v = sv_path v"

definition from_file :: "string \<Rightarrow> source" where
  "from_file path = \<lparr>src_text = None, src_path = path\<rparr>"

definition from_string :: "string \<Rightarrow> string \<Rightarrow> source" where
  "from_string text name = \<lparr>src_text = Some text, src_path = name\<rparr>"

text \<open>
  Moving a view moves the file view it holds; the view that was moved from still holds what the move
  leaves of the file view, which is what its destruction destroys.
\<close>

definition source_view_move :: "source_view \<Rightarrow> source_view \<times> file_view option" where
  "source_view_move v =
     (v\<lparr>sv_file_view := map_option (fst \<circ> file_view_move) (sv_file_view v)\<rparr>,
      map_option (snd \<circ> file_view_move) (sv_file_view v))"

definition and_then_destroy_view ::
    "posix_api \<Rightarrow> file_view option \<Rightarrow> (fault + 'a) \<times> syscall list \<Rightarrow> (fault + 'a) \<times> syscall list" where
  "and_then_destroy_view os f st = (case f of None \<Rightarrow> st | Some f \<Rightarrow> and_then_destroy os f st)"

text \<open>
  \<open>Source::lock\<close>. The function given to \<open>transform\<close> moves the file view out of the temporary result
  of \<open>FileView::from\<close> into a local view and returns the local view, which moves it once more; the local
  view and the temporary are then destroyed, in this order.
\<close>

definition source_lock :: "posix_api \<Rightarrow> source \<Rightarrow> (fault + error_condition + source_view) \<times> syscall list" where
  "source_lock os s =
     (case src_text s of
        None \<Rightarrow>
          (let (opened, calls) = file_view_from os (src_path s)
           in case opened of
                Inl f \<Rightarrow> (Inl f, calls)
              | Inr (Inl e) \<Rightarrow> (Inr (Inl e), calls)
              | Inr (Inr file) \<Rightarrow>
                  (let (file_view, file) = file_view_move file;
                       view = \<lparr>sv_file_view = Some file_view, sv_text = None, sv_path = src_path s\<rparr>;
                       (result, left) = source_view_move view
                   in and_then_destroy os file (and_then_destroy_view os left (Inr (Inr result), calls))))
      | Some t \<Rightarrow>
          (let view = \<lparr>sv_file_view = None, sv_text = Some t, sv_path = src_path s\<rparr>;
               (result, left) = source_view_move view
           in and_then_destroy_view os left (Inr (Inr result), [])))"

definition lock :: "posix_api \<Rightarrow> source \<Rightarrow> fault + error_condition + source_view" where
  "lock os s = fst (source_lock os s)"

definition lock_calls :: "posix_api \<Rightarrow> source \<Rightarrow> syscall list" where
  "lock_calls os s = snd (source_lock os s)"

text \<open>What is left of the views releases nothing, so that only the result and the calls of the opening remain.\<close>

lemma lock_eq:
  "lock os s =
     (case src_text s of
        None \<Rightarrow>
          (case fst (file_view_from os (src_path s)) of
             Inl f \<Rightarrow> Inl f
           | Inr (Inl e) \<Rightarrow> Inr (Inl e)
           | Inr (Inr file) \<Rightarrow>
               Inr (Inr \<lparr>sv_file_view = Some file, sv_text = None, sv_path = src_path s\<rparr>))
      | Some t \<Rightarrow> Inr (Inr \<lparr>sv_file_view = None, sv_text = Some t, sv_path = src_path s\<rparr>))"
  by (simp add: lock_def source_lock_def file_view_move_def source_view_move_def and_then_destroy_view_def
      case_prod_beta split: option.splits sum.splits)

lemma lock_calls_eq:
  "lock_calls os s = (if src_text s = None then snd (file_view_from os (src_path s)) else [])"
  by (simp add: lock_calls_def source_lock_def file_view_move_def source_view_move_def and_then_destroy_view_def
      case_prod_beta split: option.splits sum.splits)

section \<open>Locating an offset\<close>

text \<open>
  The first loop of \<open>SourceView::locate\<close>: it counts lines and remembers the index of the last
  newline. Indices are \<open>size_t\<close> values, and \<open>npos\<close> is the largest of them.
\<close>

definition npos :: u64 where
  "npos = - 1"

fun scan_lines :: "string \<Rightarrow> u64 \<Rightarrow> u64 \<Rightarrow> u32 \<Rightarrow> u64 \<times> u32" where
  "scan_lines [] i last_line line = (last_line, line)"
| "scan_lines (c # cs) i last_line line =
     (if c = newline_char then scan_lines cs (i + 1) i (line + 1)
      else scan_lines cs (i + 1) last_line line)"

text \<open>The second loop: columns of the characters after the last newline.\<close>

fun scan_columns :: "string \<Rightarrow> u8 \<Rightarrow> u32 \<Rightarrow> u32" where
  "scan_columns [] tab_size column = column"
| "scan_columns (c # cs) tab_size column =
     scan_columns cs tab_size (column + (if c = tab_char then ucast tab_size else 1))"

text \<open>\<^const>\<open>None\<close> stands for the exception of the second \<open>substr\<close>.\<close>

definition locate :: "source_view \<Rightarrow> source_size \<Rightarrow> u8 \<Rightarrow> code_location option" where
  "locate v offset tab_size =
     (let range = take (unat offset) (get_text v);
          (last_line, line) = scan_lines range 0 npos 1
      in case substr range (unat (last_line + 1)) (length range) of
           None \<Rightarrow> None
         | Some range' \<Rightarrow>
             Some \<lparr>loc_path = sv_path v, loc_line = line, loc_column = scan_columns range' tab_size 1\<rparr>)"

subsection \<open>What a location means\<close>

text \<open>The part of a text after its last newline.\<close>

definition last_line_of :: "string \<Rightarrow> string" where
  "last_line_of s = rev (takeWhile (\<lambda>c. c \<noteq> newline_char) (rev s))"

definition char_width :: "u8 \<Rightarrow> char \<Rightarrow> nat" where
  "char_width tab_size c = (if c = tab_char then unat tab_size else 1)"

lemma unat_source_size_max: "unat source_size_max = 2 ^ 24 - 1"
  by (simp add: source_size_max_def source_size_bits_def push_bit_eq_mult)

lemma source_size_max_less: "n \<le> unat source_size_max \<Longrightarrow> n < 2 ^ 24"
  by (simp add: unat_source_size_max)

lemma last_line_of_snoc:
  "last_line_of (s @ [c]) = (if c = newline_char then [] else last_line_of s @ [c])"
  by (simp add: last_line_of_def)

lemma scan_lines_append:
  "scan_lines (s @ [c]) i l n =
     (case scan_lines s i l n of (l', n') \<Rightarrow>
        if c = newline_char then (i + word_of_nat (length s), n' + 1) else (l', n'))"
  by (induction s arbitrary: i l n) (auto simp: algebra_simps split: prod.splits)

lemma length_last_line_of: "length (last_line_of s) \<le> length s"
  by (metis last_line_of_def length_rev length_takeWhile_le)

text \<open>After the scan, \<open>last_line + 1\<close> is the index where the last line begins.\<close>

lemma scan_lines_result:
  "scan_lines s 0 npos n =
     (word_of_nat (length s - length (last_line_of s)) - 1,
      n + word_of_nat (count_list s newline_char))"
proof (induction s rule: rev_induct)
  case Nil
  show ?case by (simp add: npos_def last_line_of_def)
next
  case (snoc c s)
  then show ?case
    using length_last_line_of[of s]
    by (auto simp: scan_lines_append last_line_of_snoc algebra_simps Suc_diff_le)
qed

lemma last_line_of_suffix: "drop (length s - length (last_line_of s)) s = last_line_of s"
proof (induction s rule: rev_induct)
  case Nil
  show ?case by (simp add: last_line_of_def)
next
  case (snoc c s)
  then show ?case
    using length_last_line_of[of s] by (auto simp: last_line_of_snoc Suc_diff_le)
qed

lemma scan_columns_sum:
  "scan_columns s tab_size column = column + word_of_nat (sum_list (map (char_width tab_size) s))"
  by (induction s arbitrary: column)
    (auto simp: char_width_def algebra_simps)

lemma locate_result:
  "locate v offset tab_size = Some
    \<lparr>loc_path = sv_path v,
     loc_line = word_of_nat (1 + count_list (take (unat offset) (get_text v)) newline_char),
     loc_column = word_of_nat (1 + sum_list (map (char_width tab_size)
       (last_line_of (take (unat offset) (get_text v)))))\<rparr>"
proof -
  define r where "r = take (unat offset) (get_text v)"
  let ?k = "length r - length (last_line_of r)"
  have "unat offset < 2 ^ LENGTH(32)" by (rule unsigned_less)
  then have "?k < 2 ^ 64" by (simp add: r_def)
  then have k: "unat (word_of_nat ?k :: u64) = ?k"
    by (simp add: unat_of_nat take_bit_nat_eq_self)
  have "substr r ?k (length r) = Some (last_line_of r)"
    by (simp add: substr_def last_line_of_suffix length_last_line_of)
  then show ?thesis
    by (simp add: locate_def r_def[symmetric] scan_lines_result k scan_columns_sum)
qed

lemma sum_char_width_le: "sum_list (map (char_width tab_size) s) \<le> length s * 255"
proof (induction s)
  case (Cons c s)
  have "unat tab_size < 2 ^ LENGTH(8)"
    by (rule unsigned_less)
  then have "unat tab_size \<le> 255" by simp
  with Cons show ?case by (simp add: char_width_def)
qed simp

section \<open>Properties\<close>

text \<open>C23. Locations: on a source within the size limit, locating an offset never throws; the line is one more
  than the number of newlines before the offset, the column one more than the width of the text
  between the last newline and the offset, where a tab counts as the tab size; neither wraps around
  in its 32 bits.\<close>

theorem locate_correct:
  assumes "length (get_text v) \<le> unat source_size_max" "before = take (unat offset) (get_text v)"
  shows "\<exists>l. locate v offset tab_size = Some l \<and> loc_path l = get_path v \<and>
    unat (loc_line l) = 1 + count_list before newline_char \<and>
    unat (loc_column l) = 1 + sum_list (map (char_width tab_size) (last_line_of before))"
proof -
  have len: "length (get_text v) < 2 ^ 24" using source_size_max_less[OF assms(1)] .
  then have before: "length before < 2 ^ 24" using assms(2) by simp
  have "count_list before newline_char \<le> length before" by (rule count_le_length)
  with before have line: "1 + count_list before newline_char < 2 ^ 32" by simp
  have "sum_list (map (char_width tab_size) (last_line_of before)) \<le> length before * 255"
    using sum_char_width_le[of tab_size "last_line_of before"] length_last_line_of[of before]
    by (meson le_trans mult_le_mono1)
  with before have column: "1 + sum_list (map (char_width tab_size) (last_line_of before)) < 2 ^ 32" by simp
  from locate_result[of v offset tab_size, folded assms(2)] show ?thesis
    unfolding get_path_def using unat_of_nat_u32[OF line] unat_of_nat_u32[OF column] by simp
qed

theorem locate_correct_witness:
  "\<exists>l. locate \<lparr>sv_file_view = None, sv_text = Some (newline_char # tab_char # ''x''), sv_path = ''a''\<rparr> 2 4 = Some l \<and>
     unat (loc_line l) = 2 \<and> unat (loc_column l) = 5"
proof -
  let ?v = "\<lparr>sv_file_view = None, sv_text = Some (newline_char # tab_char # ''x''), sv_path = ''a''\<rparr>"
  have t: "get_text ?v = newline_char # tab_char # ''x''" by (simp add: get_text_def)
  have "length (get_text ?v) \<le> unat source_size_max" unfolding t by (simp add: unat_source_size_max)
  from locate_correct[OF this, of "[newline_char, tab_char]" 2 4, unfolded t]
  show ?thesis by (auto simp: last_line_of_def char_width_def)
qed

end
