(* ===== verification/Source_Cursor.thy ===== *)
theory Source_Cursor
  imports Source_Text
begin

text \<open>
  \<open>src/cero/syntax/source_cursor.hh\<close>. An iterator into the text is the list of the characters
  from it to the end: \<open>begin_\<close> is the whole text, \<open>end_\<close> the empty list, \<open>++it_\<close> the tail, and
  \<open>it_ - begin_\<close> a difference of lengths.

  \<open>advance\<close> at the end trips a debug assertion and does nothing in a release build; it returns
  whether the assertion holds together with the new cursor.
\<close>

record source_cursor =
  sc_begin :: string
  sc_it :: string

definition sc_init :: "source_view \<Rightarrow> source_cursor" where
  "sc_init v = \<lparr>sc_begin = get_text v, sc_it = get_text v\<rparr>"

definition sc_peek :: "source_cursor \<Rightarrow> char" where
  "sc_peek c = (case sc_it c of [] \<Rightarrow> nul | x # _ \<Rightarrow> x)"

definition sc_next :: "source_cursor \<Rightarrow> char \<times> source_cursor" where
  "sc_next c = (case sc_it c of [] \<Rightarrow> (nul, c) | x # xs \<Rightarrow> (x, c\<lparr>sc_it := xs\<rparr>))"

definition sc_advance :: "source_cursor \<Rightarrow> bool \<times> source_cursor" where
  "sc_advance c = (case sc_it c of [] \<Rightarrow> (False, c) | x # xs \<Rightarrow> (True, c\<lparr>sc_it := xs\<rparr>))"

definition sc_match :: "char \<Rightarrow> source_cursor \<Rightarrow> bool \<times> source_cursor" where
  "sc_match expected c =
     (case sc_it c of
        [] \<Rightarrow> (False, c)
      | x # xs \<Rightarrow> if x = expected then (True, c\<lparr>sc_it := xs\<rparr>) else (False, c))"

definition sc_valid :: "source_cursor \<Rightarrow> bool" where
  "sc_valid c \<longleftrightarrow> sc_it c \<noteq> []"

definition sc_offset :: "source_cursor \<Rightarrow> source_size" where
  "sc_offset c = word_of_nat (length (sc_begin c) - length (sc_it c))"

lemmas sc_defs [cero_unfold] =
  sc_init_def sc_peek_def sc_next_def sc_advance_def sc_match_def sc_valid_def sc_offset_def

end
