(* ===== verification/Token_Kinds.thy ===== *)
theory Token_Kinds
  imports Main
begin

text \<open>
  The token kinds of \<open>src/cero/syntax/token.hh\<close>, and the two switches over them in \<open>token.cc\<close>: the
  lexeme of a fixed-length kind and the format string for a token in a diagnostic.
\<close>

datatype (plugins only: code size) token_kind =
    TK_identifier | TK_line_comment | TK_block_comment | TK_dec_int_literal | TK_hex_int_literal
  | TK_bin_int_literal | TK_oct_int_literal | TK_float_literal | TK_char_literal
  | TK_string_literal | TK_kw_break | TK_kw_catch | TK_kw_const | TK_kw_continue | TK_kw_do
  | TK_kw_else | TK_kw_enum | TK_kw_for | TK_kw_if | TK_kw_in | TK_kw_interface | TK_kw_let
  | TK_kw_mut | TK_kw_private | TK_kw_public | TK_kw_raise | TK_kw_return | TK_kw_static
  | TK_kw_struct | TK_kw_switch | TK_kw_try | TK_kw_unchecked | TK_kw_while | TK_dot | TK_comma
  | TK_colon | TK_semicolon | TK_l_brace | TK_r_brace | TK_l_paren | TK_r_paren | TK_l_bracket
  | TK_r_bracket | TK_l_angle | TK_r_angle | TK_eq | TK_plus | TK_minus | TK_star | TK_slash
  | TK_percent | TK_ampersand | TK_pipe | TK_tilde | TK_caret | TK_bang | TK_thin_arrow
  | TK_thick_arrow | TK_colon_colon | TK_plus_plus | TK_minus_minus | TK_l_angle_angle
  | TK_and_and | TK_pipe_pipe | TK_eq_eq | TK_bang_eq | TK_l_angle_eq | TK_r_angle_eq
  | TK_plus_eq | TK_minus_eq | TK_star_eq | TK_slash_eq | TK_percent_eq | TK_ampersand_eq
  | TK_pipe_eq | TK_tilde_eq | TK_l_angle_angle_eq | TK_r_angle_angle_eq | TK_and_and_eq
  | TK_pipe_pipe_eq | TK_end_of_file

text \<open>The lexemes of the fixed-length kinds; \<^const>\<open>None\<close> is the default branch of the switch.\<close>

primrec fixed_lexeme :: "token_kind \<Rightarrow> string option" where
  "fixed_lexeme TK_identifier = None"
| "fixed_lexeme TK_line_comment = None"
| "fixed_lexeme TK_block_comment = None"
| "fixed_lexeme TK_dec_int_literal = None"
| "fixed_lexeme TK_hex_int_literal = None"
| "fixed_lexeme TK_bin_int_literal = None"
| "fixed_lexeme TK_oct_int_literal = None"
| "fixed_lexeme TK_float_literal = None"
| "fixed_lexeme TK_char_literal = None"
| "fixed_lexeme TK_string_literal = None"
| "fixed_lexeme TK_kw_break = Some ''break''"
| "fixed_lexeme TK_kw_catch = Some ''catch''"
| "fixed_lexeme TK_kw_const = Some ''const''"
| "fixed_lexeme TK_kw_continue = Some ''continue''"
| "fixed_lexeme TK_kw_do = Some ''do''"
| "fixed_lexeme TK_kw_else = Some ''else''"
| "fixed_lexeme TK_kw_enum = Some ''enum''"
| "fixed_lexeme TK_kw_for = Some ''for''"
| "fixed_lexeme TK_kw_if = Some ''if''"
| "fixed_lexeme TK_kw_in = Some ''in''"
| "fixed_lexeme TK_kw_interface = Some ''interface''"
| "fixed_lexeme TK_kw_let = Some ''let''"
| "fixed_lexeme TK_kw_mut = Some ''mut''"
| "fixed_lexeme TK_kw_private = Some ''private''"
| "fixed_lexeme TK_kw_public = Some ''public''"
| "fixed_lexeme TK_kw_raise = Some ''raise''"
| "fixed_lexeme TK_kw_return = Some ''return''"
| "fixed_lexeme TK_kw_static = Some ''static''"
| "fixed_lexeme TK_kw_struct = Some ''struct''"
| "fixed_lexeme TK_kw_switch = Some ''switch''"
| "fixed_lexeme TK_kw_try = Some ''try''"
| "fixed_lexeme TK_kw_unchecked = Some ''unchecked''"
| "fixed_lexeme TK_kw_while = Some ''while''"
| "fixed_lexeme TK_dot = Some ''.''"
| "fixed_lexeme TK_comma = Some '',''"
| "fixed_lexeme TK_colon = Some '':''"
| "fixed_lexeme TK_semicolon = Some '';''"
| "fixed_lexeme TK_l_brace = Some ''{''"
| "fixed_lexeme TK_r_brace = Some ''}''"
| "fixed_lexeme TK_l_paren = Some ''(''"
| "fixed_lexeme TK_r_paren = Some '')''"
| "fixed_lexeme TK_l_bracket = Some ''[''"
| "fixed_lexeme TK_r_bracket = Some '']''"
| "fixed_lexeme TK_l_angle = Some ''<''"
| "fixed_lexeme TK_r_angle = Some ''>''"
| "fixed_lexeme TK_eq = Some ''=''"
| "fixed_lexeme TK_plus = Some ''+''"
| "fixed_lexeme TK_minus = Some ''-''"
| "fixed_lexeme TK_star = Some ''*''"
| "fixed_lexeme TK_slash = Some ''/''"
| "fixed_lexeme TK_percent = Some ''%''"
| "fixed_lexeme TK_ampersand = Some ''&''"
| "fixed_lexeme TK_pipe = Some ''|''"
| "fixed_lexeme TK_tilde = Some ''~''"
| "fixed_lexeme TK_caret = Some ''^''"
| "fixed_lexeme TK_bang = Some ''!''"
| "fixed_lexeme TK_thin_arrow = Some ''->''"
| "fixed_lexeme TK_thick_arrow = Some ''=>''"
| "fixed_lexeme TK_colon_colon = Some ''::''"
| "fixed_lexeme TK_plus_plus = Some ''++''"
| "fixed_lexeme TK_minus_minus = Some ''--''"
| "fixed_lexeme TK_l_angle_angle = Some ''<<''"
| "fixed_lexeme TK_and_and = Some ''&&''"
| "fixed_lexeme TK_pipe_pipe = Some ''||''"
| "fixed_lexeme TK_eq_eq = Some ''==''"
| "fixed_lexeme TK_bang_eq = Some ''!=''"
| "fixed_lexeme TK_l_angle_eq = Some ''<=''"
| "fixed_lexeme TK_r_angle_eq = Some ''>=''"
| "fixed_lexeme TK_plus_eq = Some ''+=''"
| "fixed_lexeme TK_minus_eq = Some ''-=''"
| "fixed_lexeme TK_star_eq = Some ''*=''"
| "fixed_lexeme TK_slash_eq = Some ''/=''"
| "fixed_lexeme TK_percent_eq = Some ''%=''"
| "fixed_lexeme TK_ampersand_eq = Some ''&=''"
| "fixed_lexeme TK_pipe_eq = Some ''|=''"
| "fixed_lexeme TK_tilde_eq = Some ''~=''"
| "fixed_lexeme TK_l_angle_angle_eq = Some ''<<=''"
| "fixed_lexeme TK_r_angle_angle_eq = Some ''>>=''"
| "fixed_lexeme TK_and_and_eq = Some ''&&=''"
| "fixed_lexeme TK_pipe_pipe_eq = Some ''||=''"
| "fixed_lexeme TK_end_of_file = Some ''''"

definition get_token_message_format :: "token_kind \<Rightarrow> string" where
  "get_token_message_format k =
     (case k of
        TK_identifier \<Rightarrow> ''name `{}`''
      | TK_line_comment \<Rightarrow> ''comment''
      | TK_block_comment \<Rightarrow> ''comment''
      | TK_dec_int_literal \<Rightarrow> ''integer literal `{}`''
      | TK_hex_int_literal \<Rightarrow> ''integer literal `{}`''
      | TK_bin_int_literal \<Rightarrow> ''integer literal `{}`''
      | TK_oct_int_literal \<Rightarrow> ''integer literal `{}`''
      | TK_float_literal \<Rightarrow> ''floating-point literal `{}`''
      | TK_char_literal \<Rightarrow> ''character literal {}''
      | TK_string_literal \<Rightarrow> ''string literal {}''
      | TK_end_of_file \<Rightarrow> ''end of file''
      | _ \<Rightarrow> ''`{}`'')"

end
