(* ===== verification/Tokens.thy ===== *)
theory Tokens
  imports Source_Text Token_Kinds
begin

text \<open>
  Tokens, \<open>src/cero/syntax/token.hh\<close>, \<open>token.cc\<close> and \<open>token_list.cc\<close>: the packed token with its
  24-bit offset, the text a token stands for, and the token list.
\<close>

record token =
  tok_kind :: token_kind
  tok_offset :: source_size
  variable_length :: source_size

text \<open>The constructor keeps the low 24 bits of the offset.\<close>

definition mk_token :: "token_kind \<Rightarrow> source_size \<Rightarrow> source_size \<Rightarrow> token" where
  "mk_token k offset len = \<lparr>tok_kind = k, tok_offset = offset AND 0xffffff, variable_length = len\<rparr>"

definition locate_in :: "token \<Rightarrow> source_view \<Rightarrow> u8 \<Rightarrow> code_location option" where
  "locate_in t v tab_size = locate v (tok_offset t) tab_size"

definition token_get_text :: "token \<Rightarrow> source_view \<Rightarrow> fault + string" where
  "token_get_text t v =
     (if variable_length t > 0
      then (case substr (get_text v) (unat (tok_offset t)) (unat (variable_length t)) of
              None \<Rightarrow> Inl Out_of_range
            | Some s \<Rightarrow> Inr s)
      else (case fixed_lexeme (tok_kind t) of
              None \<Rightarrow> Inl Unreachable_reached
            | Some s \<Rightarrow> Inr s))"

section \<open>The token list\<close>

type_synonym token_list = "token list"

definition token_list_put :: "token_list \<Rightarrow> token \<Rightarrow> token_list" where
  "token_list_put tokens t = tokens @ [t]"

definition get_array :: "token_list \<Rightarrow> token list" where
  "get_array tokens = tokens"

section \<open>Token extents\<close>

text \<open>The number of source bytes a token covers.\<close>

definition tok_length :: "token \<Rightarrow> nat" where
  "tok_length t =
     (case fixed_lexeme (tok_kind t) of Some l \<Rightarrow> length l | None \<Rightarrow> unat (variable_length t))"

abbreviation tok_start :: "token \<Rightarrow> nat" where
  "tok_start t \<equiv> unat (tok_offset t)"

definition tok_end :: "token \<Rightarrow> nat" where
  "tok_end t = tok_start t + tok_length t"

text \<open>
  A token fits a text: a variable-length token covers a non-empty part of it, a fixed-length token
  sits where its lexeme stands in the text.
\<close>

definition tok_ok :: "string \<Rightarrow> token \<Rightarrow> bool" where
  "tok_ok txt t \<longleftrightarrow>
     tok_end t \<le> length txt \<and>
     (case fixed_lexeme (tok_kind t) of
        Some l \<Rightarrow> variable_length t = 0 \<and> segment (tok_start t) (tok_end t) txt = l
      | None \<Rightarrow> variable_length t > 0)"

lemma mk_token_sel [simp]:
  "tok_kind (mk_token k off len) = k"
  "variable_length (mk_token k off len) = len"
  by (simp_all add: mk_token_def)

lemma tok_start_mk_token:
  "n < 2 ^ 24 \<Longrightarrow> tok_start (mk_token k (word_of_nat n) len) = n"
  by (simp add: mk_token_def unat_and_mask24 unat_of_nat_u32)

text \<open>The text of a token that fits is the part of the source it covers.\<close>

lemma tok_ok_get_text:
  assumes "tok_ok (get_text v) t"
  shows "token_get_text t v = Inr (segment (tok_start t) (tok_end t) (get_text v))"
proof (cases "fixed_lexeme (tok_kind t)")
  case None
  with assms have "0 < variable_length t" "tok_end t = tok_start t + unat (variable_length t)"
    "tok_start t \<le> length (get_text v)"
    by (auto simp: tok_ok_def tok_end_def tok_length_def)
  then show ?thesis
    by (simp add: token_get_text_def substr_segment)
next
  case (Some l)
  with assms show ?thesis
    by (auto simp: tok_ok_def token_get_text_def)
qed

end
