(* ===== verification/Keywords.thy ===== *)
theory Keywords
  imports Cero_Prelude Token_Kinds
begin

text \<open>
  \<open>src/cero/syntax/keywords.hh\<close>: the keyword table and the 64-bit encoding of keyword tails, by
  which the lexer recognises keywords without comparing strings. The main result is that comparing
  encodings is comparing strings, as long as the compared text holds no null character.
\<close>

type_synonym keyword = "string \<times> token_kind"

definition keyword_table :: "keyword list" where
  "keyword_table =
     [(''break'', TK_kw_break),
      (''catch'', TK_kw_catch),
      (''const'', TK_kw_const),
      (''continue'', TK_kw_continue),
      (''do'', TK_kw_do),
      (''else'', TK_kw_else),
      (''enum'', TK_kw_enum),
      (''for'', TK_kw_for),
      (''if'', TK_kw_if),
      (''in'', TK_kw_in),
      (''interface'', TK_kw_interface),
      (''let'', TK_kw_let),
      (''mut'', TK_kw_mut),
      (''private'', TK_kw_private),
      (''public'', TK_kw_public),
      (''raise'', TK_kw_raise),
      (''return'', TK_kw_return),
      (''static'', TK_kw_static),
      (''struct'', TK_kw_struct),
      (''switch'', TK_kw_switch),
      (''try'', TK_kw_try),
      (''unchecked'', TK_kw_unchecked),
      (''while'', TK_kw_while)]"

text \<open>The integer whose object representation is a byte sequence, on a little-endian machine.\<close>

fun le_value :: "string \<Rightarrow> nat" where
  "le_value [] = 0"
| "le_value (c # cs) = of_char c + 256 * le_value cs"

text \<open>
  Copying up to eight bytes over a zero \<open>uint64_t\<close>: the bytes behind the copied ones stay zero.
\<close>

definition copy_into_u64 :: "string \<Rightarrow> u64" where
  "copy_into_u64 bytes = word_of_nat (le_value (bytes @ replicate (8 - length bytes) nul))"

text \<open>\<^const>\<open>None\<close> is the \<open>throw\<close> that rejects a long keyword at compile time.\<close>

definition encode_keyword_tail :: "string \<Rightarrow> u64 option" where
  "encode_keyword_tail keyword =
     (let tail = drop 1 keyword in
      if length tail > 8 then None else Some (copy_into_u64 tail))"

record keyword_tail =
  kt_tail :: u64
  kt_kind :: token_kind

fun keyword_tails_of :: "char \<Rightarrow> keyword list \<Rightarrow> keyword_tail list option" where
  "keyword_tails_of first [] = Some []"
| "keyword_tails_of first ((lexeme, kind) # kws) =
     (if take 1 lexeme = [first]
      then (case (encode_keyword_tail lexeme, keyword_tails_of first kws) of
              (Some t, Some tails) \<Rightarrow> Some (\<lparr>kt_tail = t, kt_kind = kind\<rparr> # tails)
            | _ \<Rightarrow> None)
      else keyword_tails_of first kws)"

definition get_keyword_tails :: "char \<Rightarrow> keyword_tail list option" where
  "get_keyword_tails first = keyword_tails_of first keyword_table"

section \<open>Encodings identify strings\<close>

lemma le_value_bound: "le_value cs < 256 ^ length cs"
proof (induction cs)
  case (Cons c cs)
  define a where "a = (of_char c :: nat)"
  have "a < 256" by (simp add: a_def)
  moreover have "Suc (le_value cs) \<le> 256 ^ length cs" using Cons by simp
  then have "256 * Suc (le_value cs) \<le> 256 * 256 ^ length cs" by (rule mult_le_mono2)
  ultimately show ?case by (simp add: a_def[symmetric])
qed simp

lemma le_value_inj:
  "length xs = length ys \<Longrightarrow> le_value xs = le_value ys \<Longrightarrow> xs = ys"
proof (induction xs ys rule: list_induct2)
  case (Cons x xs y ys)
  define a b where "a = (of_char x :: nat)" and "b = (of_char y :: nat)"
  have ab: "a < 256" "b < 256" by (simp_all add: a_def b_def)
  have eq: "a + 256 * le_value xs = b + 256 * le_value ys"
    using Cons.prems by (simp add: a_def b_def)
  have "a = (a + 256 * le_value xs) mod 256" using ab by simp
  also have "\<dots> = b" unfolding eq using ab by simp
  finally have "a = b" .
  with eq have "le_value xs = le_value ys" by simp
  with \<open>a = b\<close> Cons.IH show ?case by (simp add: a_def b_def)
qed simp

lemma copy_into_u64_pad_inj:
  assumes "length xs \<le> 8" "length ys \<le> 8" "copy_into_u64 xs = copy_into_u64 ys"
  shows "xs @ replicate (8 - length xs) nul = ys @ replicate (8 - length ys) nul"
proof (rule le_value_inj)
  let ?pad = "\<lambda>s. s @ replicate (8 - length s) nul"
  show len: "length (?pad xs) = length (?pad ys)" using assms by simp
  have bound: "le_value (?pad s) < 2 ^ 64" if "length s \<le> 8" for s
    using le_value_bound[of "?pad s"] that by simp
  have "unat (copy_into_u64 s) = le_value (?pad s)" if "length s \<le> 8" for s
    using bound[OF that] by (simp add: copy_into_u64_def unat_of_nat take_bit_nat_eq_self)
  with assms show "le_value (?pad xs) = le_value (?pad ys)" by metis
qed

lemma pad_inj:
  assumes "nul \<notin> set xs" "nul \<notin> set ys" "xs @ replicate m nul = ys @ replicate n nul"
  shows "xs = ys"
proof -
  have "takeWhile (\<lambda>c. c \<noteq> nul) (s @ replicate k nul) = s" if "nul \<notin> set s" for s k
  proof -
    have "takeWhile (\<lambda>c. c \<noteq> nul) (s @ replicate k nul) = s @ takeWhile (\<lambda>c. c \<noteq> nul) (replicate k nul)"
      by (rule takeWhile_append2) (use that in auto)
    then show ?thesis by (cases k) simp_all
  qed
  with assms show ?thesis by metis
qed

lemma copy_into_u64_inj:
  assumes "length xs \<le> 8" "length ys \<le> 8" "nul \<notin> set xs" "nul \<notin> set ys"
  shows "copy_into_u64 xs = copy_into_u64 ys \<longleftrightarrow> xs = ys"
  using assms copy_into_u64_pad_inj pad_inj by metis

section \<open>The tails of each letter\<close>

text \<open>
  The reference semantics of keyword recognition: the kind of the table entry whose lexeme is the
  word, if there is one.
\<close>

definition keyword_kind :: "string \<Rightarrow> token_kind option" where
  "keyword_kind word = map_of keyword_table word"

lemma keywords_wf:
  "\<forall>(lexeme, kind) \<in> set keyword_table. lexeme \<noteq> [] \<and> length lexeme \<le> 9 \<and> nul \<notin> set lexeme \<and>
     fixed_lexeme kind = Some lexeme"
  unfolding keyword_table_def by simp

lemma distinct_keywords: "distinct (map fst keyword_table)"
  unfolding keyword_table_def by simp

lemma keyword_tails_of_eq:
  assumes "\<forall>(lexeme, kind) \<in> set kws. lexeme \<noteq> [] \<and> length lexeme \<le> 9"
  shows "keyword_tails_of first kws =
    Some (map (\<lambda>(lexeme, kind). \<lparr>kt_tail = copy_into_u64 (tl lexeme), kt_kind = kind\<rparr>)
      (filter (\<lambda>(lexeme, kind). hd lexeme = first) kws))"
  using assms
proof (induction kws)
  case (Cons kw kws)
  obtain lexeme kind where kw: "kw = (lexeme, kind)" by (cases kw)
  with Cons.prems obtain c cs where "lexeme = c # cs" by (cases lexeme) auto
  with Cons kw show ?case
    by (auto simp: encode_keyword_tail_def)
qed simp

lemma get_keyword_tails_eq:
  "get_keyword_tails first =
    Some (map (\<lambda>(lexeme, kind). \<lparr>kt_tail = copy_into_u64 (tl lexeme), kt_kind = kind\<rparr>)
      (filter (\<lambda>(lexeme, kind). hd lexeme = first) keyword_table))"
  unfolding get_keyword_tails_def
  by (rule keyword_tails_of_eq) (use keywords_wf in auto)

text \<open>The first tail that matches an encoding, as the loop of the lexer finds it.\<close>

fun match_tails :: "u64 \<Rightarrow> keyword_tail list \<Rightarrow> token_kind option" where
  "match_tails encoded [] = None"
| "match_tails encoded (kw_tail # kw_tails) =
     (if kt_tail kw_tail = encoded then Some (kt_kind kw_tail) else match_tails encoded kw_tails)"

lemma match_tails_keywords:
  assumes "\<forall>(lexeme, kind) \<in> set kws. lexeme \<noteq> [] \<and> length lexeme \<le> 9 \<and> nul \<notin> set lexeme"
    and "length tail \<le> 8" "nul \<notin> set tail"
  shows "match_tails (copy_into_u64 tail)
      (map (\<lambda>(lexeme, kind). \<lparr>kt_tail = copy_into_u64 (tl lexeme), kt_kind = kind\<rparr>)
        (filter (\<lambda>(lexeme, kind). hd lexeme = first) kws))
    = map_of kws (first # tail)"
  using assms
proof (induction kws)
  case (Cons kw kws)
  obtain lexeme kind where kw: "kw = (lexeme, kind)" by (cases kw)
  with Cons.prems obtain c cs where lexeme: "lexeme = c # cs" by (cases lexeme) auto
  have "copy_into_u64 cs = copy_into_u64 tail \<longleftrightarrow> cs = tail"
    using Cons.prems kw lexeme by (intro copy_into_u64_inj) auto
  with Cons kw lexeme show ?case by auto
qed simp

text \<open>
  Comparing encodings decides the keyword table: on a word of at most nine bytes whose tail has no
  null character, matching the tails of its first letter gives the entry of the whole word.
\<close>

lemma match_tails_keyword_kind:
  assumes "get_keyword_tails first = Some tails" "length tail \<le> 8" "nul \<notin> set tail"
  shows "match_tails (copy_into_u64 tail) tails = keyword_kind (first # tail)"
  using assms match_tails_keywords[of keyword_table tail first] keywords_wf
  by (auto simp: get_keyword_tails_eq keyword_kind_def)

lemma keyword_kind_short: "keyword_kind w = Some k \<Longrightarrow> w \<noteq> [] \<and> length w \<le> 9 \<and> nul \<notin> set w \<and> fixed_lexeme k = Some w"
  unfolding keyword_kind_def using keywords_wf by (auto dest!: map_of_SomeD)

section \<open>Properties\<close>

text \<open>C18. Keyword encoding: for a word of at most nine bytes without null characters, comparing its packed tail
  with the packed tails of its first letter finds exactly the table entry of the whole word; the
  table always compiles.\<close>

theorem keyword_tails_correct:
  assumes "length tail \<le> 8" "nul \<notin> set tail"
  shows "\<exists>tails. get_keyword_tails first = Some tails \<and>
    match_tails (copy_into_u64 tail) tails = map_of keyword_table (first # tail)"
proof -
  obtain tails where tails: "get_keyword_tails first = Some tails" by (simp add: get_keyword_tails_eq)
  from match_tails_keyword_kind[OF this assms] tails show ?thesis by (simp add: keyword_kind_def)
qed

theorem keyword_tails_correct_witness:
  "\<exists>tails. get_keyword_tails (CHR ''u'') = Some tails \<and>
     match_tails (copy_into_u64 ''nchecked'') tails = Some TK_kw_unchecked"
proof -
  have "map_of keyword_table (CHR ''u'' # ''nchecked'') = Some TK_kw_unchecked"
    by (simp add: keyword_table_def)
  with keyword_tails_correct[of "''nchecked''" "CHR ''u''"] show ?thesis by simp
qed

end
