(* ===== verification/Unicode.thy ===== *)
theory Unicode
  imports Unicode_Tables
begin

text \<open>
  \<open>src/cero/syntax/unicode.hh\<close> and the functions of \<open>unicode.cc\<close>: ASCII classification, decoding
  of a UTF-8 character packed little-endian into a 32-bit integer, and the binary search in the
  range tables. The locale \<open>range_table\<close> is the contract between a table and its search.
\<close>

section \<open>ASCII characters\<close>

definition is_ascii :: "char \<Rightarrow> bool" where
  "is_ascii c \<longleftrightarrow> drop_bit 7 (of_char c :: u8) = 0"

definition is_ascii_identifier_char :: "char \<Rightarrow> bool" where
  "is_ascii_identifier_char c \<longleftrightarrow>
     (CHR ''a'' \<le> c \<and> c \<le> CHR ''z'') \<or> (CHR ''A'' \<le> c \<and> c \<le> CHR ''Z'') \<or>
     (CHR ''0'' \<le> c \<and> c \<le> CHR ''9'') \<or> c = CHR ''_''"

definition is_ascii_whitespace :: "char \<Rightarrow> bool" where
  "is_ascii_whitespace c \<longleftrightarrow> c = CHR '' '' \<or> (CHR 0x09 \<le> c \<and> c \<le> CHR 0x0D)"

definition is_decimal_digit :: "char \<Rightarrow> bool" where
  "is_decimal_digit c \<longleftrightarrow> CHR ''0'' \<le> c \<and> c \<le> CHR ''9''"

definition is_hexadecimal_digit :: "char \<Rightarrow> bool" where
  "is_hexadecimal_digit c \<longleftrightarrow>
     (CHR ''0'' \<le> c \<and> c \<le> CHR ''9'') \<or> (CHR ''a'' \<le> c \<and> c \<le> CHR ''f'') \<or>
     (CHR ''A'' \<le> c \<and> c \<le> CHR ''F'')"

lemmas ascii_class_defs =
  is_ascii_def is_ascii_identifier_char_def is_ascii_whitespace_def is_decimal_digit_def
  is_hexadecimal_digit_def

section \<open>Decoding\<close>

text \<open>\<open>std::countl_one\<close> on a byte.\<close>

definition countl_one :: "u8 \<Rightarrow> nat" where
  "countl_one b = length (takeWhile (bit b) [7, 6, 5, 4, 3, 2, 1, 0])"

text \<open>Byte \<open>i\<close> of the object representation of a 32-bit integer on a little-endian machine.\<close>

definition byte_of :: "u32 \<Rightarrow> nat \<Rightarrow> u32" where
  "byte_of w i = drop_bit (8 * i) w AND 0xff"

definition utf8_lengths :: "nat list" where
  "utf8_lengths =
     [1, 1, 1, 1, 1, 1, 1, 1, 1, 1, 1, 1, 1, 1, 1, 1, 0, 0, 0, 0, 0, 0, 0, 0, 2, 2, 2, 2, 3, 3, 4, 0]"

definition utf8_masks :: "u32 list" where
  "utf8_masks = [0x00, 0x7f, 0x1f, 0x0f, 0x07]"

definition utf8_shifts :: "nat list" where
  "utf8_shifts = [0, 18, 12, 6, 0]"

definition utf8_char_to_unicode_scalar :: "u32 \<Rightarrow> u32" where
  "utf8_char_to_unicode_scalar utf8_char =
     (let len = utf8_lengths ! unat (drop_bit 3 (byte_of utf8_char 0));
          code_point = push_bit 18 (byte_of utf8_char 0 AND utf8_masks ! len)
            OR push_bit 12 (byte_of utf8_char 1 AND 0x3f)
            OR push_bit 6 (byte_of utf8_char 2 AND 0x3f)
            OR push_bit 0 (byte_of utf8_char 3 AND 0x3f)
      in drop_bit (utf8_shifts ! len) code_point)"

section \<open>Table search\<close>

datatype strong_ordering = ordering_less | ordering_equal | ordering_greater

definition range_compare :: "unicode_scalar_range \<Rightarrow> u32 \<Rightarrow> strong_ordering" where
  "range_compare r unicode_scalar =
     (if fst r > unicode_scalar then ordering_greater
      else if snd r < unicode_scalar then ordering_less
      else ordering_equal)"

text \<open>The loop of \<open>std::lower_bound\<close> over the elements \<open>[first, first + len)\<close>.\<close>

function lower_bound :: "('a \<Rightarrow> bool) \<Rightarrow> 'a list \<Rightarrow> nat \<Rightarrow> nat \<Rightarrow> nat" where
  "lower_bound less_than_value table first len =
     (if len = 0 then first
      else let half = len div 2; middle = first + half in
        if less_than_value (table ! middle)
        then lower_bound less_than_value table (middle + 1) (len - half - 1)
        else lower_bound less_than_value table first half)"
  by pat_completeness auto
termination
  by (relation "measure (\<lambda>(p, t, first, len). len)") auto

declare lower_bound.simps [simp del]

definition std_binary_search :: "unicode_scalar_range list \<Rightarrow> u32 \<Rightarrow> bool" where
  "std_binary_search table v =
     (let i = lower_bound (\<lambda>r. range_compare r v = ordering_less) table 0 (length table)
      in i \<noteq> length table \<and> \<not> range_compare (table ! i) v = ordering_greater)"

definition search_table :: "unicode_scalar_range list \<Rightarrow> u32 \<Rightarrow> bool" where
  "search_table table utf8_char = std_binary_search table (utf8_char_to_unicode_scalar utf8_char)"

definition is_utf8_xid_start_char :: "u32 \<Rightarrow> bool" where
  "is_utf8_xid_start_char utf8_char = search_table xid_start_table utf8_char"

definition is_utf8_xid_continue_char :: "u32 \<Rightarrow> bool" where
  "is_utf8_xid_continue_char utf8_char = search_table xid_continue_table utf8_char"

section \<open>The search decides membership\<close>

text \<open>
  \<open>lower_bound\<close> finds the partition point of a predicate that holds on a prefix of the table, in
  any window whose left neighbours satisfy it and whose right neighbours do not.
\<close>

lemma lower_bound_partition:
  assumes "k \<le> n" "first \<le> k" "k \<le> first + len" "first + len \<le> n"
    and "\<And>i. i < n \<Longrightarrow> p (table ! i) \<longleftrightarrow> i < k"
  shows "lower_bound p table first len = k"
  using assms
proof (induction p table first len rule: lower_bound.induct)
  case (1 p table first len)
  show ?case
  proof (cases "len = 0")
    case True
    with 1 show ?thesis by (simp add: lower_bound.simps)
  next
    case False
    let ?m = "first + len div 2"
    have m: "p (table ! ?m) \<longleftrightarrow> ?m < k"
      using 1 False by auto
    show ?thesis
    proof (cases "?m < k")
      case True
      have "lower_bound p table (?m + 1) (len - len div 2 - 1) = k"
        by (rule 1(1)[OF False refl refl]) (use 1 True m False in auto)
      with True m False show ?thesis
        by (subst lower_bound.simps) (simp add: Let_def)
    next
      case not_less: False
      have "lower_bound p table first (len div 2) = k"
        by (rule 1(2)[OF False refl refl]) (use 1 not_less m False in auto)
      with not_less m False show ?thesis
        by (subst lower_bound.simps) (simp add: Let_def)
    qed
  qed
qed

definition in_table :: "unicode_scalar_range list \<Rightarrow> u32 \<Rightarrow> bool" where
  "in_table table v \<longleftrightarrow> (\<exists>(b, e) \<in> set table. b \<le> v \<and> v \<le> e)"

lemma table_ok_Cons:
  "table_ok (r # rs) \<longleftrightarrow> fst r \<le> snd r \<and> (rs \<noteq> [] \<longrightarrow> snd r < fst (hd rs)) \<and> table_ok rs"
  by (cases r; cases rs) auto

lemma table_ok_first_least:
  "table_ok (r # rs) \<Longrightarrow> s \<in> set rs \<Longrightarrow> snd r < fst s"
proof (induction rs arbitrary: r)
  case (Cons t rs)
  have r: "snd r < fst t" and t: "fst t \<le> snd t" "table_ok (t # rs)"
    using Cons.prems(1) by (simp_all add: table_ok_Cons)
  show ?case
  proof (cases "s = t")
    case False
    with Cons.prems(2) have "snd t < fst s" by (intro Cons.IH[OF t(2)]) simp
    with r t(1) show ?thesis by (meson order.strict_trans1 order.strict_trans)
  qed (simp add: r)
qed simp

lemma table_ok_ordered:
  "table_ok table \<Longrightarrow> i < j \<Longrightarrow> j < length table \<Longrightarrow> snd (table ! i) < fst (table ! j)"
proof (induction table arbitrary: i j)
  case (Cons r rs)
  show ?case
  proof (cases i)
    case 0
    with Cons.prems show ?thesis
      using table_ok_first_least[OF Cons.prems(1), of "rs ! (j - 1)"] by simp
  next
    case (Suc i')
    with Cons show ?thesis by (auto simp: table_ok_Cons nth_Cons split: nat.splits)
  qed
qed simp

lemma table_ok_nonempty_range: "table_ok table \<Longrightarrow> i < length table \<Longrightarrow> fst (table ! i) \<le> snd (table ! i)"
  by (induction table arbitrary: i) (auto simp: table_ok_Cons nth_Cons split: nat.splits)

locale range_table =
  fixes table :: "unicode_scalar_range list"
  assumes ok: "table_ok table"
begin

text \<open>The number of ranges that end before a value.\<close>

lemma ex_partition:
  "\<exists>k \<le> length table. \<forall>i < length table. snd (table ! i) < v \<longleftrightarrow> i < k"
proof -
  define k where "k = (LEAST k. k = length table \<or> \<not> snd (table ! k) < v)"
  have stop: "k = length table \<or> \<not> snd (table ! k) < v"
    unfolding k_def by (rule LeastI[of _ "length table"]) simp
  have le: "k \<le> length table"
    unfolding k_def by (rule Least_le) simp
  have before: "snd (table ! i) < v" if "i < k" for i
    using not_less_Least[of i "\<lambda>k. k = length table \<or> \<not> snd (table ! k) < v"] that
    unfolding k_def by blast
  have after: "\<not> snd (table ! i) < v" if "k \<le> i" "i < length table" for i
  proof (cases "i = k")
    case True
    with stop that show ?thesis by auto
  next
    case False
    with that have "snd (table ! k) < fst (table ! i)" "fst (table ! i) \<le> snd (table ! i)"
      using table_ok_ordered[OF ok, of k i] table_ok_nonempty_range[OF ok, of i] by auto
    with stop that show ?thesis by auto
  qed
  show ?thesis
    using le before after by (intro exI[of _ k]) (metis linorder_not_le)
qed

lemma search_iff_in_table: "std_binary_search table v \<longleftrightarrow> in_table table v"
proof -
  obtain k where k: "k \<le> length table" "\<And>i. i < length table \<Longrightarrow> snd (table ! i) < v \<longleftrightarrow> i < k"
    using ex_partition by blast
  have less: "range_compare r v = ordering_less \<longleftrightarrow> \<not> v < fst r \<and> snd r < v" for r
    by (simp add: range_compare_def)
  have "range_compare (table ! i) v = ordering_less \<longleftrightarrow> i < k" if "i < length table" for i
    using k(2)[OF that] table_ok_nonempty_range[OF ok that] by (auto simp: less)
  then have lb: "lower_bound (\<lambda>r. range_compare r v = ordering_less) table 0 (length table) = k"
    by (intro lower_bound_partition[where n = "length table"]) (use k in auto)
  have found: "in_table table v \<longleftrightarrow> k < length table \<and> fst (table ! k) \<le> v"
  proof
    assume "in_table table v"
    then obtain i where i: "i < length table" "fst (table ! i) \<le> v" "v \<le> snd (table ! i)"
      by (force simp: in_table_def in_set_conv_nth)
    then have "k \<le> i" using k(2)[OF i(1)] by auto
    moreover have "\<not> k < i"
      using table_ok_ordered[OF ok _ i(1), of k] k(2)[of k] i by fastforce
    ultimately show "k < length table \<and> fst (table ! k) \<le> v" using i by simp
  next
    assume a: "k < length table \<and> fst (table ! k) \<le> v"
    then have "v \<le> snd (table ! k)" using k(2)[of k] by auto
    with a show "in_table table v"
      by (auto simp: in_table_def intro!: bexI[of _ "table ! k"] split: prod.splits)
  qed
  have "range_compare r v = ordering_greater \<longleftrightarrow> v < fst r" for r
    by (simp add: range_compare_def)
  then show ?thesis
    using k(1) by (auto simp: std_binary_search_def lb found Let_def)
qed

end

interpretation xid_start: range_table xid_start_table
  by unfold_locales (rule xid_start_table_ok)

interpretation xid_continue: range_table xid_continue_table
  by unfold_locales (rule xid_continue_table_ok)

section \<open>Decoding inverts UTF-8 encoding\<close>

text \<open>
  The UTF-8 encoding of a scalar value (RFC 3629), and its bytes packed little-endian, first byte
  lowest, as the lexer collects them.
\<close>

definition utf8_bytes :: "u32 \<Rightarrow> u8 list" where
  "utf8_bytes v =
     (if v < 0x80 then [ucast v]
      else if v < 0x800 then [0xc0 OR ucast (drop_bit 6 v), 0x80 OR (ucast v AND 0x3f)]
      else if v < 0x10000 then
        [0xe0 OR ucast (drop_bit 12 v), 0x80 OR (ucast (drop_bit 6 v) AND 0x3f), 0x80 OR (ucast v AND 0x3f)]
      else
        [0xf0 OR ucast (drop_bit 18 v), 0x80 OR (ucast (drop_bit 12 v) AND 0x3f),
         0x80 OR (ucast (drop_bit 6 v) AND 0x3f), 0x80 OR (ucast v AND 0x3f)])"

fun pack_le :: "u8 list \<Rightarrow> u32" where
  "pack_le [] = 0"
| "pack_le (b # bs) = ucast b OR push_bit 8 (pack_le bs)"

lemma bits_above:
  assumes "(v :: u32) < 2 ^ n" "n < 32" "n \<le> k"
  shows "\<not> bit v k"
proof -
  have "take_bit n v = v"
    using assms(1,2) by (simp add: take_bit_eq_mask less_mask_eq)
  with assms(3) show ?thesis
    by (metis bit_take_bit_iff linorder_not_le)
qed

lemma upt_32:
  "[0..<32] = [0, 1, 2, 3, 4, 5, 6, 7, 8, 9, 10, 11, 12, 13, 14, 15, 16, 17, 18, 19, 20, 21, 22, 23,
    24, 25, 26, 27, 28, 29, 30, 31]"
  by code_simp

lemma word32_eqI:
  assumes "\<forall>n \<in> {0, 1, 2, 3, 4, 5, 6, 7, 8, 9, 10, 11, 12, 13, 14, 15, 16, 17, 18, 19, 20, 21, 22, 23,
    24, 25, 26, 27, 28, 29, 30, 31}. bit (a :: u32) n = bit b n"
  shows "a = b"
proof (rule bit_word_eqI)
  fix n :: nat
  assume "n < LENGTH(32)"
  then have "n \<in> set [0..<32]" by simp
  with assms show "bit a n = bit b n"
    unfolding upt_32 list.set by blast
qed

text \<open>The length table on a lead byte of each class.\<close>

lemma utf8_lengths_one: "(x :: u32) < 0x80 \<Longrightarrow> utf8_lengths ! unat (drop_bit 3 x) = 1"
proof -
  assume "x < 0x80"
  then have "unat x < 128" by (simp add: word_less_nat_alt)
  then have "unat x div 8 < 16" by simp
  then have "unat x div 8 \<in> set [0..<16]" by simp
  moreover have "\<forall>i \<in> set [0..<16]. utf8_lengths ! i = 1" by code_simp
  ultimately show ?thesis
    by (simp add: unat_drop_bit_eq drop_bit_eq_div unat_div)
qed

lemma utf8_lengths_two: "drop_bit 5 (x :: u32) = 6 \<Longrightarrow> utf8_lengths ! unat (drop_bit 3 x) = 2"
proof -
  assume "drop_bit 5 x = 6"
  then have "unat (drop_bit 5 x) = 6" by simp
  then have "unat x div 32 = 6" by (simp add: unat_drop_bit_eq drop_bit_eq_div unat_div)
  then have "unat x div 8 = 24 \<or> unat x div 8 = 25 \<or> unat x div 8 = 26 \<or> unat x div 8 = 27"
    by linarith
  then show ?thesis
    by (auto simp: unat_drop_bit_eq drop_bit_eq_div unat_div utf8_lengths_def)
qed

lemma utf8_lengths_three: "drop_bit 4 (x :: u32) = 14 \<Longrightarrow> utf8_lengths ! unat (drop_bit 3 x) = 3"
proof -
  assume "drop_bit 4 x = 14"
  then have "unat (drop_bit 4 x) = 14" by simp
  then have "unat x div 16 = 14" by (simp add: unat_drop_bit_eq drop_bit_eq_div unat_div)
  then have "unat x div 8 = 28 \<or> unat x div 8 = 29"
    by linarith
  then show ?thesis
    by (auto simp: unat_drop_bit_eq drop_bit_eq_div unat_div utf8_lengths_def)
qed

lemma utf8_lengths_four: "drop_bit 3 (x :: u32) = 30 \<Longrightarrow> utf8_lengths ! unat (drop_bit 3 x) = 4"
  by (simp add: utf8_lengths_def)

lemmas utf8_bits = pack_le.simps byte_of_def bit_simps
lemmas utf8_decode = utf8_char_to_unicode_scalar_def utf8_bytes_def utf8_masks_def utf8_shifts_def

lemma utf8_decode_one:
  assumes "v < 0x80"
  shows "utf8_char_to_unicode_scalar (pack_le (utf8_bytes v)) = v"
proof -
  have b: "\<not> bit v k" if "7 \<le> k" for k using bits_above[of v 7 k] assms that by simp
  let ?w = "pack_le [ucast v]"
  have "byte_of ?w 0 = v"
    by (rule word32_eqI) (simp add: utf8_bits b)
  with assms have l: "utf8_lengths ! unat (drop_bit 3 (byte_of ?w 0)) = 1"
    by (simp add: utf8_lengths_one)
  have "drop_bit 18
     (push_bit 18 (byte_of ?w 0 AND 0x7f) OR push_bit 12 (byte_of ?w 1 AND 0x3f) OR
      push_bit 6 (byte_of ?w 2 AND 0x3f) OR push_bit 0 (byte_of ?w 3 AND 0x3f)) = v"
    by (rule word32_eqI) (simp add: utf8_bits b)
  with assms l show ?thesis
    by (simp add: utf8_decode Let_def)
qed

lemma utf8_decode_two:
  assumes "v < 0x800" "\<not> v < 0x80"
  shows "utf8_char_to_unicode_scalar (pack_le (utf8_bytes v)) = v"
proof -
  have b: "\<not> bit v k" if "11 \<le> k" for k using bits_above[of v 11 k] assms that by simp
  let ?w = "pack_le [0xc0 OR ucast (drop_bit 6 v), 0x80 OR (ucast v AND 0x3f)]"
  have "drop_bit 5 (byte_of ?w 0) = 6"
    by (rule word32_eqI) (simp add: utf8_bits b)
  then have l: "utf8_lengths ! unat (drop_bit 3 (byte_of ?w 0)) = 2" by (rule utf8_lengths_two)
  have "drop_bit 12
     (push_bit 18 (byte_of ?w 0 AND 0x1f) OR push_bit 12 (byte_of ?w 1 AND 0x3f) OR
      push_bit 6 (byte_of ?w 2 AND 0x3f) OR push_bit 0 (byte_of ?w 3 AND 0x3f)) = v"
    by (rule word32_eqI) (simp add: utf8_bits b)
  with assms l show ?thesis
    by (simp add: utf8_decode Let_def)
qed

lemma utf8_decode_three:
  assumes "v < 0x10000" "\<not> v < 0x800"
  shows "utf8_char_to_unicode_scalar (pack_le (utf8_bytes v)) = v"
proof -
  have b: "\<not> bit v k" if "16 \<le> k" for k using bits_above[of v 16 k] assms that by simp
  let ?w = "pack_le [0xe0 OR ucast (drop_bit 12 v), 0x80 OR (ucast (drop_bit 6 v) AND 0x3f),
    0x80 OR (ucast v AND 0x3f)]"
  have "drop_bit 4 (byte_of ?w 0) = 14"
    by (rule word32_eqI) (simp add: utf8_bits b)
  then have l: "utf8_lengths ! unat (drop_bit 3 (byte_of ?w 0)) = 3" by (rule utf8_lengths_three)
  have d: "drop_bit 6
     (push_bit 18 (byte_of ?w 0 AND 0x0f) OR push_bit 12 (byte_of ?w 1 AND 0x3f) OR
      push_bit 6 (byte_of ?w 2 AND 0x3f) OR push_bit 0 (byte_of ?w 3 AND 0x3f)) = v"
    by (rule word32_eqI) (simp add: utf8_bits b)
  have "\<not> v < 0x80" using assms(2) by (simp add: word_less_nat_alt)
  with assms l d show ?thesis
    by (simp add: utf8_decode Let_def)
qed

lemma utf8_decode_four:
  assumes "v < 0x110000" "\<not> v < 0x10000"
  shows "utf8_char_to_unicode_scalar (pack_le (utf8_bytes v)) = v"
proof -
  have "v < 2 ^ 21" using assms(1) by (simp add: word_less_nat_alt)
  then have b: "\<not> bit v k" if "21 \<le> k" for k using bits_above[of v 21 k] that by simp
  let ?w = "pack_le [0xf0 OR ucast (drop_bit 18 v), 0x80 OR (ucast (drop_bit 12 v) AND 0x3f),
    0x80 OR (ucast (drop_bit 6 v) AND 0x3f), 0x80 OR (ucast v AND 0x3f)]"
  have "drop_bit 3 (byte_of ?w 0) = 30"
    by (rule word32_eqI) (simp add: utf8_bits b)
  then have l: "utf8_lengths ! unat (drop_bit 3 (byte_of ?w 0)) = 4" by (rule utf8_lengths_four)
  have d: "drop_bit 0
     (push_bit 18 (byte_of ?w 0 AND 0x07) OR push_bit 12 (byte_of ?w 1 AND 0x3f) OR
      push_bit 6 (byte_of ?w 2 AND 0x3f) OR push_bit 0 (byte_of ?w 3 AND 0x3f)) = v"
    by (rule word32_eqI) (simp add: utf8_bits b)
  have "\<not> v < 0x80" "\<not> v < 0x800" using assms(2) by (simp_all add: word_less_nat_alt)
  with assms l d show ?thesis
    by (simp add: utf8_decode Let_def)
qed

lemma utf8_roundtrip:
  "v < 0x110000 \<Longrightarrow> utf8_char_to_unicode_scalar (pack_le (utf8_bytes v)) = v"
  using utf8_decode_one utf8_decode_two utf8_decode_three utf8_decode_four by blast

text \<open>
  The decoder masks the two high bits of the continuation bytes without looking at them: flipping
  them, which makes the encoding ill-formed, changes nothing.
\<close>

lemma continuation_bytes_unchecked:
  "utf8_char_to_unicode_scalar (w XOR (m AND 0xc0c0c000)) = utf8_char_to_unicode_scalar w"
proof -
  let ?w = "w XOR (m AND 0xc0c0c000)"
  have "byte_of ?w 0 = byte_of w 0" by (rule word32_eqI) (simp add: utf8_bits)
  moreover have "byte_of ?w 1 AND 0x3f = byte_of w 1 AND 0x3f" "byte_of ?w 2 AND 0x3f = byte_of w 2 AND 0x3f"
    "byte_of ?w 3 AND 0x3f = byte_of w 3 AND 0x3f"
    by (rule word32_eqI, simp add: utf8_bits)+
  ultimately show ?thesis by (simp add: utf8_char_to_unicode_scalar_def)
qed

section \<open>Properties\<close>

text \<open>C21. Identifier start characters: on the packed UTF-8 encoding of any scalar value, decoding and binary
  search answer exactly whether one of the ranges of the XID_Start table contains the value.\<close>

theorem xid_start_char_correct:
  assumes "v < 0x110000"
  shows "is_utf8_xid_start_char (pack_le (utf8_bytes v)) \<longleftrightarrow>
    (\<exists>(b, e) \<in> set xid_start_table. b \<le> v \<and> v \<le> e)"
  using utf8_roundtrip[OF assms] xid_start.search_iff_in_table[of v]
  by (simp add: is_utf8_xid_start_char_def search_table_def in_table_def)

theorem xid_start_char_correct_witness:
  "is_utf8_xid_start_char (pack_le (utf8_bytes 0x3a9)) \<longleftrightarrow>
     (\<exists>(b, e) \<in> set xid_start_table. b \<le> 0x3a9 \<and> 0x3a9 \<le> e)"
  by (rule xid_start_char_correct) simp

text \<open>C22. Identifier continuation characters: the same for the XID_Continue table.\<close>

theorem xid_continue_char_correct:
  assumes "v < 0x110000"
  shows "is_utf8_xid_continue_char (pack_le (utf8_bytes v)) \<longleftrightarrow>
    (\<exists>(b, e) \<in> set xid_continue_table. b \<le> v \<and> v \<le> e)"
  using utf8_roundtrip[OF assms] xid_continue.search_iff_in_table[of v]
  by (simp add: is_utf8_xid_continue_char_def search_table_def in_table_def)

theorem xid_continue_char_correct_witness:
  "is_utf8_xid_continue_char (pack_le (utf8_bytes 0x20ac)) \<longleftrightarrow>
     (\<exists>(b, e) \<in> set xid_continue_table. b \<le> 0x20ac \<and> 0x20ac \<le> e)"
  by (rule xid_continue_char_correct) simp

text \<open>C19. Decoding inverts encoding: the decoder with its length, mask and shift tables gives back
  every scalar value from the packed bytes of its UTF-8 encoding.\<close>

theorem utf8_decode_encode:
  assumes "v < 0x110000"
  shows "utf8_char_to_unicode_scalar (pack_le (utf8_bytes v)) = v"
  by (rule utf8_roundtrip[OF assms])

theorem utf8_decode_encode_witness:
  "utf8_char_to_unicode_scalar (pack_le (utf8_bytes 0x1f600)) = 0x1f600"
  by (rule utf8_decode_encode) simp

end
