(* ===== verification/Flags.thy ===== *)
theory Flags
  imports Cero_Prelude
begin

text \<open>
  \<open>src/cero/util/flags.hh\<close>: the operators on flag enumerations, for an underlying type of any
  width, and \<open>src/cero/util/push_state.hh\<close>: a value that is restored at the end of a scope.
\<close>

section \<open>Flags\<close>

definition flags_and :: "'a::len word \<Rightarrow> 'a word \<Rightarrow> 'a word" where
  "flags_and a b = a AND b"

definition flags_or :: "'a::len word \<Rightarrow> 'a word \<Rightarrow> 'a word" where
  "flags_or a b = a OR b"

definition flags_xor :: "'a::len word \<Rightarrow> 'a word \<Rightarrow> 'a word" where
  "flags_xor a b = a XOR b"

definition flags_not :: "'a::len word \<Rightarrow> 'a word" where
  "flags_not t = NOT t"

text \<open>The assignments return the new value of their left operand.\<close>

definition flags_and_assign :: "'a::len word \<Rightarrow> 'a word \<Rightarrow> 'a word" where
  "flags_and_assign a b = flags_and a b"

definition flags_or_assign :: "'a::len word \<Rightarrow> 'a word \<Rightarrow> 'a word" where
  "flags_or_assign a b = flags_or a b"

definition flags_xor_assign :: "'a::len word \<Rightarrow> 'a word \<Rightarrow> 'a word" where
  "flags_xor_assign a b = flags_xor a b"

definition has_flags :: "'a::len word \<Rightarrow> 'a word \<Rightarrow> bool" where
  "has_flags flag_mask flags \<longleftrightarrow> flag_mask AND flags = flags"

lemma has_flags_bits: "has_flags m f \<longleftrightarrow> (\<forall>n. bit f n \<longrightarrow> bit m n)"
  by (auto simp: has_flags_def bit_eq_iff bit_and_iff dest: bit_imp_le_length)

text \<open>\<open>has_flags\<close> holds exactly when every bit of the flags is set in the mask; setting flags makes it hold, and it
  holds after setting others; clearing a flag makes it fail unless there is nothing to clear.\<close>
lemma has_flags_correct:
  "(has_flags m f \<longleftrightarrow> (\<forall>n. bit f n \<longrightarrow> bit m n)) \<and>
   has_flags (flags_or_assign m f) f \<and>
   (has_flags m f \<longrightarrow> has_flags (flags_or_assign m g) f) \<and>
   (has_flags (flags_and_assign m (flags_not f)) f \<longleftrightarrow> f = 0) \<and>
   (has_flags m f \<longrightarrow> flags_xor_assign m f = flags_and_assign m (flags_not f))"
proof (intro conjI)
  show "has_flags m f \<longleftrightarrow> (\<forall>n. bit f n \<longrightarrow> bit m n)" by (rule has_flags_bits)
  show "has_flags (flags_or_assign m f) f" "has_flags m f \<longrightarrow> has_flags (flags_or_assign m g) f"
    by (auto simp: has_flags_bits flags_or_assign_def flags_or_def bit_or_iff)
  show "has_flags (flags_and_assign m (flags_not f)) f \<longleftrightarrow> f = 0"
    by (auto simp: has_flags_bits flags_and_assign_def flags_and_def flags_not_def bit_and_iff bit_not_iff bit_eq_iff
        dest: bit_imp_le_length)
  show "has_flags m f \<longrightarrow> flags_xor_assign m f = flags_and_assign m (flags_not f)"
    by (auto simp: has_flags_bits flags_xor_assign_def flags_xor_def flags_and_assign_def flags_and_def flags_not_def
        bit_eq_iff bit_and_iff bit_xor_iff bit_not_iff)
qed

section \<open>Scoped values\<close>

record 'a push_state =
  ps_old_value :: 'a

text \<open>The constructor stores the old value and gives the object its new one; the destructor restores it.\<close>

definition push_state_init :: "'a \<Rightarrow> 'a \<Rightarrow> 'a push_state \<times> 'a" where
  "push_state_init object new_value = (\<lparr>ps_old_value = object\<rparr>, new_value)"

definition push_state_destroy :: "'a push_state \<Rightarrow> 'a \<Rightarrow> 'a" where
  "push_state_destroy p object = ps_old_value p"

text \<open>Scopes inside scopes: each sets the object, then its body runs.\<close>

fun run_scopes :: "'a list \<Rightarrow> ('a \<Rightarrow> 'a) \<Rightarrow> 'a \<Rightarrow> 'a" where
  "run_scopes [] body object = body object"
| "run_scopes (v # vs) body object =
     (let (p, object1) = push_state_init object v
      in push_state_destroy p (run_scopes vs body object1))"

lemma scopes_restore: "vs \<noteq> [] \<Longrightarrow> run_scopes vs body object = object"
  by (cases vs) (simp_all add: push_state_init_def push_state_destroy_def)

end
