(* ===== verification/Lexer.thy ===== *)
theory Lexer
  imports Source_Cursor Tokens Keywords Unicode Flags
begin

text \<open>
  The lexer, \<open>src/cero/syntax/lexer.cc\<close>: its state and every member function of \<open>struct Lexer\<close>,
  each as a function on the state. Loops are recursive functions, whose termination is proved from
  the characters that are left.

  The state has one field the program does not have: \<open>lx_fault\<close> is set where the program would
  have stopped with an exception or a failed debug assertion.
\<close>

type_synonym lexer_flags = u32

definition flags_none :: lexer_flags where
  "flags_none = 0"

definition flags_emit_comments :: lexer_flags where
  "flags_emit_comments = push_bit 0 1"

record lexer =
  lx_tokens :: token_list
  lx_cursor :: source_cursor
  lx_source :: source_view
  lx_source_text :: string
  lx_reporter :: "report_call list"
  lx_flags :: lexer_flags
  lx_tab_size :: u8
  lx_fault :: bool

definition lexer_init :: "source_view \<Rightarrow> report_call list \<Rightarrow> lexer_flags \<Rightarrow> u8 \<Rightarrow> lexer" where
  "lexer_init v reporter flags tab_size =
     \<lparr>lx_tokens = [], lx_cursor = sc_init v, lx_source = v, lx_source_text = get_text v,
      lx_reporter = reporter, lx_flags = flags, lx_tab_size = tab_size, lx_fault = False\<rparr>"

section \<open>Cursor and token operations on the state\<close>

abbreviation lx_rest :: "lexer \<Rightarrow> string" where
  "lx_rest s \<equiv> sc_it (lx_cursor s)"

definition lx_peek :: "lexer \<Rightarrow> char" where
  "lx_peek s = sc_peek (lx_cursor s)"

definition lx_next :: "lexer \<Rightarrow> char \<times> lexer" where
  "lx_next s = (let (c, cursor) = sc_next (lx_cursor s) in (c, s\<lparr>lx_cursor := cursor\<rparr>))"

definition lx_advance :: "lexer \<Rightarrow> lexer" where
  "lx_advance s =
     (let (asserted, cursor) = sc_advance (lx_cursor s)
      in s\<lparr>lx_cursor := cursor, lx_fault := lx_fault s \<or> \<not> asserted\<rparr>)"

definition lx_match :: "char \<Rightarrow> lexer \<Rightarrow> bool \<times> lexer" where
  "lx_match expected s = (let (m, cursor) = sc_match expected (lx_cursor s) in (m, s\<lparr>lx_cursor := cursor\<rparr>))"

definition lx_valid :: "lexer \<Rightarrow> bool" where
  "lx_valid s = sc_valid (lx_cursor s)"

definition lx_offset :: "lexer \<Rightarrow> source_size" where
  "lx_offset s = sc_offset (lx_cursor s)"

definition lx_put :: "token \<Rightarrow> lexer \<Rightarrow> lexer" where
  "lx_put t s = s\<lparr>lx_tokens := token_list_put (lx_tokens s) t\<rparr>"

definition get_offset_and_advance :: "lexer \<Rightarrow> source_size \<times> lexer" where
  "get_offset_and_advance s = (let offset = lx_offset s in (offset, lx_advance s))"

definition lexer_report :: "message \<Rightarrow> source_size \<Rightarrow> message_args \<Rightarrow> lexer \<Rightarrow> lexer" where
  "lexer_report m offset args s =
     (case locate (lx_source s) offset (lx_tab_size s) of
        None \<Rightarrow> s\<lparr>lx_fault := True\<rparr>
      | Some location \<Rightarrow>
          s\<lparr>lx_reporter := lx_reporter s @ [\<lparr>rep_location = location, rep_message = m, rep_args = args\<rparr>]\<rparr>)"

lemma lx_peek_simps [simp]:
  "lx_rest s = [] \<Longrightarrow> lx_peek s = nul"
  "lx_rest s = c # r \<Longrightarrow> lx_peek s = c"
  by (simp_all add: lx_peek_def sc_peek_def)

lemma lx_peek_not_nul:
  assumes "lx_peek s \<noteq> nul"
  obtains r where "lx_rest s = lx_peek s # r"
  using assms by (cases "lx_rest s") auto

lemma lx_rest_advance [simp]: "lx_rest (lx_advance s) = tl (lx_rest s)"
  by (cases "lx_rest s") (simp_all add: lx_advance_def sc_advance_def)

lemma lx_rest_report [simp]: "lx_rest (lexer_report m off args s) = lx_rest s"
  by (simp add: lexer_report_def split: option.splits)

lemma lx_rest_next: "lx_next s = (c, s') \<Longrightarrow> lx_rest s' = tl (lx_rest s)"
  by (cases "lx_rest s") (auto simp: lx_next_def sc_next_def)

lemma lx_rest_match: "lx_match x s = (b, s') \<Longrightarrow> lx_rest s' = (if b then tl (lx_rest s) else lx_rest s)"
  by (cases "lx_rest s") (auto simp: lx_match_def sc_match_def split: if_splits)

lemma lx_match_length:
  "(b, s') = lx_match x s \<Longrightarrow> length (lx_rest s') = length (lx_rest s) - (if b then 1 else 0)"
  using lx_rest_match[of x s b s'] by auto

lemma lx_valid_length: "lx_valid s \<longleftrightarrow> 0 < length (lx_rest s)"
  by (simp add: lx_valid_def sc_valid_def)

lemma lx_match_True_rest: "lx_match x s = (True, s') \<Longrightarrow> lx_rest s \<noteq> []"
  by (cases "lx_rest s") (auto simp: lx_match_def sc_match_def)

section \<open>Words\<close>

text \<open>The loop of \<open>consume_multibyte_utf8_char\<close>: \<open>n\<close> more bytes, the next one at index \<open>i\<close>.\<close>

fun collect_utf8_bytes :: "nat \<Rightarrow> nat \<Rightarrow> u32 \<Rightarrow> lexer \<Rightarrow> u32 \<times> lexer" where
  "collect_utf8_bytes 0 i utf8_char s = (utf8_char, s)"
| "collect_utf8_bytes (Suc n) i utf8_char s =
     (let (c, s') = lx_next s
      in collect_utf8_bytes n (i + 1) (utf8_char OR push_bit (i * 8) (of_char c)) s')"

definition consume_multibyte_utf8_char ::
    "char \<Rightarrow> source_size \<Rightarrow> (u32 \<Rightarrow> bool) \<Rightarrow> lexer \<Rightarrow> bool \<times> lexer" where
  "consume_multibyte_utf8_char begin_char offset utf8_predicate s =
     (let leading_byte = (of_char begin_char :: u8);
          leading_ones = countl_one leading_byte;
          utf8_char = (ucast leading_byte :: u32)
      in if 2 \<le> leading_ones \<and> leading_ones \<le> 4 then
           (let (utf8_char, s) = collect_utf8_bytes (leading_ones - 1) 1 utf8_char s
            in if utf8_predicate utf8_char then (True, s)
               else (False, lexer_report invalid_character offset [Arg_int (unat utf8_char)] s))
         else (False, lexer_report invalid_character offset [Arg_int (unat utf8_char)] s))"

lemma lx_rest_collect:
  "collect_utf8_bytes n i u s = (u', s') \<Longrightarrow> length (lx_rest s') \<le> length (lx_rest s)"
proof (induction n arbitrary: i u s)
  case (Suc n)
  obtain c s1 where next1: "lx_next s = (c, s1)" by fastforce
  with Suc.prems have "length (lx_rest s') \<le> length (lx_rest s1)" by (auto intro: Suc.IH)
  with lx_rest_next[OF next1] show ?case by simp
qed simp

lemma lx_rest_multibyte:
  "consume_multibyte_utf8_char c off p s = (b, s') \<Longrightarrow> length (lx_rest s') \<le> length (lx_rest s)"
  by (auto simp: consume_multibyte_utf8_char_def Let_def dest: lx_rest_collect split: if_splits prod.splits)

function consume_word :: "lexer \<Rightarrow> lexer" where
  "consume_word s =
     (let c = lx_peek s in
      if c = nul then s
      else if is_ascii_identifier_char c then consume_word (lx_advance s)
      else if is_ascii c then s
      else
        (let (offset, s1) = get_offset_and_advance s;
             (ok, s2) = consume_multibyte_utf8_char c offset is_utf8_xid_continue_char s1
         in if \<not> ok then s2 else consume_word s2))"
  by pat_completeness auto
termination
proof (relation "measure (\<lambda>s. length (lx_rest s))", goal_cases)
  case (2 s c)
  then have "lx_rest s \<noteq> []" by (auto elim: lx_peek_not_nul)
  then show ?case by simp
next
  case (3 s c x off s1 y ok s2)
  then obtain r where "lx_rest s = c # r" by (auto elim: lx_peek_not_nul)
  moreover have "s1 = lx_advance s" using 3 by (auto simp: get_offset_and_advance_def)
  moreover have "length (lx_rest s2) \<le> length (lx_rest s1)"
    using 3 lx_rest_multibyte by metis
  ultimately show ?case by simp
qed simp

declare consume_word.simps [simp del]

definition on_alphabetic :: "lexer \<Rightarrow> lexer" where
  "on_alphabetic s =
     (let (offset, s) = get_offset_and_advance s;
          s = consume_word s;
          len = lx_offset s - offset
      in lx_put (mk_token TK_identifier offset len) s)"

definition on_alphabetic_maybe_keyword :: "keyword_tail list \<Rightarrow> lexer \<Rightarrow> lexer" where
  "on_alphabetic_maybe_keyword keyword_tails s =
     (let (offset, s) = get_offset_and_advance s;
          s = consume_word s;
          len = lx_offset s - offset
      in if len \<le> 8 + 1 then
           (case substr (lx_source_text s) (unat (offset + 1)) (unat (len - 1)) of
              None \<Rightarrow> s\<lparr>lx_fault := True\<rparr>
            | Some tail \<Rightarrow>
                (case match_tails (copy_into_u64 tail) keyword_tails of
                   Some kind \<Rightarrow> lx_put (mk_token kind offset 0) s
                 | None \<Rightarrow> lx_put (mk_token TK_identifier offset len) s))
         else lx_put (mk_token TK_identifier offset len) s)"

text \<open>A table of tails that did not compile would be a fault.\<close>

definition keyword_handler :: "char \<Rightarrow> lexer \<Rightarrow> lexer" where
  "keyword_handler first s =
     (case get_keyword_tails first of
        None \<Rightarrow> s\<lparr>lx_fault := True\<rparr>
      | Some keyword_tails \<Rightarrow>
          if keyword_tails = [] then on_alphabetic s
          else on_alphabetic_maybe_keyword keyword_tails s)"

section \<open>Numeric literals\<close>

text \<open>The inner \<open>do\<close> loop of \<open>consume_digit_sequence\<close>.\<close>

function skip_whitespace :: "lexer \<Rightarrow> lexer" where
  "skip_whitespace s =
     (let s1 = lx_advance s
      in if is_ascii_whitespace (lx_peek s1) then skip_whitespace s1 else s1)"
  by pat_completeness auto
termination
proof (relation "measure (\<lambda>s. length (lx_rest s))", goal_cases)
  case (2 s s1)
  then have "lx_rest s1 \<noteq> []" by (auto simp: is_ascii_whitespace_def)
  with 2 show ?case by (cases "lx_rest s") auto
qed simp

declare skip_whitespace.simps [simp del]

lemma lx_rest_skip_whitespace: "length (lx_rest (skip_whitespace s)) \<le> length (lx_rest s) - 1"
proof (induction s rule: skip_whitespace.induct)
  case (1 s)
  show ?case
  proof (cases "is_ascii_whitespace (lx_peek (lx_advance s))")
    case True
    then have "skip_whitespace s = skip_whitespace (lx_advance s)"
      by (subst skip_whitespace.simps) (simp add: Let_def)
    with 1 True show ?thesis by (auto intro: le_trans)
  next
    case False
    then have "skip_whitespace s = lx_advance s"
      by (subst skip_whitespace.simps) (simp add: Let_def)
    then show ?thesis by simp
  qed
qed

function consume_digit_sequence :: "(char \<Rightarrow> bool) \<Rightarrow> source_size \<Rightarrow> lexer \<Rightarrow> source_size \<times> lexer" where
  "consume_digit_sequence digit_predicate offset s =
     (let c = lx_peek s in
      if c = nul then (lx_offset s - offset, s)
      else if digit_predicate c then consume_digit_sequence digit_predicate offset (lx_advance s)
      else if \<not> is_ascii_whitespace c then (lx_offset s - offset, s)
      else
        (let len = lx_offset s - offset;
             s1 = skip_whitespace s;
             c1 = lx_peek s1
         in if digit_predicate c1
            then consume_digit_sequence digit_predicate offset (lx_advance s1)
            else (len, s1)))"
  by pat_completeness auto
termination
proof (relation "measure (\<lambda>(p, off, s). length (lx_rest s))", goal_cases)
  case (2 p off s c)
  then have "lx_rest s \<noteq> []" by (auto elim: lx_peek_not_nul)
  then show ?case by simp
next
  case (3 p off s c len s1 c1)
  then have "lx_rest s \<noteq> []" by (auto elim: lx_peek_not_nul)
  with 3 show ?case using lx_rest_skip_whitespace[of s] by (cases "lx_rest s") auto
qed simp

declare consume_digit_sequence.simps [simp del]

definition handle_decimal_literal :: "source_size \<Rightarrow> lexer \<Rightarrow> lexer" where
  "handle_decimal_literal offset s =
     (let (len, s) = consume_digit_sequence is_decimal_digit offset s
      in if lx_peek s = CHR ''.'' then
           (let (dot_offset, s) = get_offset_and_advance s;
                (length_after_dot, s) = consume_digit_sequence is_decimal_digit dot_offset s
            in if length_after_dot > 1
               then lx_put (mk_token TK_float_literal offset (dot_offset - offset + length_after_dot)) s
               else lx_put (mk_token TK_dot dot_offset 0) (lx_put (mk_token TK_dec_int_literal offset len) s))
         else lx_put (mk_token TK_dec_int_literal offset len) s)"

definition on_zero :: "lexer \<Rightarrow> lexer" where
  "on_zero s =
     (let (offset, s) = get_offset_and_advance s;
          (m, s) = lx_match (CHR ''x'') s
      in if m then
           (let (len, s) = consume_digit_sequence is_hexadecimal_digit offset s
            in lx_put (mk_token TK_hex_int_literal offset len) s)
         else let (m, s) = lx_match (CHR ''b'') s in
         if m then
           (let (len, s) = consume_digit_sequence is_decimal_digit offset s
            in lx_put (mk_token TK_bin_int_literal offset len) s)
         else let (m, s) = lx_match (CHR ''o'') s in
         if m then
           (let (len, s) = consume_digit_sequence is_decimal_digit offset s
            in lx_put (mk_token TK_oct_int_literal offset len) s)
         else handle_decimal_literal offset s)"

definition on_nonzero :: "lexer \<Rightarrow> lexer" where
  "on_nonzero s = (let (offset, s) = get_offset_and_advance s in handle_decimal_literal offset s)"

definition on_dot :: "lexer \<Rightarrow> lexer" where
  "on_dot s =
     (let (offset, s) = get_offset_and_advance s;
          (len, s) = consume_digit_sequence is_decimal_digit offset s
      in if len > 1 then lx_put (mk_token TK_float_literal offset len) s
         else lx_put (mk_token TK_dot offset 0) s)"

section \<open>Operators and comments\<close>

definition on_one_char_token :: "token_kind \<Rightarrow> lexer \<Rightarrow> lexer" where
  "on_one_char_token kind s =
     (let (offset, s) = get_offset_and_advance s in lx_put (mk_token kind offset 0) s)"

definition on_left_angle :: "lexer \<Rightarrow> lexer" where
  "on_left_angle s =
     (let (offset, s) = get_offset_and_advance s;
          (m, s) = lx_match (CHR ''<'') s
      in if m then
           (let (m, s) = lx_match (CHR ''='') s
            in if m then lx_put (mk_token TK_l_angle_angle_eq offset 0) s
               else lx_put (mk_token TK_l_angle_angle offset 0) s)
         else let (m, s) = lx_match (CHR ''='') s in
         if m then lx_put (mk_token TK_l_angle_eq offset 0) s
         else lx_put (mk_token TK_l_angle offset 0) s)"

definition on_right_angle :: "lexer \<Rightarrow> lexer" where
  "on_right_angle s =
     (let (offset, s) = get_offset_and_advance s;
          (m, s) = lx_match (CHR ''>'') s
      in if m then
           (let (m, s) = lx_match (CHR ''='') s
            in if m then lx_put (mk_token TK_r_angle_angle_eq offset 0) s
               else lx_put (mk_token TK_r_angle (offset + 1) 0) (lx_put (mk_token TK_r_angle offset 0) s))
         else let (m, s) = lx_match (CHR ''='') s in
         if m then lx_put (mk_token TK_r_angle_eq offset 0) s
         else lx_put (mk_token TK_r_angle offset 0) s)"

definition on_colon :: "lexer \<Rightarrow> lexer" where
  "on_colon s =
     (let (offset, s) = get_offset_and_advance s;
          (m, s) = lx_match (CHR '':'') s
      in if m then lx_put (mk_token TK_colon_colon offset 0) s
         else lx_put (mk_token TK_colon offset 0) s)"

definition on_equals :: "lexer \<Rightarrow> lexer" where
  "on_equals s =
     (let (offset, s) = get_offset_and_advance s;
          (m, s) = lx_match (CHR ''='') s
      in if m then lx_put (mk_token TK_eq_eq offset 0) s
         else let (m, s) = lx_match (CHR ''>'') s in
         if m then lx_put (mk_token TK_thick_arrow offset 0) s
         else lx_put (mk_token TK_eq offset 0) s)"

definition on_plus :: "lexer \<Rightarrow> lexer" where
  "on_plus s =
     (let (offset, s) = get_offset_and_advance s;
          (m, s) = lx_match (CHR ''+'') s
      in if m then lx_put (mk_token TK_plus_plus offset 0) s
         else let (m, s) = lx_match (CHR ''='') s in
         if m then lx_put (mk_token TK_plus_eq offset 0) s
         else lx_put (mk_token TK_plus offset 0) s)"

definition on_minus :: "lexer \<Rightarrow> lexer" where
  "on_minus s =
     (let (offset, s) = get_offset_and_advance s;
          (m, s) = lx_match (CHR ''>'') s
      in if m then lx_put (mk_token TK_thin_arrow offset 0) s
         else let (m, s) = lx_match (CHR ''-'') s in
         if m then lx_put (mk_token TK_minus_minus offset 0) s
         else let (m, s) = lx_match (CHR ''='') s in
         if m then lx_put (mk_token TK_minus_eq offset 0) s
         else lx_put (mk_token TK_minus offset 0) s)"

definition on_star :: "lexer \<Rightarrow> lexer" where
  "on_star s =
     (let (offset, s) = get_offset_and_advance s;
          (m, s) = lx_match (CHR ''='') s
      in if m then lx_put (mk_token TK_star_eq offset 0) s
         else lx_put (mk_token TK_star offset 0) s)"

function consume_line_comment :: "lexer \<Rightarrow> lexer" where
  "consume_line_comment s =
     (let c = lx_peek s in
      if c = nul then s
      else if c = newline_char then s
      else consume_line_comment (lx_advance s))"
  by pat_completeness auto
termination
proof (relation "measure (\<lambda>s. length (lx_rest s))", goal_cases)
  case (2 s c)
  then have "lx_rest s \<noteq> []" by (auto elim: lx_peek_not_nul)
  then show ?case by simp
qed simp

declare consume_line_comment.simps [simp del]

function consume_block_comment :: "source_size \<Rightarrow> u32 \<Rightarrow> lexer \<Rightarrow> lexer" where
  "consume_block_comment offset unclosed_count s =
     (if \<not> lx_valid s then lexer_report unterminated_block_comment offset [] s
      else
        (let (star, s1) = lx_match (CHR ''*'') s in
         if star then
           (let (slash, s2) = lx_match (CHR ''/'') s1 in
            if slash then
              (if unclosed_count - 1 = 0 then s2
               else consume_block_comment offset (unclosed_count - 1) s2)
            else consume_block_comment offset unclosed_count s2)
         else
           (let (slash, s2) = lx_match (CHR ''/'') s1 in
            if slash then
              (let (star, s3) = lx_match (CHR ''*'') s2 in
               if star then consume_block_comment offset (unclosed_count + 1) s3
               else consume_block_comment offset unclosed_count s3)
            else consume_block_comment offset unclosed_count (lx_advance s2))))"
  by pat_completeness auto
termination
  by (relation "measure (\<lambda>(off, n, s). length (lx_rest s))")
    (simp_all add: lx_valid_length, (fastforce dest!: lx_match_length)+)

declare consume_block_comment.simps [simp del]

definition on_slash :: "lexer \<Rightarrow> lexer" where
  "on_slash s =
     (let (offset, s) = get_offset_and_advance s;
          (m, s) = lx_match (CHR ''/'') s
      in if m then
           (let s = consume_line_comment s
            in if has_flags (lx_flags s) flags_emit_comments
               then lx_put (mk_token TK_line_comment offset (lx_offset s - offset)) s
               else s)
         else let (m, s) = lx_match (CHR ''*'') s in
         if m then
           (let s = consume_block_comment offset 1 s
            in if has_flags (lx_flags s) flags_emit_comments
               then lx_put (mk_token TK_block_comment offset (lx_offset s - offset)) s
               else s)
         else let (m, s) = lx_match (CHR ''='') s in
         if m then lx_put (mk_token TK_slash_eq offset 0) s
         else lx_put (mk_token TK_slash offset 0) s)"

definition on_percent :: "lexer \<Rightarrow> lexer" where
  "on_percent s =
     (let (offset, s) = get_offset_and_advance s;
          (m, s) = lx_match (CHR ''='') s
      in if m then lx_put (mk_token TK_percent_eq offset 0) s
         else lx_put (mk_token TK_percent offset 0) s)"

definition on_ampersand :: "lexer \<Rightarrow> lexer" where
  "on_ampersand s =
     (let (offset, s) = get_offset_and_advance s;
          (m, s) = lx_match (CHR ''&'') s
      in if m then
           (let (m, s) = lx_match (CHR ''='') s
            in if m then lx_put (mk_token TK_and_and_eq offset 0) s
               else lx_put (mk_token TK_and_and offset 0) s)
         else let (m, s) = lx_match (CHR ''='') s in
         if m then lx_put (mk_token TK_ampersand_eq offset 0) s
         else lx_put (mk_token TK_ampersand offset 0) s)"

definition on_pipe :: "lexer \<Rightarrow> lexer" where
  "on_pipe s =
     (let (offset, s) = get_offset_and_advance s;
          (m, s) = lx_match (CHR ''|'') s
      in if m then
           (let (m, s) = lx_match (CHR ''='') s
            in if m then lx_put (mk_token TK_pipe_pipe_eq offset 0) s
               else lx_put (mk_token TK_pipe_pipe offset 0) s)
         else let (m, s) = lx_match (CHR ''='') s in
         if m then lx_put (mk_token TK_pipe_eq offset 0) s
         else lx_put (mk_token TK_pipe offset 0) s)"

definition on_tilde :: "lexer \<Rightarrow> lexer" where
  "on_tilde s =
     (let (offset, s) = get_offset_and_advance s;
          (m, s) = lx_match (CHR ''='') s
      in if m then lx_put (mk_token TK_tilde_eq offset 0) s
         else lx_put (mk_token TK_tilde offset 0) s)"

definition on_bang :: "lexer \<Rightarrow> lexer" where
  "on_bang s =
     (let (offset, s) = get_offset_and_advance s;
          (m, s) = lx_match (CHR ''='') s
      in if m then lx_put (mk_token TK_bang_eq offset 0) s
         else lx_put (mk_token TK_bang offset 0) s)"

section \<open>Quoted literals and other characters\<close>

text \<open>The loop of \<open>on_quote\<close>.\<close>

function consume_quoted :: "char \<Rightarrow> bool \<Rightarrow> lexer \<Rightarrow> lexer" where
  "consume_quoted quote ignore_quote s =
     (let c = lx_peek s in
      if c = nul then s
      else if c = newline_char then lexer_report missing_closing_quote (lx_offset s) [] s
      else
        (let s1 = lx_advance s in
         if c = backslash_char then consume_quoted quote (\<not> ignore_quote) s1
         else if c = quote \<and> \<not> ignore_quote then s1
         else if ignore_quote then consume_quoted quote False s1
         else consume_quoted quote ignore_quote s1))"
  by pat_completeness auto
termination
proof (relation "measure (\<lambda>(q, i, s). length (lx_rest s))", goal_cases)
  case 1
  show ?case by simp
next
  case (2 q i s c s1)
  then have "lx_rest s \<noteq> []" by (auto elim: lx_peek_not_nul)
  with 2 show ?case by simp
next
  case (3 q i s c s1)
  then have "lx_rest s \<noteq> []" by (auto elim: lx_peek_not_nul)
  with 3 show ?case by simp
next
  case (4 q i s c s1)
  then have "lx_rest s \<noteq> []" by (auto elim: lx_peek_not_nul)
  with 4 show ?case by simp
qed

declare consume_quoted.simps [simp del]

definition on_quote :: "token_kind \<Rightarrow> char \<Rightarrow> lexer \<Rightarrow> lexer" where
  "on_quote kind quote s =
     (let (offset, s) = get_offset_and_advance s;
          s = consume_quoted quote False s;
          len = lx_offset s - offset
      in lx_put (mk_token kind offset len) s)"

definition on_other_char :: "char \<Rightarrow> lexer \<Rightarrow> lexer" where
  "on_other_char character s =
     (let (offset, s) = get_offset_and_advance s;
          (ok, s) = consume_multibyte_utf8_char character offset is_utf8_xid_start_char s
      in if ok then
           (let s = consume_word s
            in lx_put (mk_token TK_identifier offset (lx_offset s - offset)) s)
         else s)"

section \<open>Dispatch\<close>

definition handle_next_character :: "char \<Rightarrow> lexer \<Rightarrow> lexer" where
  "handle_next_character character s =
     (if character \<in> {CHR '' '', CHR 0x09, CHR 0x0A, CHR 0x0B, CHR 0x0C, CHR 0x0D} then lx_advance s
      else if character \<in> set ''ABCDEFGHIJKLMNOPQRSTUVWXYZ_'' then on_alphabetic s
      else if character \<in> set ''abcdefghijklmnopqrstuvwxyz'' then keyword_handler character s
      else if character = CHR ''0'' then on_zero s
      else if character \<in> set ''123456789'' then on_nonzero s
      else if character = CHR ''('' then on_one_char_token TK_l_paren s
      else if character = CHR '')'' then on_one_char_token TK_r_paren s
      else if character = CHR ''['' then on_one_char_token TK_l_bracket s
      else if character = CHR '']'' then on_one_char_token TK_r_bracket s
      else if character = CHR ''{'' then on_one_char_token TK_l_brace s
      else if character = CHR ''}'' then on_one_char_token TK_r_brace s
      else if character = CHR '','' then on_one_char_token TK_comma s
      else if character = CHR '';'' then on_one_char_token TK_semicolon s
      else if character = CHR ''^'' then on_one_char_token TK_caret s
      else if character = CHR ''<'' then on_left_angle s
      else if character = CHR ''>'' then on_right_angle s
      else if character = CHR ''.'' then on_dot s
      else if character = CHR '':'' then on_colon s
      else if character = CHR ''='' then on_equals s
      else if character = CHR ''+'' then on_plus s
      else if character = CHR ''-'' then on_minus s
      else if character = CHR ''*'' then on_star s
      else if character = CHR ''/'' then on_slash s
      else if character = CHR ''%'' then on_percent s
      else if character = CHR ''&'' then on_ampersand s
      else if character = CHR ''|'' then on_pipe s
      else if character = CHR ''~'' then on_tilde s
      else if character = CHR ''!'' then on_bang s
      else if character = quote_char then on_quote TK_string_literal quote_char s
      else if character = apostrophe_char then on_quote TK_char_literal apostrophe_char s
      else on_other_char character s)"

end
