(* ===== verification/Lexemes.thy ===== *)
theory Lexemes
  imports Tokens Keywords Unicode
begin

text \<open>
  The lexical grammar of the language, as a specification that knows nothing of the lexer: for each
  kind of token, how many characters of a text its lexeme takes when it stands at the start of that
  text. It is read off \<open>src/cero/syntax/token.hh\<close> and the comments and tests of the lexer. A word
  takes all identifier characters, a quoted literal ends with its closing quote, block comments
  nest, numbers may hold white space between their digits.
\<close>

section \<open>Keywords\<close>

lemma keyword_kind_first:
  assumes "c \<notin> set ''abcdefghijklmnopqrstuvwxyz''"
  shows "keyword_kind (c # w) = None"
proof -
  have "list_all (\<lambda>x. hd x \<in> set ''abcdefghijklmnopqrstuvwxyz'') (map fst keyword_table)"
    unfolding keyword_table_def by simp
  with assms show ?thesis
    by (cases "keyword_kind (c # w)") (force simp: keyword_kind_def list_all_iff dest: map_of_SomeD)+
qed

section \<open>Trailing white space\<close>

text \<open>A text without its trailing white space, and that white space.\<close>

definition rstrip :: "string \<Rightarrow> string" where
  "rstrip d = rev (dropWhile is_ascii_whitespace (rev d))"

definition trailing_space :: "string \<Rightarrow> string" where
  "trailing_space d = rev (takeWhile is_ascii_whitespace (rev d))"

lemma rstrip_split: "rstrip d @ trailing_space d = d"
  unfolding rstrip_def trailing_space_def
  by (metis rev_append rev_rev_ident takeWhile_dropWhile_id)

lemma trailing_space_blank: "list_all is_ascii_whitespace (trailing_space d)"
  by (auto simp: trailing_space_def list_all_iff dest: set_takeWhileD)

lemma rstrip_blank: "list_all is_ascii_whitespace d \<Longrightarrow> rstrip d = []"
  by (simp add: rstrip_def list_all_iff)

lemma rstrip_Cons: "\<not> is_ascii_whitespace c \<Longrightarrow> rstrip (c # d) = c # rstrip d"
  by (cases "\<forall>x \<in> set d. is_ascii_whitespace x") (auto simp: rstrip_def dropWhile_append)

lemma rstrip_append_Cons: "\<not> is_ascii_whitespace c \<Longrightarrow> rstrip (a @ c # d) = a @ c # rstrip d"
  by (cases "\<forall>x \<in> set d. is_ascii_whitespace x") (auto simp: rstrip_def dropWhile_append)

lemma rstrip_last: "rstrip d \<noteq> [] \<Longrightarrow> \<not> is_ascii_whitespace (last (rstrip d))"
  unfolding rstrip_def by (metis hd_dropWhile last_rev rev_is_Nil_conv)

lemma set_rstrip: "set (rstrip d) \<subseteq> set d"
  by (auto simp: rstrip_def dest: set_dropWhileD)

section \<open>Words\<close>

text \<open>
  The character at the start of a text takes as many bytes as its leading byte announces. It belongs
  to a class of Unicode characters if it is a complete multibyte character and, packed as the lexer
  packs it, passes the table of the class.
\<close>

definition utf8_char_length :: "string \<Rightarrow> nat" where
  "utf8_char_length xs =
     (let n = countl_one (of_char (hd xs)) in min (length xs) (if n \<in> {2, 3, 4} then n else 1))"

definition in_utf8_class :: "(u32 \<Rightarrow> bool) \<Rightarrow> string \<Rightarrow> bool" where
  "in_utf8_class p xs \<longleftrightarrow>
     (let n = countl_one (of_char (hd xs)) in n \<in> {2, 3, 4} \<and> p (pack_le (map of_char (take n xs))))"

lemma utf8_char_length_pos: "xs \<noteq> [] \<Longrightarrow> 0 < utf8_char_length xs"
  by (auto simp: utf8_char_length_def Let_def)

text \<open>
  How far a word goes on: over identifier characters of ASCII and over characters of the class
  XID_Continue. Any other multibyte character ends the word and is still part of it.
\<close>

function word_length :: "string \<Rightarrow> nat" where
  "word_length xs =
     (if xs = [] then 0
      else if is_ascii_identifier_char (hd xs) then Suc (word_length (tl xs))
      else if is_ascii (hd xs) then 0
      else utf8_char_length xs +
        (if in_utf8_class is_utf8_xid_continue_char xs then word_length (drop (utf8_char_length xs) xs) else 0))"
  by pat_completeness auto
termination
  by (relation "measure length") (simp_all add: utf8_char_length_pos)

declare word_length.simps [simp del]

text \<open>A word starts with a letter or an underscore, or with a character of the class XID_Start.\<close>

definition starts_word :: "string \<Rightarrow> bool" where
  "starts_word xs \<longleftrightarrow> xs \<noteq> [] \<and>
     (if is_ascii (hd xs) then is_ascii_identifier_char (hd xs) \<and> \<not> is_decimal_digit (hd xs)
      else in_utf8_class is_utf8_xid_start_char xs)"

definition word_at :: "string \<Rightarrow> string" where
  "word_at xs = (let n = utf8_char_length xs in take (n + word_length (drop n xs)) xs)"

section \<open>Numbers\<close>

abbreviation digit_or_space :: "(char \<Rightarrow> bool) \<Rightarrow> char \<Rightarrow> bool" where
  "digit_or_space p c \<equiv> p c \<or> is_ascii_whitespace c"

abbreviation digit_run :: "(char \<Rightarrow> bool) \<Rightarrow> string \<Rightarrow> string" where
  "digit_run p xs \<equiv> takeWhile (digit_or_space p) xs"

text \<open>The digits at the start of a text, with the white space between them.\<close>

abbreviation digits_at :: "(char \<Rightarrow> bool) \<Rightarrow> string \<Rightarrow> string" where
  "digits_at p xs \<equiv> rstrip (digit_run p xs)"

definition fraction_at :: "string \<Rightarrow> bool" where
  "fraction_at xs \<longleftrightarrow> prefix ''.'' xs \<and> digits_at is_decimal_digit (tl xs) \<noteq> []"

definition based_number :: "string \<Rightarrow> bool" where
  "based_number xs \<longleftrightarrow> prefix ''0x'' xs \<or> prefix ''0b'' xs \<or> prefix ''0o'' xs"

definition starts_decimal :: "string \<Rightarrow> bool" where
  "starts_decimal xs \<longleftrightarrow> xs \<noteq> [] \<and> is_decimal_digit (hd xs) \<and> \<not> based_number xs"

definition decimal_length :: "token_kind \<Rightarrow> string \<Rightarrow> nat option" where
  "decimal_length k xs =
     (let d = digit_run is_decimal_digit xs; ys = drop (length d) xs in
      if k = TK_dec_int_literal \<and> starts_decimal xs \<and> \<not> fraction_at ys then Some (length (rstrip d))
      else if k = TK_float_literal \<and> (starts_decimal xs \<or> prefix ''.'' xs) \<and> fraction_at ys
        then Some (length d + 1 + length (digits_at is_decimal_digit (tl ys)))
      else None)"

definition based_length :: "string \<Rightarrow> (char \<Rightarrow> bool) \<Rightarrow> string \<Rightarrow> nat option" where
  "based_length pre p xs =
     (if prefix pre xs then Some (length pre + length (digits_at p (drop (length pre) xs))) else None)"

section \<open>Comments and quoted literals\<close>

definition line_length :: "string \<Rightarrow> nat" where
  "line_length xs = length (takeWhile (\<lambda>c. c \<noteq> nul \<and> c \<noteq> newline_char) xs)"

text \<open>How far a block comment goes in which \<open>n\<close> comments are open: to the mark that closes the outermost one.\<close>

function comment_length :: "nat \<Rightarrow> string \<Rightarrow> nat" where
  "comment_length n xs =
     (if xs = [] then 0
      else if prefix ''*/'' xs then 2 + (if n \<le> 1 then 0 else comment_length (n - 1) (drop 2 xs))
      else if prefix ''/*'' xs then 2 + comment_length (n + 1) (drop 2 xs)
      else 1 + comment_length n (tl xs))"
  by pat_completeness auto
termination
  by (relation "measure (\<lambda>(n, xs). length xs)") simp_all

declare comment_length.simps [simp del]

text \<open>
  How far a quoted literal goes behind its opening quote: up to and with the first closing quote
  that is not escaped, but not over a newline or a null character.
\<close>

fun quoted_length :: "char \<Rightarrow> bool \<Rightarrow> string \<Rightarrow> nat" where
  "quoted_length q escaped [] = 0"
| "quoted_length q escaped (c # r) =
     (if c = nul \<or> c = newline_char then 0
      else if c = backslash_char then Suc (quoted_length q (\<not> escaped) r)
      else if c = q \<and> \<not> escaped then 1
      else Suc (quoted_length q False r))"

definition quoted_literal_length :: "char \<Rightarrow> string \<Rightarrow> nat option" where
  "quoted_literal_length q xs = (if prefix [q] xs then Some (Suc (quoted_length q False (tl xs))) else None)"

section \<open>Lexemes of each kind\<close>

text \<open>
  The lexeme of a fixed-length token is given by its kind; a keyword is in addition the whole word
  at its place, and a word is an identifier if it is not a keyword.
\<close>

definition variable_lexeme_length :: "token_kind \<Rightarrow> string \<Rightarrow> nat option" where
  "variable_lexeme_length k xs =
     (if k = TK_identifier then
        (if starts_word xs \<and> keyword_kind (word_at xs) = None then Some (length (word_at xs)) else None)
      else if k = TK_line_comment then
        (if prefix ''//'' xs then Some (2 + line_length (drop 2 xs)) else None)
      else if k = TK_block_comment then
        (if prefix ''/*'' xs then Some (2 + comment_length 1 (drop 2 xs)) else None)
      else if k = TK_hex_int_literal then based_length ''0x'' is_hexadecimal_digit xs
      else if k = TK_bin_int_literal then based_length ''0b'' is_decimal_digit xs
      else if k = TK_oct_int_literal then based_length ''0o'' is_decimal_digit xs
      else if k = TK_char_literal then quoted_literal_length apostrophe_char xs
      else if k = TK_string_literal then quoted_literal_length quote_char xs
      else decimal_length k xs)"

definition lexeme_length :: "token_kind \<Rightarrow> string \<Rightarrow> nat option" where
  "lexeme_length k xs =
     (case fixed_lexeme k of
        Some l \<Rightarrow>
          if prefix l xs \<and> (keyword_kind l \<noteq> None \<longrightarrow> word_at xs = l) then Some (length l) else None
      | None \<Rightarrow> variable_lexeme_length k xs)"

text \<open>Some lexemes, and some texts that only start like one.\<close>

lemma lexeme_length_examples:
  "lexeme_length TK_identifier ''ab1 + b'' = Some 3"
  "lexeme_length TK_identifier ''if + b'' = None"
  "lexeme_length TK_kw_if ''if + b'' = Some 2"
  "lexeme_length TK_kw_if ''iffy'' = None"
  "lexeme_length TK_string_literal (quote_char # ''a'' @ [backslash_char, quote_char] @ ''b'' @ quote_char # '' + c'') = Some 6"
  "lexeme_length TK_block_comment ''/* /* */ */ x'' = Some 11"
  "lexeme_length TK_line_comment (''// a'' @ newline_char # ''b'') = Some 4"
  "lexeme_length TK_dec_int_literal ''12 3 .x'' = Some 4"
  "lexeme_length TK_dec_int_literal ''12 3 .5'' = None"
  "lexeme_length TK_float_literal ''12 3 . 5 x'' = Some 8"
  "lexeme_length TK_hex_int_literal ''0xf f g'' = Some 5"
  by code_simp+

end
