(* ===== verification/Lexer_Tiling.thy ===== *)
theory Lexer_Tiling
  imports Lexer Lexemes
begin

text \<open>
  The specification of lexing, and what one lexer operation may do.

  \<open>tiles\<close> says that a text, starting at a position, is an alternation of gaps and lexemes of the
  lexical grammar, and that a list of tokens describes exactly those lexemes. \<open>scans\<close> says what a lexer operation consumes,
  emits and reports. \<open>handles\<close> combines them: it is the contract that every character handler
  satisfies, and that makes the main loop terminate and the whole token list a tiling.
\<close>

section \<open>Tilings\<close>

text \<open>
  A gap of a strict tiling is white space; otherwise gaps are arbitrary, as they are where
  characters were rejected or comments dropped.
\<close>

definition gap_ok :: "bool \<Rightarrow> string \<Rightarrow> bool" where
  "gap_ok strict g \<longleftrightarrow> (strict \<longrightarrow> list_all is_ascii_whitespace g)"

text \<open>
  A token covers the text \<open>x\<close> at its place, in front of the text \<open>r\<close>: as far as the lexical grammar
  is concerned, \<open>x\<close> is all of the lexeme of its kind that stands there.
\<close>

definition covers :: "token \<Rightarrow> nat \<Rightarrow> string \<Rightarrow> string \<Rightarrow> bool" where
  "covers t pos x r \<longleftrightarrow>
     x \<noteq> [] \<and> lexeme_length (tok_kind t) (x @ r) = Some (length x) \<and> tok_start t = pos \<and>
     unat (variable_length t) = (if fixed_lexeme (tok_kind t) = None then length x else 0)"

text \<open>\<open>tiles strict r pos w ts\<close>: the tokens describe the text \<open>w\<close> at the position \<open>pos\<close>, with \<open>r\<close> behind it.\<close>

inductive tiles :: "bool \<Rightarrow> string \<Rightarrow> nat \<Rightarrow> string \<Rightarrow> token list \<Rightarrow> bool"
  for strict :: bool and r :: string where
  tiles_gap: "gap_ok strict g \<Longrightarrow> tiles strict r pos g []"
| tiles_token: "gap_ok strict g \<Longrightarrow> covers t (pos + length g) x (w @ r) \<Longrightarrow>
    tiles strict r (pos + length g + length x) w ts \<Longrightarrow> tiles strict r pos (g @ x @ w) (t # ts)"

inductive_simps tiles_Nil_iff [simp]: "tiles strict r pos w []"
inductive_cases tiles_ConsE: "tiles strict r pos w (t # ts)"

lemma gap_ok_append [simp]: "gap_ok strict (g @ h) \<longleftrightarrow> gap_ok strict g \<and> gap_ok strict h"
  by (auto simp: gap_ok_def)

lemma gap_ok_Nil [simp]: "gap_ok strict []"
  by (simp add: gap_ok_def)

lemma tiles_single:
  "covers t pos x (g @ r) \<Longrightarrow> gap_ok strict g \<Longrightarrow> tiles strict r pos (x @ g) [t]"
  using tiles_token[of strict "[]" t pos x g r "[]"] by (simp add: tiles_gap)

lemma tiles_gap_append:
  assumes "gap_ok strict h" "tiles strict r (pos + length h) w ts"
  shows "tiles strict r pos (h @ w) ts"
proof (cases ts)
  case Nil
  with assms show ?thesis by simp
next
  case (Cons t us)
  from assms(2)[unfolded Cons] obtain g x v where w: "w = g @ x @ v" "gap_ok strict g"
    "covers t (pos + length h + length g) x (v @ r)"
    "tiles strict r (pos + length h + length g + length x) v us"
    by (rule tiles_ConsE)
  with assms(1) tiles_token[of strict "h @ g" t pos x v r us] Cons show ?thesis
    by (simp add: add.assoc)
qed

lemma tiles_append:
  assumes "tiles strict (v @ r) pos w ts" "tiles strict r (pos + length w) v us"
  shows "tiles strict r pos (w @ v) (ts @ us)"
  using assms
proof (induction pos w ts rule: tiles.induct)
  case (tiles_gap g pos)
  then show ?case by (simp add: tiles_gap_append)
next
  case (tiles_token g t pos x w ts)
  from tiles_token.prems have "tiles strict r (pos + length g + length x + length w) v us"
    by (simp add: add.assoc)
  then have "tiles strict r (pos + length g + length x) (w @ v) (ts @ us)"
    by (rule tiles_token.IH)
  with tiles_token.hyps tiles.tiles_token[of strict g t pos x "w @ v" r "ts @ us"] show ?case
    by simp
qed

lemma tiles_mono:
  assumes "tiles strict r pos w ts" "strict' \<longrightarrow> strict"
  shows "tiles strict' r pos w ts"
  using assms by (induction rule: tiles.induct) (auto simp: gap_ok_def intro: tiles.intros)

section \<open>Positions\<close>

abbreviation lx_text :: "lexer \<Rightarrow> string" where
  "lx_text s \<equiv> sc_begin (lx_cursor s)"

definition lx_pos :: "lexer \<Rightarrow> nat" where
  "lx_pos s = length (lx_text s) - length (lx_rest s)"

text \<open>
  A state as the lexer has it while it works on a source within the size limit: the cursor walks
  the text of the source.
\<close>

definition lx_wf :: "lexer \<Rightarrow> bool" where
  "lx_wf s \<longleftrightarrow>
     lx_text s = get_text (lx_source s) \<and> lx_source_text s = lx_text s \<and>
     length (lx_text s) \<le> unat source_size_max \<and> suffix (lx_rest s) (lx_text s)"

text \<open>Moving the cursor over \<open>n\<close> characters, the effect of all cursor operations.\<close>

definition lx_skip :: "nat \<Rightarrow> lexer \<Rightarrow> lexer" where
  "lx_skip n s = s\<lparr>lx_cursor := (lx_cursor s)\<lparr>sc_it := drop n (lx_rest s)\<rparr>\<rparr>"

lemma lx_skip_sel [simp]:
  "lx_rest (lx_skip n s) = drop n (lx_rest s)"
  "lx_text (lx_skip n s) = lx_text s"
  "lx_tokens (lx_skip n s) = lx_tokens s"
  "lx_source (lx_skip n s) = lx_source s"
  "lx_source_text (lx_skip n s) = lx_source_text s"
  "lx_reporter (lx_skip n s) = lx_reporter s"
  "lx_flags (lx_skip n s) = lx_flags s"
  "lx_tab_size (lx_skip n s) = lx_tab_size s"
  "lx_fault (lx_skip n s) = lx_fault s"
  by (simp_all add: lx_skip_def)

lemma lx_skip_0 [simp]: "lx_skip 0 s = s"
  by (simp add: lx_skip_def)

lemma lx_skip_skip [simp]: "lx_skip m (lx_skip n s) = lx_skip (n + m) s"
  by (simp add: lx_skip_def add.commute)

lemma lx_put_sel [simp]:
  "lx_cursor (lx_put t s) = lx_cursor s"
  "lx_tokens (lx_put t s) = lx_tokens s @ [t]"
  "lx_source (lx_put t s) = lx_source s"
  "lx_source_text (lx_put t s) = lx_source_text s"
  "lx_reporter (lx_put t s) = lx_reporter s"
  "lx_flags (lx_put t s) = lx_flags s"
  "lx_tab_size (lx_put t s) = lx_tab_size s"
  "lx_fault (lx_put t s) = lx_fault s"
  by (simp_all add: lx_put_def token_list_put_def)

lemma lx_advance_skip: "lx_rest s \<noteq> [] \<Longrightarrow> lx_advance s = lx_skip 1 s"
  by (cases "lx_rest s") (simp_all add: lx_advance_def sc_advance_def lx_skip_def)

lemma lx_match_skip:
  "lx_match x s = (if take 1 (lx_rest s) = [x] then (True, lx_skip 1 s) else (False, s))"
  by (cases "lx_rest s") (simp_all add: lx_match_def sc_match_def lx_skip_def)

lemma lx_next_skip:
  "lx_next s = (case lx_rest s of [] \<Rightarrow> nul | c # _ \<Rightarrow> c, lx_skip 1 s)"
  by (cases "lx_rest s") (simp_all add: lx_next_def sc_next_def lx_skip_def)

lemma get_offset_and_advance_skip:
  "lx_rest s \<noteq> [] \<Longrightarrow> get_offset_and_advance s = (lx_offset s, lx_skip 1 s)"
  by (simp add: get_offset_and_advance_def lx_advance_skip)

lemma lx_offset_pos: "lx_offset s = word_of_nat (lx_pos s)"
  by (simp add: lx_offset_def sc_offset_def lx_pos_def)

lemmas lx_moves = lx_advance_skip lx_match_skip get_offset_and_advance_skip

lemma lx_wf_split:
  assumes "lx_wf s"
  obtains pre where "lx_text s = pre @ lx_rest s" "length pre = lx_pos s"
proof -
  from assms obtain pre where "lx_text s = pre @ lx_rest s"
    unfolding lx_wf_def suffix_def by blast
  with that[of pre] show thesis by (simp add: lx_pos_def)
qed

lemma lx_pos_skip:
  "lx_wf s \<Longrightarrow> n \<le> length (lx_rest s) \<Longrightarrow> lx_pos (lx_skip n s) = lx_pos s + n"
  by (erule lx_wf_split) (simp add: lx_pos_def)

lemma lx_wf_pos_le: "lx_wf s \<Longrightarrow> lx_pos s + length (lx_rest s) = length (lx_text s)"
  by (erule lx_wf_split) simp

lemma lx_wf_bound: "lx_wf s \<Longrightarrow> lx_pos s + length (lx_rest s) < 2 ^ 24"
proof -
  assume wf: "lx_wf s"
  then have "length (lx_text s) < 2 ^ 24"
    by (intro source_size_max_less) (auto simp: lx_wf_def)
  with wf show ?thesis by (simp only: lx_wf_pos_le)
qed

lemma lx_wf_drop_text: "lx_wf s \<Longrightarrow> drop (lx_pos s) (lx_text s) = lx_rest s"
  by (erule lx_wf_split) simp

section \<open>What an operation does\<close>

text \<open>
  \<open>scans w ts rs s s'\<close>: going from \<open>s\<close> to \<open>s'\<close> consumes the characters \<open>w\<close>, emits the tokens \<open>ts\<close>,
  makes the reports \<open>rs\<close>, all with the right number of arguments, and, in a well-formed state,
  raises no fault.
\<close>

definition scans :: "string \<Rightarrow> token list \<Rightarrow> report_call list \<Rightarrow> lexer \<Rightarrow> lexer \<Rightarrow> bool" where
  "scans w ts rs s s' \<longleftrightarrow>
     lx_rest s = w @ lx_rest s' \<and> lx_tokens s' = lx_tokens s @ ts \<and>
     lx_reporter s' = lx_reporter s @ rs \<and> list_all report_valid rs \<and>
     lx_text s' = lx_text s \<and> lx_source s' = lx_source s \<and> lx_source_text s' = lx_source_text s \<and>
     lx_flags s' = lx_flags s \<and> lx_tab_size s' = lx_tab_size s \<and>
     (lx_wf s \<longrightarrow> lx_fault s' = lx_fault s)"

lemma scans_refl [simp, intro]: "scans [] [] [] s s"
  by (simp add: scans_def)

lemma scans_wf: "scans w ts rs s s' \<Longrightarrow> lx_wf s \<Longrightarrow> lx_wf s'"
  by (auto simp: scans_def lx_wf_def dest: suffix_appendD)

lemma scans_trans:
  assumes "scans w ts rs s s'" "scans w' ts' rs' s' s''"
  shows "scans (w @ w') (ts @ ts') (rs @ rs') s s''"
  using assms scans_wf[OF assms(1)] by (simp add: scans_def)

lemma scans_pos:
  assumes "scans w ts rs s s'" "lx_wf s"
  shows "lx_pos s' = lx_pos s + length w"
  using assms by (elim lx_wf_split) (simp add: scans_def lx_pos_def)

lemma scans_skip: "n \<le> length (lx_rest s) \<Longrightarrow> scans (take n (lx_rest s)) [] [] s (lx_skip n s)"
  by (simp add: scans_def)

text \<open>Moving on by a number of characters that the text may not have.\<close>

lemma scans_take: "scans (take n (lx_rest s)) [] [] s (lx_skip n s)"
  by (simp add: scans_def)

lemma scans_put: "scans w ts rs s s' \<Longrightarrow> scans w (ts @ [t]) rs s (lx_put t s')"
  by (simp add: scans_def)

lemma scans_report:
  assumes "valid_for_message args m"
  shows "\<exists>rs. scans [] [] rs s (lexer_report m off args s) \<and> (lx_wf s \<longrightarrow> rs \<noteq> [])"
proof (cases "locate (lx_source s) off (lx_tab_size s)")
  case None
  then show ?thesis by (simp add: locate_result)
next
  case (Some l)
  with assms show ?thesis
    by (intro exI[of _ "[\<lparr>rep_location = l, rep_message = m, rep_args = args\<rparr>]"])
      (simp add: lexer_report_def scans_def report_valid_def)
qed

text \<open>The contract of a character handler.\<close>

definition emits_comments :: "lexer \<Rightarrow> bool" where
  "emits_comments s \<longleftrightarrow> has_flags (lx_flags s) flags_emit_comments"

definition handles :: "lexer \<Rightarrow> lexer \<Rightarrow> bool" where
  "handles s s' \<longleftrightarrow>
     (\<exists>w ts rs. scans w ts rs s s' \<and> w \<noteq> [] \<and>
        (lx_wf s \<longrightarrow> tiles (emits_comments s \<and> rs = []) (lx_rest s') (lx_pos s) w ts))"

lemma handlesI:
  assumes "scans w ts rs s s'" "w \<noteq> []"
    and "lx_wf s \<Longrightarrow> tiles (emits_comments s \<and> rs = []) (lx_rest s') (lx_pos s) w ts"
  shows "handles s s'"
  using assms unfolding handles_def by blast

lemma handles_progress: "handles s s' \<Longrightarrow> length (lx_rest s') < length (lx_rest s)"
  by (auto simp: handles_def scans_def)

lemma covers_fixed:
  assumes "fixed_lexeme k = Some l" "l \<noteq> []" "keyword_kind l = None \<or> word_at (l @ r) = l" "pos < 2 ^ 24"
  shows "covers (mk_token k (word_of_nat pos) 0) pos l r"
  using assms by (auto simp: covers_def lexeme_length_def tok_start_mk_token)

lemma covers_variable:
  assumes "fixed_lexeme k = None" "x \<noteq> []" "variable_lexeme_length k (x @ r) = Some (length x)"
    and "pos + length x < 2 ^ 24"
  shows "covers (mk_token k (word_of_nat pos) (word_of_nat (length x))) pos x r"
proof -
  have "unat (word_of_nat (length x) :: u32) = length x"
    using assms(4) by (intro unat_of_nat_u32) simp
  with assms show ?thesis
    by (simp add: covers_def lexeme_length_def tok_start_mk_token)
qed

text \<open>A handler that emits one operator.\<close>

lemma handles_fixed:
  assumes "fixed_lexeme k = Some l" "l \<noteq> []" "keyword_kind l = None" "n = length l" "take n (lx_rest s) = l"
  shows "handles s (lx_put (mk_token k (lx_offset s) 0) (lx_skip n s))"
proof (rule handlesI)
  have n: "n \<le> length (lx_rest s)" using assms(4,5) by (metis length_take min.cobounded1)
  show "scans l [mk_token k (lx_offset s) 0] [] s (lx_put (mk_token k (lx_offset s) 0) (lx_skip n s))"
    using scans_put[OF scans_skip[OF n]] assms by simp
  assume "lx_wf s"
  then have "lx_pos s < 2 ^ 24" using lx_wf_bound[of s] by simp
  then have "covers (mk_token k (lx_offset s) 0) (lx_pos s) l r" for r
    using assms unfolding lx_offset_pos by (intro covers_fixed) simp_all
  then show "tiles (emits_comments s \<and> [] = []) (lx_rest (lx_put (mk_token k (lx_offset s) 0) (lx_skip n s)))
      (lx_pos s) l [mk_token k (lx_offset s) 0]"
    using tiles_single[of _ "lx_pos s" l "[]"] by simp
qed (use assms in simp)

text \<open>A handler that consumes a lexeme and white space behind it, and emits one variable-length token.\<close>

lemma handles_variable:
  assumes "scans (x @ g) [] rs s s1" "fixed_lexeme k = None" "x \<noteq> []" "list_all is_ascii_whitespace g"
    and "lx_wf s \<Longrightarrow> variable_lexeme_length k (lx_rest s) = Some (length x)"
    and "lx_wf s \<Longrightarrow> len = word_of_nat (length x)"
  shows "handles s (lx_put (mk_token k (lx_offset s) len) s1)"
proof (rule handlesI)
  show "scans (x @ g) [mk_token k (lx_offset s) len] rs s (lx_put (mk_token k (lx_offset s) len) s1)"
    using scans_put[OF assms(1)] by simp
  assume wf: "lx_wf s"
  have rest: "lx_rest s = x @ g @ lx_rest s1" using assms(1) by (simp add: scans_def)
  then have "lx_pos s + length x < 2 ^ 24" using lx_wf_bound[OF wf] by simp
  then have "covers (mk_token k (lx_offset s) len) (lx_pos s) x (g @ lx_rest s1)"
    using assms(2,3,6) assms(5)[unfolded rest] wf unfolding lx_offset_pos by (simp add: covers_variable)
  then show "tiles (emits_comments s \<and> rs = []) (lx_rest (lx_put (mk_token k (lx_offset s) len) s1))
      (lx_pos s) (x @ g) [mk_token k (lx_offset s) len]"
    using assms(4) by (intro tiles_single) (simp_all add: gap_ok_def)
qed (use assms in simp)

end
