(* ===== verification/Lexer_Handlers.thy ===== *)
theory Lexer_Handlers
  imports Lexer_Tiling
begin

text \<open>
  Every character handler of the lexer satisfies the contract \<open>handles\<close>: it consumes at least one
  character, and the tokens it emits tile what it consumes. The loops are first described by what
  they skip.
\<close>

section \<open>Operators\<close>

lemmas operator_defs =
  on_one_char_token_def on_left_angle_def on_right_angle_def on_colon_def on_equals_def on_plus_def
  on_minus_def on_star_def on_percent_def on_ampersand_def on_pipe_def on_tilde_def on_bang_def

lemma take_Suc_0_eq: "take (Suc 0) xs = [x] \<longleftrightarrow> (\<exists>r. xs = x # r)"
  by (cases xs) auto

lemma handles_one_char:
  assumes "lx_rest s = c # r" "fixed_lexeme k = Some [c]" "c \<notin> set ''abcdefghijklmnopqrstuvwxyz''"
  shows "handles s (on_one_char_token k s)"
  using assms handles_fixed[of k "[c]" 1 s]
  by (simp add: on_one_char_token_def lx_moves keyword_kind_first)

lemma handles_operators:
  "lx_rest s = CHR ''<'' # r \<Longrightarrow> handles s (on_left_angle s)"
  "lx_rest s = CHR '':'' # r \<Longrightarrow> handles s (on_colon s)"
  "lx_rest s = CHR ''='' # r \<Longrightarrow> handles s (on_equals s)"
  "lx_rest s = CHR ''+'' # r \<Longrightarrow> handles s (on_plus s)"
  "lx_rest s = CHR ''-'' # r \<Longrightarrow> handles s (on_minus s)"
  "lx_rest s = CHR ''*'' # r \<Longrightarrow> handles s (on_star s)"
  "lx_rest s = CHR ''%'' # r \<Longrightarrow> handles s (on_percent s)"
  "lx_rest s = CHR ''&'' # r \<Longrightarrow> handles s (on_ampersand s)"
  "lx_rest s = CHR ''|'' # r \<Longrightarrow> handles s (on_pipe s)"
  "lx_rest s = CHR ''~'' # r \<Longrightarrow> handles s (on_tilde s)"
  "lx_rest s = CHR ''!'' # r \<Longrightarrow> handles s (on_bang s)"
  by (auto simp: operator_defs lx_moves take_Suc_0_eq keyword_kind_first Let_def intro!: handles_fixed)

text \<open>Two right angle brackets without an equals sign become two adjacent tokens.\<close>

lemma handles_double_right_angle:
  assumes "lx_rest s = CHR ''>'' # CHR ''>'' # r"
  shows "handles s (lx_put (mk_token TK_r_angle (lx_offset s + 1) 0)
           (lx_put (mk_token TK_r_angle (lx_offset s) 0) (lx_skip 2 s)))"
proof (rule handlesI)
  let ?t = "mk_token TK_r_angle (lx_offset s) 0" and ?u = "mk_token TK_r_angle (lx_offset s + 1) 0"
  show "scans ''>>'' [?t, ?u] [] s (lx_put ?u (lx_put ?t (lx_skip 2 s)))"
    using assms by (simp add: scans_def)
  assume "lx_wf s"
  then have "lx_pos s + 2 < 2 ^ 24" using lx_wf_bound[of s] assms by simp
  then have "covers ?t (lx_pos s) ''>'' q" "covers ?u (lx_pos s + 1) ''>'' q" for q
    using covers_fixed[of TK_r_angle "''>''" q "lx_pos s"] covers_fixed[of TK_r_angle "''>''" q "Suc (lx_pos s)"]
    by (simp_all add: lx_offset_pos keyword_kind_first add.commute)
  then show "tiles (emits_comments s \<and> [] = []) (lx_rest (lx_put ?u (lx_put ?t (lx_skip 2 s)))) (lx_pos s)
      ''>>'' [?t, ?u]"
    using tiles_append[OF tiles_single[of ?t "lx_pos s" "''>''" "[]"] tiles_single[of ?u _ "''>''" "[]"]]
    by simp
qed simp

lemma handles_right_angle:
  assumes "lx_rest s = CHR ''>'' # r"
  shows "handles s (on_right_angle s)"
  using assms handles_double_right_angle
  by (auto simp: on_right_angle_def lx_moves take_Suc_0_eq keyword_kind_first Let_def numeral_2_eq_2
      intro!: handles_fixed)

section \<open>Digit sequences\<close>

lemma skip_whitespace_eq:
  "lx_rest s \<noteq> [] \<Longrightarrow>
   skip_whitespace s = lx_skip (Suc (length (takeWhile is_ascii_whitespace (tl (lx_rest s))))) s"
proof (induction s rule: skip_whitespace.induct)
  case (1 s)
  then obtain c r where rest: "lx_rest s = c # r" by (cases "lx_rest s") auto
  show ?case
  proof (cases "is_ascii_whitespace (lx_peek (lx_advance s))")
    case True
    then obtain d r' where r: "r = d # r'" "is_ascii_whitespace d"
      using rest by (cases r) (auto simp: lx_peek_def sc_peek_def is_ascii_whitespace_def)
    have "skip_whitespace s = skip_whitespace (lx_advance s)"
      using True by (subst skip_whitespace.simps) (simp add: Let_def)
    with 1 True rest r show ?thesis by (simp add: lx_advance_skip)
  next
    case False
    then have "takeWhile is_ascii_whitespace r = []"
      using rest by (cases r) (auto simp: lx_peek_def sc_peek_def)
    with False rest show ?thesis
      by (subst skip_whitespace.simps) (simp add: Let_def lx_advance_skip)
  qed
qed

text \<open>
  The digit loop skips the longest run of digits and white space, and measures it up to its last
  digit.
\<close>

definition digit_class :: "(char \<Rightarrow> bool) \<Rightarrow> bool" where
  "digit_class p \<longleftrightarrow> (\<forall>c. p c \<longrightarrow> \<not> is_ascii_whitespace c \<and> c \<noteq> nul)"

lemma digit_classes: "digit_class is_decimal_digit" "digit_class is_hexadecimal_digit"
  by (auto simp: digit_class_def ascii_class_defs less_eq_char_def)

lemma consume_digit_sequence_digit:
  assumes "lx_rest s = c # r" "c \<noteq> nul" "p c"
  shows "consume_digit_sequence p off s = consume_digit_sequence p off (lx_skip 1 s)"
  using assms by (subst consume_digit_sequence.simps) (simp add: lx_advance_skip)

lemma consume_digit_sequence_stop:
  assumes "lx_rest s = [] \<or> (\<exists>c r. lx_rest s = c # r \<and> (c = nul \<or> \<not> digit_or_space p c))"
  shows "consume_digit_sequence p off s = (lx_offset s - off, s)"
  using assms by (subst consume_digit_sequence.simps) auto

lemma nul_not_space: "\<not> is_ascii_whitespace nul"
  by (simp add: is_ascii_whitespace_def)

text \<open>At white space, the loop skips all of it, and goes on only at a digit.\<close>

lemma consume_digit_sequence_space:
  assumes "digit_class p" "lx_rest s = c # b @ q" "list_all is_ascii_whitespace (c # b)"
    and "q = [] \<or> \<not> is_ascii_whitespace (hd q)"
  shows "consume_digit_sequence p off s =
    (if q \<noteq> [] \<and> p (hd q) then consume_digit_sequence p off (lx_skip (Suc (Suc (length b))) s)
     else (lx_offset s - off, lx_skip (Suc (length b)) s))"
proof -
  have "takeWhile is_ascii_whitespace (b @ q) = b"
    using assms(3,4) by (cases q) (auto simp: list_all_iff takeWhile_append)
  then have skip: "skip_whitespace s = lx_skip (Suc (length b)) s"
    using assms(2) by (simp add: skip_whitespace_eq)
  have c: "c \<noteq> nul" "\<not> p c" "is_ascii_whitespace c"
    using assms(1,3) nul_not_space by (auto simp: digit_class_def)
  have "p (lx_peek (lx_skip (Suc (length b)) s)) \<longleftrightarrow> q \<noteq> [] \<and> p (hd q)"
    using assms(1,2) by (cases q) (auto simp: digit_class_def)
  with c assms(2) show ?thesis
    by (subst consume_digit_sequence.simps) (auto simp: skip lx_advance_skip Let_def)
qed

lemma digit_run_space:
  "list_all is_ascii_whitespace b \<Longrightarrow> digit_run p (b @ q) = b @ digit_run p q"
  by (auto simp: list_all_iff takeWhile_append)

lemma space_split:
  obtains b q where "r = b @ q" "list_all is_ascii_whitespace b" "q = [] \<or> \<not> is_ascii_whitespace (hd q)"
proof
  show "r = takeWhile is_ascii_whitespace r @ dropWhile is_ascii_whitespace r" by simp
  show "list_all is_ascii_whitespace (takeWhile is_ascii_whitespace r)"
    by (auto simp: list_all_iff dest: set_takeWhileD)
  show "dropWhile is_ascii_whitespace r = [] \<or> \<not> is_ascii_whitespace (hd (dropWhile is_ascii_whitespace r))"
    using hd_dropWhile by blast
qed

lemma consume_digit_sequence_eq:
  assumes "digit_class p"
  shows "consume_digit_sequence p off s =
    (lx_offset (lx_skip (length (rstrip (digit_run p (lx_rest s)))) s) - off,
     lx_skip (length (digit_run p (lx_rest s))) s)"
proof (induction "length (lx_rest s)" arbitrary: s rule: less_induct)
  case less
  have IH: "consume_digit_sequence p off (lx_skip n s) =
      (lx_offset (lx_skip (n + length (rstrip (digit_run p (drop n (lx_rest s))))) s) - off,
       lx_skip (n + length (digit_run p (drop n (lx_rest s)))) s)"
    if "0 < n" "n \<le> length (lx_rest s)" for n
    using less.hyps[of "lx_skip n s"] that by simp
  show ?case
  proof (cases "\<exists>c r. lx_rest s = c # r \<and> digit_or_space p c")
    case False
    then have "digit_run p (lx_rest s) = []" by (cases "lx_rest s") auto
    with False show ?thesis
      by (subst consume_digit_sequence_stop) (cases "lx_rest s"; auto simp: rstrip_def)+
  next
    case True
    then obtain c r where rest: "lx_rest s = c # r" and c: "digit_or_space p c" by blast
    show ?thesis
    proof (cases "p c")
      case True
      then have "c \<noteq> nul" "\<not> is_ascii_whitespace c" using assms(1) by (auto simp: digit_class_def)
      with True rest IH[of 1] show ?thesis
        by (simp add: consume_digit_sequence_digit rstrip_Cons)
    next
      case False
      obtain b q where r: "r = b @ q" "list_all is_ascii_whitespace b" "q = [] \<or> \<not> is_ascii_whitespace (hd q)"
        by (rule space_split)
      have blank: "list_all is_ascii_whitespace (c # b)" using c False r by simp
      note step = consume_digit_sequence_space[OF assms(1) rest[unfolded r(1)] blank r(3), of off]
      have run: "digit_run p (lx_rest s) = (c # b) @ digit_run p q"
        using digit_run_space[OF blank] rest r(1) by simp
      show ?thesis
      proof (cases "q \<noteq> [] \<and> p (hd q)")
        case True
        then obtain d q' where q: "q = d # q'" "p d" "\<not> is_ascii_whitespace d"
          using r(3) by (cases q) auto
        then have "rstrip (digit_run p (lx_rest s)) = (c # b) @ d # rstrip (digit_run p q')"
          using run rstrip_append_Cons[of d "c # b"] by simp
        with step True q run rest r(1) IH[of "Suc (Suc (length b))"] show ?thesis by simp
      next
        case False
        then have "digit_run p q = []" using r(3) by (cases q) auto
        then have "rstrip (digit_run p (lx_rest s)) = []" "digit_run p (lx_rest s) = c # b"
          using run rstrip_blank[OF blank] by simp_all
        with step False show ?thesis by simp
      qed
    qed
  qed
qed

section \<open>Numeric literals\<close>

lemma digit_run_all: "list_all (digit_or_space p) (digit_run p xs)"
  by (auto simp: list_all_iff dest: set_takeWhileD)

lemma rstrip_digit_run_all: "list_all (digit_or_space p) (rstrip (digit_run p xs))"
  using set_rstrip digit_run_all by (fastforce simp: list_all_iff)

lemma last_rstrip_digit_run:
  assumes "rstrip (digit_run p xs) \<noteq> []"
  shows "p (last (rstrip (digit_run p xs)))"
proof -
  have "digit_or_space p (last (rstrip (digit_run p xs)))"
    using rstrip_digit_run_all[of p xs] last_in_set[OF assms] unfolding list_all_iff by blast
  with rstrip_last[OF assms] show ?thesis by blast
qed

lemma lx_offset_skip:
  "lx_wf s \<Longrightarrow> n \<le> length (lx_rest s) \<Longrightarrow> lx_offset (lx_skip n s) = word_of_nat (lx_pos s + n)"
  by (simp add: lx_offset_pos lx_pos_skip)

lemma length_digit_run_le: "length (digit_run p xs) \<le> length xs"
  by (rule length_takeWhile_le)

lemma length_rstrip_digit_run_le: "length (rstrip (digit_run p xs)) \<le> length (digit_run p xs)"
  by (metis length_append le_add1 rstrip_split)

text \<open>A literal of \<open>n\<close> leading characters and the digit run behind them.\<close>

lemma handles_digits:
  assumes "digit_class p" "lx_rest s = h @ r" "h \<noteq> []" "fixed_lexeme k = None"
    and "variable_lexeme_length k (h @ r) = Some (length (h @ digits_at p r))"
    and "consume_digit_sequence p (lx_offset s) (lx_skip (length h) s) = (len, s')"
  shows "handles s (lx_put (mk_token k (lx_offset s) len) s')"
proof (rule handles_variable)
  let ?d = "digit_run p r"
  have res: "len = lx_offset (lx_skip (length h + length (rstrip ?d)) s) - lx_offset s"
    "s' = lx_skip (length h + length ?d) s"
    using assms(2,6) by (simp_all add: consume_digit_sequence_eq[OF assms(1)])
  have "take (length ?d) r = ?d" by (metis takeWhile_eq_take)
  then show "scans ((h @ rstrip ?d) @ trailing_space ?d) [] [] s s'"
    using scans_skip[of "length h + length ?d" s] assms(2) length_digit_run_le[of p r] res
    by (simp add: rstrip_split)
  assume wf: "lx_wf s"
  have "length h + length (rstrip ?d) \<le> length (lx_rest s)"
    using assms(2) length_digit_run_le[of p r] length_rstrip_digit_run_le[of p r] by simp
  then show "len = word_of_nat (length (h @ rstrip ?d))"
    unfolding res by (simp add: lx_offset_skip[OF wf]) (simp add: lx_offset_pos)
qed (use assms in \<open>simp_all add: trailing_space_blank\<close>)

lemma digit_run_digit:
  "is_decimal_digit c \<Longrightarrow> digit_run is_decimal_digit (c # r) = c # digit_run is_decimal_digit r"
  "is_decimal_digit c \<Longrightarrow> digits_at is_decimal_digit (c # r) = c # digits_at is_decimal_digit r"
  using digit_classes(1) by (simp_all add: digit_class_def rstrip_Cons)

lemma lexeme_dec_int:
  assumes "is_decimal_digit c" "\<not> based_number (c # r)"
    and "\<not> fraction_at (drop (length (digit_run is_decimal_digit r)) r)"
  shows "variable_lexeme_length TK_dec_int_literal (c # r) = Some (Suc (length (digits_at is_decimal_digit r)))"
  using assms digit_run_digit[OF assms(1), of r]
  by (simp add: variable_lexeme_length_def decimal_length_def starts_decimal_def)

lemma lexeme_float:
  assumes "is_decimal_digit c" "\<not> based_number (c # d @ CHR ''.'' # r)"
    and "d = digit_run is_decimal_digit (d @ CHR ''.'' # r)" "digits_at is_decimal_digit r \<noteq> []"
  shows "variable_lexeme_length TK_float_literal (c # d @ CHR ''.'' # r) =
    Some (length (c # d @ CHR ''.'' # digits_at is_decimal_digit r))"
  using assms(1,2,4) digit_run_digit[OF assms(1), of "d @ CHR ''.'' # r"] assms(3)[symmetric]
  by (simp add: variable_lexeme_length_def decimal_length_def starts_decimal_def fraction_at_def)

lemma lexeme_dot_float:
  assumes "digits_at is_decimal_digit r \<noteq> []"
  shows "variable_lexeme_length TK_float_literal (CHR ''.'' # r) =
    Some (length (CHR ''.'' # digits_at is_decimal_digit r))"
proof -
  have "\<not> digit_or_space is_decimal_digit CHR ''.''"
    by (simp add: is_decimal_digit_def is_ascii_whitespace_def less_eq_char_def)
  with assms show ?thesis
    by (simp add: variable_lexeme_length_def decimal_length_def fraction_at_def)
qed

text \<open>The digits behind a dot decide whether there is a float literal.\<close>

lemma length_after_dot:
  assumes "lx_wf s" "lx_rest s = CHR ''.'' # r"
    and "consume_digit_sequence is_decimal_digit (lx_offset s) (lx_skip 1 s) = (len, s')"
  shows "len = word_of_nat (Suc (length (rstrip (digit_run is_decimal_digit r))))"
    and "1 < len \<longleftrightarrow> rstrip (digit_run is_decimal_digit r) \<noteq> []"
proof -
  let ?n = "length (rstrip (digit_run is_decimal_digit r))"
  have le: "Suc ?n \<le> length (lx_rest s)"
    using assms(2) length_digit_run_le[of is_decimal_digit r] length_rstrip_digit_run_le[of is_decimal_digit r]
    by simp
  show len: "len = word_of_nat (Suc ?n)"
    using assms(2,3) lx_offset_skip[OF assms(1) le]
    by (simp add: consume_digit_sequence_eq digit_classes lx_offset_pos)
  have "Suc ?n < 2 ^ 32"
    using le lx_wf_bound[OF assms(1)] by simp
  then have "unat len = Suc ?n" by (simp only: len unat_of_nat_u32)
  then show "1 < len \<longleftrightarrow> rstrip (digit_run is_decimal_digit r) \<noteq> []"
    by (simp add: word_less_nat_alt)
qed

lemma scans_digits:
  assumes "lx_rest s = h @ r" "digit_class p" "consume_digit_sequence p off (lx_skip (length h) s) = (len, s')"
  shows "scans (h @ digit_run p r) [] [] s s'" "s' = lx_skip (length h + length (digit_run p r)) s"
proof -
  show s': "s' = lx_skip (length h + length (digit_run p r)) s"
    using assms by (simp add: consume_digit_sequence_eq)
  have "take (length (digit_run p r)) r = digit_run p r" by (metis takeWhile_eq_take)
  then show "scans (h @ digit_run p r) [] [] s s'"
    using scans_skip[of "length h + length (digit_run p r)" s] assms(1) length_digit_run_le[of p r]
    by (simp add: s')
qed

lemma handles_dot:
  assumes "lx_rest s = CHR ''.'' # r"
  shows "handles s (on_dot s)"
proof -
  let ?p = is_decimal_digit
  obtain len s' where cds: "consume_digit_sequence ?p (lx_offset s) (lx_skip 1 s) = (len, s')" by fastforce
  note sc = scans_digits[of s "''.''" r ?p, simplified, OF assms digit_classes(1) cds[simplified]]
  have on: "on_dot s = (if len > 1 then lx_put (mk_token TK_float_literal (lx_offset s) len) s'
     else lx_put (mk_token TK_dot (lx_offset s) 0) s')"
    using assms cds by (simp add: on_dot_def lx_moves)
  show ?thesis
  proof (cases "len > 1")
    case True
    have "handles s (lx_put (mk_token TK_float_literal (lx_offset s) len) s')"
    proof (rule handles_variable[where x = "CHR ''.'' # rstrip (digit_run ?p r)" and g = "trailing_space (digit_run ?p r)"])
      show "scans ((CHR ''.'' # rstrip (digit_run ?p r)) @ trailing_space (digit_run ?p r)) [] [] s s'"
        using sc(1) by (simp add: rstrip_split)
      assume wf: "lx_wf s"
      show "variable_lexeme_length TK_float_literal (lx_rest s) = Some (length (CHR ''.'' # rstrip (digit_run ?p r)))"
        using lexeme_dot_float[of r] length_after_dot(2)[OF wf assms cds] True unfolding assms by simp
      show "len = word_of_nat (length (CHR ''.'' # rstrip (digit_run ?p r)))"
        using length_after_dot(1)[OF wf assms cds] by simp
    qed (simp_all add: trailing_space_blank)
    with True on show ?thesis by simp
  next
    case False
    have "handles s (lx_put (mk_token TK_dot (lx_offset s) 0) s')"
    proof (rule handlesI)
      show "scans (''.'' @ digit_run ?p r) [mk_token TK_dot (lx_offset s) 0] [] s
          (lx_put (mk_token TK_dot (lx_offset s) 0) s')"
        using scans_put[OF sc(1)] by simp
      assume wf: "lx_wf s"
      then have "rstrip (digit_run ?p r) = []"
        using length_after_dot(2)[OF wf assms cds] False by simp
      then have "list_all is_ascii_whitespace (digit_run ?p r)"
        using rstrip_split[of "digit_run ?p r"] trailing_space_blank[of "digit_run ?p r"] by simp
      moreover have "covers (mk_token TK_dot (lx_offset s) 0) (lx_pos s) ''.'' q" for q
        unfolding lx_offset_pos using lx_wf_bound[OF wf] by (intro covers_fixed) (simp_all add: keyword_kind_first)
      ultimately show "tiles (emits_comments s \<and> [] = []) (lx_rest (lx_put (mk_token TK_dot (lx_offset s) 0) s'))
          (lx_pos s) (''.'' @ digit_run ?p r) [mk_token TK_dot (lx_offset s) 0]"
        by (intro tiles_single) (simp_all add: gap_ok_def)
    qed simp
    with False on show ?thesis by simp
  qed
qed

text \<open>A decimal literal, with or without a fraction, whose first digit has been consumed.\<close>

lemma handles_decimal_fraction:
  assumes rest: "lx_rest s = c # d @ CHR ''.'' # r" and c: "is_decimal_digit c" "\<not> based_number (lx_rest s)"
    and d: "d = digit_run is_decimal_digit (d @ CHR ''.'' # r)"
    and cds: "consume_digit_sequence is_decimal_digit (lx_offset (lx_skip (Suc (length d)) s))
      (lx_skip (Suc (Suc (length d))) s) = (len, s')" and "1 < len"
  shows "handles s (lx_put (mk_token TK_float_literal (lx_offset s)
      (lx_offset (lx_skip (Suc (length d)) s) - lx_offset s + len)) s')"
proof -
  let ?p = is_decimal_digit
  let ?b = "digit_run ?p r"
  let ?x = "(c # d) @ CHR ''.'' # rstrip ?b"
  define u where "u = lx_skip (Suc (length d)) s"
  have u: "lx_rest u = CHR ''.'' # r" using rest by (simp add: u_def)
  have cds_u: "consume_digit_sequence ?p (lx_offset u) (lx_skip 1 u) = (len, s')"
    using cds by (simp add: u_def)
  show ?thesis
  proof (rule handles_variable[where x = ?x and g = "trailing_space ?b"])
    have "scans (c # d @ CHR ''.'' # ?b) [] [] s s'"
      using scans_digits(1)[of s "c # d @ ''.''" r ?p, OF _ digit_classes(1)] rest cds by simp
    then show "scans (?x @ trailing_space ?b) [] [] s s'" by (simp add: rstrip_split)
    assume wf: "lx_wf s"
    have wf_u: "lx_wf u"
      unfolding u_def by (rule scans_wf[OF scans_skip wf]) (simp add: rest)
    show "variable_lexeme_length TK_float_literal (lx_rest s) = Some (length ?x)"
      using lexeme_float[OF c(1) _ d] c(2) length_after_dot(2)[OF wf_u u cds_u] \<open>1 < len\<close>
      unfolding rest by simp
    show "lx_offset (lx_skip (Suc (length d)) s) - lx_offset s + len = word_of_nat (length ?x)"
      using length_after_dot(1)[OF wf_u u cds_u] rest
      by (simp add: lx_offset_skip[OF wf]) (simp add: lx_offset_pos)
  qed (simp_all add: trailing_space_blank)
qed

lemma handles_decimal_then_dot:
  assumes rest: "lx_rest s = c # d @ CHR ''.'' # r" and c: "is_decimal_digit c" "\<not> based_number (lx_rest s)"
    and d: "d = digit_run is_decimal_digit (d @ CHR ''.'' # r)"
    and cds: "consume_digit_sequence is_decimal_digit (lx_offset (lx_skip (Suc (length d)) s))
      (lx_skip (Suc (Suc (length d))) s) = (len, s')" and "\<not> 1 < len"
    and len0: "len0 = lx_offset (lx_skip (Suc (length (rstrip d))) s) - lx_offset s"
  shows "handles s (lx_put (mk_token TK_dot (lx_offset (lx_skip (Suc (length d)) s)) 0)
      (lx_put (mk_token TK_dec_int_literal (lx_offset s) len0) s'))"
proof (rule handlesI)
  let ?p = is_decimal_digit
  let ?b = "digit_run ?p r"
  let ?t = "mk_token TK_dec_int_literal (lx_offset s) len0"
    and ?u = "mk_token TK_dot (lx_offset (lx_skip (Suc (length d)) s)) 0"
  define u where "u = lx_skip (Suc (length d)) s"
  have u: "lx_rest u = CHR ''.'' # r" using rest by (simp add: u_def)
  have cds_u: "consume_digit_sequence ?p (lx_offset u) (lx_skip 1 u) = (len, s')"
    using cds by (simp add: u_def)
  have sc: "scans (c # d @ CHR ''.'' # ?b) [] [] s s'"
    using scans_digits(1)[of s "c # d @ ''.''" r ?p, OF _ digit_classes(1)] rest cds by simp
  show "scans ((c # d) @ ''.'' @ ?b) [?t, ?u] [] s (lx_put ?u (lx_put ?t s'))"
    using scans_put[OF scans_put[OF sc]] by simp
  assume wf: "lx_wf s"
  have wf_u: "lx_wf u"
    unfolding u_def by (rule scans_wf[OF scans_skip wf]) (simp add: rest)
  have "rstrip ?b = []" using length_after_dot(2)[OF wf_u u cds_u] \<open>\<not> 1 < len\<close> by simp
  then have blank: "list_all is_ascii_whitespace ?b"
    using rstrip_split[of ?b] trailing_space_blank[of ?b] by simp
  have rs: "length (rstrip d) \<le> length d" by (metis length_append le_add1 rstrip_split)
  have "len0 = word_of_nat (length (c # rstrip d))"
    using rs rest unfolding len0 by (simp add: lx_offset_skip[OF wf]) (simp add: lx_offset_pos)
  moreover have "variable_lexeme_length TK_dec_int_literal (c # d @ CHR ''.'' # r) = Some (length (c # rstrip d))"
    using lexeme_dec_int[OF c(1), of "d @ CHR ''.'' # r"] c(2) rest d[symmetric] \<open>rstrip ?b = []\<close>
    by (simp add: fraction_at_def)
  moreover have "c # d @ CHR ''.'' # r = (c # rstrip d) @ trailing_space d @ ''.'' @ ?b @ q" if "r = ?b @ q" for q
    using rstrip_split[of d] that by (metis append_Cons append_Nil append_assoc)
  moreover have q: "r = ?b @ lx_rest s'" using sc rest by (simp add: scans_def)
  ultimately have "covers ?t (lx_pos s) (c # rstrip d) (trailing_space d @ ''.'' @ ?b @ lx_rest s')"
    using lx_wf_bound[OF wf] rs rest
      covers_variable[of TK_dec_int_literal "c # rstrip d" "trailing_space d @ ''.'' @ ?b @ lx_rest s'" "lx_pos s"]
    by (simp add: lx_offset_pos)
  then have "tiles True (''.'' @ ?b @ lx_rest s') (lx_pos s) ((c # rstrip d) @ trailing_space d) [?t]"
    by (rule tiles_single) (simp add: gap_ok_def trailing_space_blank)
  then have 1: "tiles True ((''.'' @ ?b) @ lx_rest s') (lx_pos s) (c # d) [?t]"
    by (simp only: append_Cons rstrip_split append_assoc)
  have "covers ?u (lx_pos s + Suc (length d)) ''.'' (?b @ lx_rest s')"
    using lx_wf_bound[OF wf] rest covers_fixed[of TK_dot "''.''" "?b @ lx_rest s'" "lx_pos s + Suc (length d)"]
    by (subst lx_offset_skip[OF wf]) (simp_all add: keyword_kind_first)
  then have 2: "tiles True (lx_rest s') (lx_pos s + Suc (length d)) (''.'' @ ?b) [?u]"
    by (rule tiles_single) (simp add: gap_ok_def blank)
  show "tiles (emits_comments s \<and> [] = []) (lx_rest (lx_put ?u (lx_put ?t s'))) (lx_pos s) ((c # d) @ ''.'' @ ?b) [?t, ?u]"
    using tiles_mono[OF tiles_append[OF 1, of "[?u]"]] 2 by simp
qed simp

lemma handles_decimal:
  assumes rest: "lx_rest s = c # r" and c: "is_decimal_digit c" "\<not> based_number (lx_rest s)"
  shows "handles s (handle_decimal_literal (lx_offset s) (lx_skip 1 s))"
proof -
  let ?p = is_decimal_digit
  define d where "d = digit_run ?p r"
  define len0 where "len0 = lx_offset (lx_skip (Suc (length (rstrip d))) s) - lx_offset s"
  have cds: "consume_digit_sequence ?p (lx_offset s) (lx_skip 1 s) = (len0, lx_skip (Suc (length d)) s)"
    using rest by (simp add: consume_digit_sequence_eq digit_classes d_def len0_def)
  show ?thesis
  proof (cases "lx_peek (lx_skip (Suc (length d)) s) = CHR ''.''")
    case False
    have "handles s (lx_put (mk_token TK_dec_int_literal (lx_offset s) len0) (lx_skip (Suc (length d)) s))"
    proof (rule handles_digits[where h = "[c]" and r = r and p = ?p])
      have "\<not> prefix ''.'' (drop (length d) r)"
        using False rest by (cases "drop (length d) r") (auto simp: lx_peek_def sc_peek_def)
      then show "variable_lexeme_length TK_dec_int_literal ([c] @ r) = Some (length ([c] @ digits_at ?p r))"
        using lexeme_dec_int[OF c(1), of r] c(2) rest by (simp add: fraction_at_def d_def)
    qed (use rest cds in \<open>simp_all add: digit_classes\<close>)
    with False cds show ?thesis by (simp add: handle_decimal_literal_def)
  next
    case True
    then have "drop (length d) r \<noteq> []" "hd (drop (length d) r) = CHR ''.''"
      using rest by (cases "drop (length d) r"; simp add: lx_peek_def sc_peek_def)+
    then obtain r' where "drop (length d) r = CHR ''.'' # r'" by (metis list.collapse)
    then have r: "r = d @ CHR ''.'' # r'"
      unfolding d_def by (metis dropWhile_eq_drop takeWhile_dropWhile_id)
    obtain len s' where cds2: "consume_digit_sequence ?p (lx_offset (lx_skip (Suc (length d)) s))
        (lx_skip (Suc (Suc (length d))) s) = (len, s')" by fastforce
    have eq: "handle_decimal_literal (lx_offset s) (lx_skip 1 s) =
      (if 1 < len then lx_put (mk_token TK_float_literal (lx_offset s)
           (lx_offset (lx_skip (Suc (length d)) s) - lx_offset s + len)) s'
       else lx_put (mk_token TK_dot (lx_offset (lx_skip (Suc (length d)) s)) 0)
         (lx_put (mk_token TK_dec_int_literal (lx_offset s) len0) s'))"
      using True cds cds2 rest r by (simp add: handle_decimal_literal_def lx_moves)
    have "d = digit_run ?p (d @ CHR ''.'' # r')" using d_def r by simp
    then show ?thesis
      using handles_decimal_fraction[OF rest[unfolded r] c _ cds2]
        handles_decimal_then_dot[OF rest[unfolded r] c _ cds2 _ len0_def] eq by simp
  qed
qed

lemma handles_nonzero:
  assumes "lx_rest s = c # r" "is_decimal_digit c" "c \<noteq> CHR ''0''"
  shows "handles s (on_nonzero s)"
  using assms handles_decimal[OF assms(1,2)] by (simp add: on_nonzero_def lx_moves based_number_def)

lemma handles_prefixed:
  assumes "lx_rest s = CHR ''0'' # x # r" "digit_class p" "fixed_lexeme k = None"
    and "\<And>xs. variable_lexeme_length k xs = based_length [CHR ''0'', x] p xs"
    and "consume_digit_sequence p (lx_offset s) (lx_skip 2 s) = (len, s')"
  shows "handles s (lx_put (mk_token k (lx_offset s) len) s')"
  by (rule handles_digits[where h = "[CHR ''0'', x]" and r = r and p = p])
    (use assms in \<open>simp_all add: numeral_2_eq_2 based_length_def\<close>)

lemma handles_zero:
  assumes "lx_rest s = CHR ''0'' # r"
  shows "handles s (on_zero s)"
proof -
  have digit: "is_decimal_digit CHR ''0''" by (simp add: is_decimal_digit_def)
  consider (x) r' where "r = CHR ''x'' # r'" | (b) r' where "r = CHR ''b'' # r'"
    | (o') r' where "r = CHR ''o'' # r'"
    | (dec) "take 1 r \<noteq> ''x''" "take 1 r \<noteq> ''b''" "take 1 r \<noteq> ''o''"
    by (cases r) auto
  then show ?thesis
  proof cases
    case x
    then show ?thesis using assms
      by (auto simp: on_zero_def lx_moves numeral_2_eq_2 digit_classes variable_lexeme_length_def
          intro!: handles_prefixed split: prod.splits)
  next
    case b
    then show ?thesis using assms
      by (auto simp: on_zero_def lx_moves numeral_2_eq_2 digit_classes variable_lexeme_length_def
          intro!: handles_prefixed split: prod.splits)
  next
    case o'
    then show ?thesis using assms
      by (auto simp: on_zero_def lx_moves numeral_2_eq_2 digit_classes variable_lexeme_length_def
          intro!: handles_prefixed split: prod.splits)
  next
    case dec
    then have "\<not> based_number (lx_rest s)" using assms by (cases r) (auto simp: based_number_def)
    with dec handles_decimal[OF assms digit] assms show ?thesis
      by (simp add: on_zero_def lx_moves)
  qed
qed

section \<open>Comments\<close>

lemma consume_line_comment_eq:
  "consume_line_comment s =
     lx_skip (length (takeWhile (\<lambda>c. c \<noteq> nul \<and> c \<noteq> newline_char) (lx_rest s))) s"
proof (induction s rule: consume_line_comment.induct)
  case (1 s)
  show ?case
  proof (cases "lx_rest s")
    case Nil
    then show ?thesis by (subst consume_line_comment.simps) simp
  next
    case (Cons c r)
    with 1 show ?thesis
      by (subst consume_line_comment.simps) (auto simp: lx_advance_skip)
  qed
qed

lemma lx_match_eq:
  "lx_rest s = x # r \<Longrightarrow> lx_match x s = (True, lx_skip 1 s)"
  "lx_rest s = [] \<or> hd (lx_rest s) \<noteq> x \<Longrightarrow> lx_match x s = (False, s)"
  by (auto simp: lx_match_skip take_Suc_0_eq)

text \<open>One round of the block comment loop, by what stands at the cursor.\<close>

lemma consume_block_comment_cases:
  "lx_rest s = [] \<Longrightarrow> consume_block_comment off n s = lexer_report unterminated_block_comment off [] s"
  "lx_rest s = CHR ''*'' # CHR ''/'' # r \<Longrightarrow> consume_block_comment off n s =
     (if n - 1 = 0 then lx_skip 2 s else consume_block_comment off (n - 1) (lx_skip 2 s))"
  "lx_rest s = CHR ''*'' # r \<Longrightarrow> take 1 r \<noteq> ''/'' \<Longrightarrow>
     consume_block_comment off n s = consume_block_comment off n (lx_skip 1 s)"
  "lx_rest s = CHR ''/'' # CHR ''*'' # r \<Longrightarrow>
     consume_block_comment off n s = consume_block_comment off (n + 1) (lx_skip 2 s)"
  "lx_rest s = CHR ''/'' # r \<Longrightarrow> take 1 r \<noteq> ''*'' \<Longrightarrow>
     consume_block_comment off n s = consume_block_comment off n (lx_skip 1 s)"
  "lx_rest s = c # r \<Longrightarrow> c \<noteq> CHR ''*'' \<Longrightarrow> c \<noteq> CHR ''/'' \<Longrightarrow>
     consume_block_comment off n s = consume_block_comment off n (lx_skip 1 s)"
  by (subst consume_block_comment.simps;
      auto simp: lx_valid_length lx_match_skip take_Suc_0_eq lx_advance_skip numeral_2_eq_2 Let_def)+

lemma block_comment_shape:
  obtains "xs = []"
  | r where "xs = CHR ''*'' # CHR ''/'' # r"
  | r where "xs = CHR ''*'' # r" "take 1 r \<noteq> ''/''"
  | r where "xs = CHR ''/'' # CHR ''*'' # r"
  | r where "xs = CHR ''/'' # r" "take 1 r \<noteq> ''*''"
  | c r where "xs = c # r" "c \<noteq> CHR ''*''" "c \<noteq> CHR ''/''"
proof (cases xs)
  case (Cons c r)
  with that show thesis by (cases "c = CHR ''*''"; cases "c = CHR ''/''"; cases r) auto
qed (use that in simp)

text \<open>The same rounds in the specification.\<close>

lemma comment_length_cases:
  "comment_length n [] = 0"
  "comment_length n (CHR ''*'' # CHR ''/'' # r) = 2 + (if n \<le> 1 then 0 else comment_length (n - 1) r)"
  "take 1 r \<noteq> ''/'' \<Longrightarrow> comment_length n (CHR ''*'' # r) = Suc (comment_length n r)"
  "comment_length n (CHR ''/'' # CHR ''*'' # r) = 2 + comment_length (n + 1) r"
  "take 1 r \<noteq> ''*'' \<Longrightarrow> comment_length n (CHR ''/'' # r) = Suc (comment_length n r)"
  "c \<noteq> CHR ''*'' \<Longrightarrow> c \<noteq> CHR ''/'' \<Longrightarrow> comment_length n (c # r) = Suc (comment_length n r)"
  by (subst comment_length.simps; cases r; simp)+

text \<open>
  The scanner goes exactly as far as the specification, as long as its counter does not wrap, which
  a text below 4 GB cannot make it do.
\<close>

lemma scans_block_comment:
  "\<exists>w rs. scans w [] rs s (consume_block_comment off n s) \<and>
     (0 < n \<and> unat n + length (lx_rest s) < 2 ^ 32 \<longrightarrow> length w = comment_length (unat n) (lx_rest s))"
  (is "?P s n")
proof (induction "length (lx_rest s)" arbitrary: s n rule: less_induct)
  case less
  have IH: "\<exists>w rs. scans (take k (lx_rest s) @ w) [] rs s (consume_block_comment off m (lx_skip k s)) \<and>
      (0 < m \<and> unat m + length (drop k (lx_rest s)) < 2 ^ 32 \<longrightarrow>
        length w = comment_length (unat m) (drop k (lx_rest s)))"
    if "0 < k" "k \<le> length (lx_rest s)" for k m
    using less[of "lx_skip k s" m] that scans_trans[OF scans_take[of k s]] by fastforce
  show ?case
  proof (cases rule: block_comment_shape[of "lx_rest s"])
    case 1
    have "valid_for_message [] unterminated_block_comment"
      by (simp add: valid_for_message_arity message_arity_def)
    from scans_report[OF this, of s off] 1 show ?thesis
      by (auto simp: consume_block_comment_cases comment_length_cases)
  next
    case (2 r)
    note eq = consume_block_comment_cases(2)[OF 2, of off n]
    show ?thesis
    proof (cases "n = 1")
      case True
      with eq 2 scans_take[of 2 s] show ?thesis
        by (intro exI[of _ "''*/''"] exI[of _ "[]"]) (simp add: comment_length_cases)
    next
      case False
      obtain w rs where w: "scans (''*/'' @ w) [] rs s (consume_block_comment off (n - 1) (lx_skip 2 s))"
        "0 < n - 1 \<and> unat (n - 1) + length r < 2 ^ 32 \<longrightarrow> length w = comment_length (unat (n - 1)) r"
        using IH[of 2 "n - 1"] 2 by auto
      have "length (''*/'' @ w) = comment_length (unat n) (lx_rest s)"
        if "0 < n" "unat n + length (lx_rest s) < 2 ^ 32"
      proof -
        have n: "unat n \<noteq> 1" "0 < unat n"
          using that(1) False by (auto simp: word_unat_eq_iff word_less_nat_alt)
        then have "unat (n - 1) = unat n - 1" using that(1) by (intro unat_minus_one) auto
        with n have "unat (n - 1) = unat n - 1" "0 < n - 1" "\<not> unat n \<le> 1"
          by (simp_all add: word_less_nat_alt)
        with w(2) that 2 show ?thesis by (simp add: comment_length_cases)
      qed
      with w(1) eq False show ?thesis by auto
    qed
  next
    case (3 r)
    with IH[of 1 n] obtain w rs where "scans (''*'' @ w) [] rs s (consume_block_comment off n (lx_skip 1 s))"
      "0 < n \<and> unat n + length r < 2 ^ 32 \<longrightarrow> length w = comment_length (unat n) r" by auto
    with 3 show ?thesis
      by (intro exI[of _ "''*'' @ w"] exI[of _ rs]) (simp add: consume_block_comment_cases comment_length_cases)
  next
    case (4 r)
    with IH[of 2 "n + 1"] obtain w rs where w: "scans (''/*'' @ w) [] rs s (consume_block_comment off (n + 1) (lx_skip 2 s))"
      "0 < n + 1 \<and> unat (n + 1) + length r < 2 ^ 32 \<longrightarrow> length w = comment_length (unat (n + 1)) r" by auto
    have "length (''/*'' @ w) = comment_length (unat n) (lx_rest s)"
      if "0 < n" "unat n + length (lx_rest s) < 2 ^ 32"
    proof -
      have "unat (n + 1) = unat n + 1"
        using that 4 by (subst unat_add_lem[THEN iffD1]) simp_all
      then have "0 < n + 1" "unat (n + 1) = unat n + 1" by (simp_all add: word_less_nat_alt)
      with w(2) that 4 show ?thesis by (simp add: comment_length_cases)
    qed
    with w(1) 4 show ?thesis by (auto simp: consume_block_comment_cases)
  next
    case (5 r)
    with IH[of 1 n] obtain w rs where "scans (''/'' @ w) [] rs s (consume_block_comment off n (lx_skip 1 s))"
      "0 < n \<and> unat n + length r < 2 ^ 32 \<longrightarrow> length w = comment_length (unat n) r" by auto
    with 5 show ?thesis
      by (intro exI[of _ "''/'' @ w"] exI[of _ rs]) (simp add: consume_block_comment_cases comment_length_cases)
  next
    case (6 c r)
    with IH[of 1 n] obtain w rs where "scans ([c] @ w) [] rs s (consume_block_comment off n (lx_skip 1 s))"
      "0 < n \<and> unat n + length r < 2 ^ 32 \<longrightarrow> length w = comment_length (unat n) r" by auto
    with 6 show ?thesis
      by (intro exI[of _ "[c] @ w"] exI[of _ rs]) (simp add: consume_block_comment_cases comment_length_cases)
  qed
qed

lemma handles_emit_comment:
  assumes scan: "scans (h @ w) [] rs s s1" and h: "h \<noteq> []" and k: "fixed_lexeme k = None"
    and ok: "lx_wf s \<Longrightarrow> variable_lexeme_length k (lx_rest s) = Some (length (h @ w))" and flags: "lx_flags s1 = lx_flags s"
  shows "handles s (if has_flags (lx_flags s1) flags_emit_comments
      then lx_put (mk_token k (lx_offset s) (lx_offset s1 - lx_offset s)) s1 else s1)"
proof (cases "has_flags (lx_flags s1) flags_emit_comments")
  case True
  have "handles s (lx_put (mk_token k (lx_offset s) (lx_offset s1 - lx_offset s)) s1)"
    using scan h k ok by (intro handles_variable[of "h @ w" "[]"]) (auto simp: lx_offset_pos scans_pos)
  with True show ?thesis by simp
next
  case False
  with flags have "\<not> emits_comments s" by (simp add: emits_comments_def)
  with h have "handles s s1" by (intro handlesI[OF scan]) (auto simp: gap_ok_def)
  with False show ?thesis by simp
qed

lemma scans_flags: "scans w ts rs s s' \<Longrightarrow> lx_flags s' = lx_flags s"
  by (simp add: scans_def)

lemma scans_line_comment:
  "scans (takeWhile (\<lambda>c. c \<noteq> nul \<and> c \<noteq> newline_char) (lx_rest s)) [] [] s (consume_line_comment s)"
  (is "scans (takeWhile ?p _) _ _ _ _")
proof -
  have "take (length (takeWhile ?p (lx_rest s))) (lx_rest s) = takeWhile ?p (lx_rest s)"
    by (metis takeWhile_eq_take)
  with scans_skip[OF length_takeWhile_le[of ?p "lx_rest s"]] show ?thesis
    by (simp add: consume_line_comment_eq)
qed

lemma handles_slash:
  assumes "lx_rest s = CHR ''/'' # r"
  shows "handles s (on_slash s)"
proof -
  consider (line) r' where "r = CHR ''/'' # r'" | (block) r' where "r = CHR ''*'' # r'"
    | (eq) r' where "r = CHR ''='' # r'"
    | (slash) "\<forall>r'. r \<noteq> CHR ''/'' # r' \<and> r \<noteq> CHR ''*'' # r' \<and> r \<noteq> CHR ''='' # r'"
    by blast
  then show ?thesis
  proof cases
    case line
    let ?w = "takeWhile (\<lambda>c. c \<noteq> nul \<and> c \<noteq> newline_char) r'"
    have sc: "scans (''//'' @ ?w) [] [] s (consume_line_comment (lx_skip 2 s))"
      using scans_trans[OF scans_skip[of 2 s] scans_line_comment] assms line by simp
    have "variable_lexeme_length TK_line_comment (lx_rest s) = Some (length (''//'' @ ?w))"
      using assms line by (simp add: variable_lexeme_length_def line_length_def numeral_2_eq_2)
    from handles_emit_comment[OF sc _ _ this scans_flags[OF sc], unfolded numeral_2_eq_2] assms line
    show ?thesis by (simp add: on_slash_def lx_moves Let_def)
  next
    case block
    obtain w rs where w: "scans w [] rs (lx_skip 2 s) (consume_block_comment (lx_offset s) 1 (lx_skip 2 s))"
      "Suc (length (drop 2 (lx_rest s))) < 2 ^ 32 \<longrightarrow> length w = comment_length 1 (drop 2 (lx_rest s))"
      using scans_block_comment[of "lx_skip 2 s" "lx_offset s" 1] by auto
    then have sc: "scans (''/*'' @ w) [] rs s (consume_block_comment (lx_offset s) 1 (lx_skip 2 s))"
      using scans_trans[OF scans_skip[of 2 s]] assms block by fastforce
    have "variable_lexeme_length TK_block_comment (lx_rest s) = Some (length (''/*'' @ w))" if "lx_wf s"
      using lx_wf_bound[OF that] assms block w(2) by (simp add: variable_lexeme_length_def)
    from handles_emit_comment[OF sc _ _ this scans_flags[OF sc], unfolded numeral_2_eq_2] assms block
    show ?thesis by (simp add: on_slash_def lx_moves Let_def)
  next
    case eq
    with assms show ?thesis
      by (auto simp: on_slash_def lx_moves numeral_2_eq_2 keyword_kind_first Let_def intro!: handles_fixed)
  next
    case slash
    with assms show ?thesis
      by (auto simp: on_slash_def lx_moves take_Suc_0_eq keyword_kind_first Let_def intro!: handles_fixed)
  qed
qed

section \<open>Quoted literals\<close>

text \<open>The loop consumes the characters that the specification gives the literal.\<close>

lemma scans_quoted:
  "\<exists>w rs. scans w [] rs s (consume_quoted q i s) \<and> length w = quoted_length q i (lx_rest s)"
proof (induction q i s rule: consume_quoted.induct)
  case (1 q i s)
  show ?case
  proof (cases "lx_peek s = nul \<or> lx_peek s = newline_char")
    case True
    have "valid_for_message [] missing_closing_quote"
      by (simp add: valid_for_message_arity message_arity_def)
    from scans_report[OF this, of s "lx_offset s"] obtain rs where
      "scans [] [] rs s (lexer_report missing_closing_quote (lx_offset s) [] s)" by blast
    then have "\<exists>rs. scans [] [] rs s (consume_quoted q i s)"
      using True by (subst consume_quoted.simps) (auto intro: exI[of _ "[]"])
    moreover have "quoted_length q i (lx_rest s) = 0" using True by (cases "lx_rest s") auto
    ultimately show ?thesis by fastforce
  next
    case False
    then obtain c r where rest: "lx_rest s = c # r" and c: "c \<noteq> nul" "c \<noteq> newline_char"
      by (cases "lx_rest s") auto
    have skip: "scans [c] [] [] s (lx_skip 1 s)" using scans_skip[of 1 s] rest by simp
    have adv: "lx_advance s = lx_skip 1 s" and peek: "lx_peek s = c"
      using rest by (simp_all add: lx_advance_skip)
    have eq: "consume_quoted q i s = (if c = backslash_char then consume_quoted q (\<not> i) (lx_skip 1 s)
        else if c = q \<and> \<not> i then lx_skip 1 s else consume_quoted q False (lx_skip 1 s))"
      using c by (subst consume_quoted.simps) (auto simp: adv peek Let_def)
    have "\<exists>w rs. scans w [] rs (lx_skip 1 s) (consume_quoted q i s) \<and>
        Suc (length w) = quoted_length q i (lx_rest s)"
    proof -
      consider (esc) "c = backslash_char" | (close) "c \<noteq> backslash_char" "c = q" "\<not> i"
        | (more) "c \<noteq> backslash_char" "\<not> (c = q \<and> \<not> i)" by blast
      then show ?thesis
      proof cases
        case esc
        with 1(1)[OF refl] c rest obtain w rs where
          "scans w [] rs (lx_skip 1 s) (consume_quoted q (\<not> i) (lx_skip 1 s))" "length w = quoted_length q (\<not> i) r"
          unfolding adv peek by auto
        with esc rest show ?thesis unfolding eq by (intro exI[of _ w] exI[of _ rs]) simp
      next
        case close
        then have "consume_quoted q i s = lx_skip 1 s" "quoted_length q i (lx_rest s) = 1"
          using rest c unfolding eq by auto
        then show ?thesis by (intro exI[of _ "[]"]) simp
      next
        case more
        have "\<exists>w rs. scans w [] rs (lx_skip 1 s) (consume_quoted q False (lx_skip 1 s)) \<and>
            length w = quoted_length q False r"
          using 1(2,3)[OF refl] more c rest unfolding adv peek by (cases i) auto
        then obtain w rs where "scans w [] rs (lx_skip 1 s) (consume_quoted q False (lx_skip 1 s))"
          "length w = quoted_length q False r" by blast
        with more c rest show ?thesis unfolding eq by (intro exI[of _ w] exI[of _ rs]) auto
      qed
    qed
    then obtain w rs where "scans w [] rs (lx_skip 1 s) (consume_quoted q i s)"
      "Suc (length w) = quoted_length q i (lx_rest s)" by blast
    with scans_trans[OF skip] show ?thesis by fastforce
  qed
qed

lemma handles_quote:
  assumes "lx_rest s = q # r" "(k, q) \<in> {(TK_string_literal, quote_char), (TK_char_literal, apostrophe_char)}"
  shows "handles s (on_quote k q s)"
proof -
  let ?s1 = "consume_quoted q False (lx_skip 1 s)"
  obtain w rs where w: "scans w [] rs (lx_skip 1 s) ?s1" "length w = quoted_length q False r"
    using scans_quoted[of "lx_skip 1 s" q False] assms(1) by auto
  then have sc: "scans (q # w) [] rs s ?s1"
    using scans_trans[OF scans_skip[of 1 s] w(1)] assms(1) by simp
  have "variable_lexeme_length k (lx_rest s) = Some (length (q # w))"
    using assms w(2) by (auto simp: variable_lexeme_length_def quoted_literal_length_def)
  with sc assms(2) have "handles s (lx_put (mk_token k (lx_offset s) (lx_offset ?s1 - lx_offset s)) ?s1)"
    by (intro handles_variable[of "q # w" "[]"]) (auto simp: lx_offset_pos scans_pos)
  with assms(1) show ?thesis by (simp add: on_quote_def lx_moves Let_def)
qed

end
