(* ===== verification/Lexer_Words.thy ===== *)
theory Lexer_Words
  imports Lexer_Handlers
begin

text \<open>
  Identifiers and keywords: what \<open>consume_word\<close> consumes, and that comparing encoded keyword tails
  decides whether the word is a keyword, also for words with non-ASCII characters.
\<close>

section \<open>Multibyte characters\<close>

lemma ascii_no_leading_ones: "is_ascii c \<Longrightarrow> countl_one (of_char c) = 0"
proof -
  assume "is_ascii c"
  then have "\<not> bit (drop_bit 7 (of_char c :: u8)) 0" by (simp only: is_ascii_def bit_0_eq) simp
  then have "\<not> bit (of_char c :: u8) 7" by (simp only: bit_drop_bit_eq comp_def) simp
  then show ?thesis by (simp add: countl_one_def)
qed

lemma ascii_identifier_ascii: "is_ascii_identifier_char c \<Longrightarrow> is_ascii c"
  by (cases c) (auto simp: is_ascii_identifier_char_def is_ascii_def less_eq_char_def of_char_def)

text \<open>
  The lexer packs a multibyte character byte by byte; behind the end of the text, it packs null bytes.
\<close>

lemma ucast_of_char: "(ucast (of_char c :: u8) :: u32) = of_char c"
proof -
  have n: "of_char c < (256 :: nat)" by simp
  have "unat (of_char c :: u8) = of_char c"
    using n by (subst of_nat_of_char[symmetric]) (simp add: unat_of_nat take_bit_nat_eq_self del: of_nat_of_char)
  moreover have "unat (of_char c :: u32) = of_char c"
    using order.strict_trans[OF n, of 4294967296] by (subst of_nat_of_char[symmetric]) (simp add: unat_of_nat take_bit_nat_eq_self del: of_nat_of_char)
  ultimately show ?thesis using order.strict_trans[OF n, of "2 ^ 32"]
    by (simp add: word_unat_eq_iff unsigned_ucast_eq take_bit_nat_eq_self)
qed

lemma collect_utf8_bytes_eq:
  "collect_utf8_bytes n i u s =
     (u OR push_bit (i * 8) (pack_le (map of_char (take n (lx_rest s)))), lx_skip n s)"
proof (induction n arbitrary: i u s)
  case (Suc n)
  show ?case
  proof (cases "lx_rest s")
    case Nil
    then have skip: "lx_skip m s = s" for m by (simp add: lx_skip_def)
    with Nil Suc[of "i + 1" u s] show ?thesis by (simp add: lx_next_skip skip)
  next
    case (Cons c r)
    with Suc[of "i + 1" _ "lx_skip 1 s"] show ?thesis
      by (simp add: lx_next_skip ucast_of_char push_bit_or add.commute or.assoc)
  qed
qed simp

text \<open>
  Consuming a multibyte character takes the bytes of the character at the place, and accepts it if
  it is of the class; otherwise there is a report.
\<close>

lemma scans_multibyte:
  assumes "lx_rest s = c # r" "consume_multibyte_utf8_char c off p (lx_skip 1 s) = (ok, s')"
  shows "\<exists>rs. scans (take (utf8_char_length (lx_rest s)) (lx_rest s)) [] rs s s' \<and>
    (ok \<longleftrightarrow> in_utf8_class p (lx_rest s)) \<and> (lx_wf s \<longrightarrow> (ok \<longleftrightarrow> rs = []))"
proof -
  let ?n = "countl_one (of_char c)"
  define m where "m = (if ?n \<in> {2, 3, 4} then ?n else 1)"
  define u where "u = pack_le (map of_char (take m (lx_rest s)))"
  have w: "take (utf8_char_length (lx_rest s)) (lx_rest s) = take m (lx_rest s)"
    unfolding utf8_char_length_def m_def Let_def
    using assms(1) by (simp only: list.sel(1)) (auto simp: min_def)
  have rep: "\<exists>rs. scans (take m (lx_rest s)) [] rs s (lexer_report invalid_character off [Arg_int k] (lx_skip m s)) \<and>
      (lx_wf s \<longrightarrow> rs \<noteq> [])" for k
  proof -
    have "\<exists>rs. scans [] [] rs t (lexer_report invalid_character off [Arg_int k] t) \<and> (lx_wf t \<longrightarrow> rs \<noteq> [])" for t
      by (rule scans_report) (simp add: valid_for_message_arity message_arity_def)
    from this[of "lx_skip m s"] show ?thesis
      using scans_trans[OF scans_take[of m s]] scans_wf[OF scans_take[of m s]] by fastforce
  qed
  show ?thesis
  proof (cases "?n \<in> {2, 3, 4}")
    case True
    then obtain k where k: "?n = Suc k" "m = Suc k" by (cases ?n) (auto simp: m_def)
    have "collect_utf8_bytes (?n - 1) 1 (ucast (of_char c :: u8)) (lx_skip 1 s) = (u, lx_skip m s)"
      using assms(1) k by (simp add: collect_utf8_bytes_eq u_def)
    moreover have "2 \<le> ?n \<and> ?n \<le> 4" using True by auto
    ultimately have "(ok, s') = (if p u then (True, lx_skip m s)
        else (False, lexer_report invalid_character off [Arg_int (unat u)] (lx_skip m s)))"
      using assms(2) by (simp add: consume_multibyte_utf8_char_def Let_def)
    moreover have "in_utf8_class p (lx_rest s) \<longleftrightarrow> p u"
      using assms(1) True by (simp add: in_utf8_class_def u_def m_def Let_def)
    ultimately show ?thesis
      using rep[of "unat u"] scans_take[of m s] unfolding w by (cases "p u") auto
  next
    case False
    then have "\<not> (2 \<le> ?n \<and> ?n \<le> 4)" "m = 1" by (auto simp: m_def)
    then have "(ok, s') = (False, lexer_report invalid_character off
        [Arg_int (unat (ucast (of_char c :: u8) :: u32))] (lx_skip m s))"
      using assms(2) unfolding consume_multibyte_utf8_char_def Let_def by (simp only: if_False)
    moreover have "\<not> in_utf8_class p (lx_rest s)"
      using assms(1) False by (simp add: in_utf8_class_def)
    ultimately show ?thesis using rep unfolding w by auto
  qed
qed

section \<open>Words\<close>

definition wordish :: "string \<Rightarrow> bool" where
  "wordish w \<longleftrightarrow> list_all is_ascii_identifier_char w \<or> (\<exists>c \<in> set w. \<not> is_ascii c)"

lemma wordish_Cons: "wordish w \<Longrightarrow> is_ascii_identifier_char c \<Longrightarrow> wordish (c # w)"
  by (auto simp: wordish_def)

lemma wordish_non_ascii: "\<not> is_ascii c \<Longrightarrow> wordish (c # w)"
  by (auto simp: wordish_def)

text \<open>The word consumed is the one of the specification.\<close>

lemma word_length_Cons:
  "word_length [] = 0"
  "is_ascii_identifier_char c \<Longrightarrow> word_length (c # r) = Suc (word_length r)"
  "\<not> is_ascii_identifier_char c \<Longrightarrow> is_ascii c \<Longrightarrow> word_length (c # r) = 0"
  "\<not> is_ascii_identifier_char c \<Longrightarrow> \<not> is_ascii c \<Longrightarrow> word_length (c # r) =
     utf8_char_length (c # r) + (if in_utf8_class is_utf8_xid_continue_char (c # r)
       then word_length (drop (utf8_char_length (c # r)) (c # r)) else 0)"
  by (subst word_length.simps; simp)+

lemma scans_word:
  "\<exists>rs. scans (take (word_length (lx_rest s)) (lx_rest s)) [] rs s (consume_word s)"
proof (induction s rule: consume_word.induct)
  case (1 s)
  show ?case
  proof (cases "lx_rest s")
    case Nil
    have "consume_word s = s" using Nil by (subst consume_word.simps) simp
    with Nil show ?thesis by auto
  next
    case (Cons c r)
    have skip: "scans [c] [] [] s (lx_skip 1 s)" using scans_skip[of 1 s] Cons by simp
    have adv: "lx_advance s = lx_skip 1 s" "get_offset_and_advance s = (lx_offset s, lx_skip 1 s)"
      and peek: "lx_peek s = c" using Cons by (simp_all add: lx_moves)
    have nul: "is_ascii nul" "\<not> is_ascii_identifier_char nul"
      by (simp_all add: is_ascii_def is_ascii_identifier_char_def less_eq_char_def)
    consider (stop) "\<not> is_ascii_identifier_char c" "is_ascii c"
      | (id) "c \<noteq> nul" "is_ascii_identifier_char c" | (multi) "c \<noteq> nul" "\<not> is_ascii_identifier_char c" "\<not> is_ascii c"
      using nul by blast
    then show ?thesis
    proof cases
      case stop
      then have "consume_word s = s" by (subst consume_word.simps) (auto simp: peek)
      with stop Cons show ?thesis by (auto simp: word_length_Cons)
    next
      case id
      then obtain rs where "scans (take (word_length r) r) [] rs (lx_skip 1 s) (consume_word (lx_skip 1 s))"
        using 1(1)[OF refl] Cons unfolding peek adv by auto
      moreover have "consume_word s = consume_word (lx_skip 1 s)"
        using id by (subst consume_word.simps) (auto simp: peek adv)
      ultimately show ?thesis
        using scans_trans[OF skip] id Cons by (fastforce simp: word_length_Cons)
    next
      case multi
      let ?n = "utf8_char_length (lx_rest s)"
      obtain ok s2 where mb: "consume_multibyte_utf8_char c (lx_offset s) is_utf8_xid_continue_char (lx_skip 1 s) = (ok, s2)"
        by fastforce
      then obtain rs where w: "scans (take ?n (lx_rest s)) [] rs s s2"
        "ok \<longleftrightarrow> in_utf8_class is_utf8_xid_continue_char (lx_rest s)"
        using scans_multibyte[OF Cons] by blast
      have len: "word_length (lx_rest s) = ?n + (if ok then word_length (drop ?n (lx_rest s)) else 0)"
        using multi Cons w(2) by (simp add: word_length_Cons)
      have rest: "lx_rest s2 = drop ?n (lx_rest s)"
      proof -
        have "?n \<le> length (lx_rest s)" by (simp add: utf8_char_length_def Let_def)
        moreover have "lx_rest s = take ?n (lx_rest s) @ lx_rest s2" using w(1) by (simp add: scans_def)
        ultimately show ?thesis by (metis append_take_drop_id same_append_eq)
      qed
      have eq: "consume_word s = (if ok then consume_word s2 else s2)"
        using multi by (subst consume_word.simps) (simp add: peek adv mb[simplified])
      show ?thesis
      proof (cases ok)
        case False
        with w(1) eq len show ?thesis by auto
      next
        case True
        then obtain rs' where "scans (take (word_length (lx_rest s2)) (lx_rest s2)) [] rs' s2 (consume_word s2)"
          using 1(2)[OF refl _ _ _ adv(2)[symmetric] refl mb[unfolded peek[symmetric], symmetric] refl] multi
          unfolding peek by blast
        from scans_trans[OF w(1) this] True eq len rest show ?thesis by (auto simp: take_add)
      qed
    qed
  qed
qed

lemma wordish_word: "wordish (take (word_length xs) xs)"
proof (induction xs rule: word_length.induct)
  case (1 xs)
  show ?case
  proof (cases xs)
    case (Cons c r)
    consider "is_ascii_identifier_char c" | "\<not> is_ascii_identifier_char c" "is_ascii c"
      | (multi) "\<not> is_ascii_identifier_char c" "\<not> is_ascii c" by blast
    then show ?thesis
    proof cases
      case multi
      with Cons utf8_char_length_pos[of xs] obtain n where "word_length xs = Suc n"
        by (cases "word_length xs") (auto simp: word_length_Cons)
      with Cons wordish_non_ascii[OF multi(2)] show ?thesis by simp
    qed (use 1(1) Cons in \<open>simp_all add: word_length_Cons wordish_Cons wordish_def[of "[]"]\<close>)
  qed (simp add: wordish_def)
qed

section \<open>Keyword recognition\<close>

lemma ascii_identifier_not_nul: "is_ascii_identifier_char c \<Longrightarrow> c \<noteq> nul"
  by (auto simp: is_ascii_identifier_char_def less_eq_char_def)

lemma keywords_ascii: "list_all (list_all is_ascii) (map fst keyword_table)"
  unfolding keyword_table_def by (simp add: is_ascii_def)

lemma match_tails_None:
  assumes "\<forall>t \<in> set tails. kt_tail t \<noteq> u"
  shows "match_tails u tails = None"
  using assms by (induction tails) auto

lemma match_tails_non_ascii:
  assumes "get_keyword_tails first = Some tails" "length tail \<le> 8" "c \<in> set tail" "\<not> is_ascii c"
  shows "match_tails (copy_into_u64 tail) tails = None"
proof (rule match_tails_None, rule ballI, rule notI)
  fix t assume "t \<in> set tails" and eq: "kt_tail t = copy_into_u64 tail"
  with assms(1) obtain lexeme k where kw: "(lexeme, k) \<in> set keyword_table" "kt_tail t = copy_into_u64 (tl lexeme)"
    by (auto simp: get_keyword_tails_eq)
  let ?pad = "\<lambda>s. s @ replicate (8 - length s) nul"
  have "length (tl lexeme) \<le> 8" using kw(1) keywords_wf by auto
  from copy_into_u64_pad_inj[OF this assms(2)] eq kw(2) have pad: "?pad (tl lexeme) = ?pad tail" by simp
  have "c \<in> set (?pad tail)" using assms(3) by simp
  then have "c \<in> set (?pad (tl lexeme))" unfolding pad .
  then have "c \<in> set lexeme \<or> c = nul" by (cases lexeme) auto
  moreover have "list_all is_ascii lexeme"
    using keywords_ascii kw(1) by (force simp: list_all_iff)
  moreover have "is_ascii nul" by (simp add: is_ascii_def)
  ultimately show False using assms(4) by (auto simp: list_all_iff)
qed

lemma keyword_kind_ascii: "keyword_kind w = Some k \<Longrightarrow> list_all is_ascii w"
  using keywords_ascii by (force simp: keyword_kind_def list_all_iff dest: map_of_SomeD)

lemma match_tails_word:
  assumes "get_keyword_tails first = Some tails" "length tail \<le> 8" "wordish tail"
  shows "match_tails (copy_into_u64 tail) tails = keyword_kind (first # tail)"
proof (cases "list_all is_ascii_identifier_char tail")
  case True
  then have "nul \<notin> set tail" using ascii_identifier_not_nul by (auto simp: list_all_iff)
  with assms show ?thesis by (intro match_tails_keyword_kind)
next
  case False
  with assms(3) obtain c where c: "c \<in> set tail" "\<not> is_ascii c" by (auto simp: wordish_def)
  then have "keyword_kind (first # tail) = None"
    using keyword_kind_ascii[of "first # tail"] by (cases "keyword_kind (first # tail)") (auto simp: list_all_iff)
  with match_tails_non_ascii[OF assms(1,2) c] show ?thesis by simp
qed

section \<open>The handlers of words\<close>

lemma consume_word_after:
  assumes "lx_rest s = c # r"
  obtains w rs where "scans (c # w) [] rs s (consume_word (lx_skip 1 s))" "wordish w"
    "w = take (word_length r) r"
proof -
  obtain rs where "scans (take (word_length r) r) [] rs (lx_skip 1 s) (consume_word (lx_skip 1 s))"
    using scans_word[of "lx_skip 1 s"] assms by auto
  then have "scans (c # take (word_length r) r) [] rs s (consume_word (lx_skip 1 s))"
    using scans_trans[OF scans_skip[of 1 s]] assms by fastforce
  with wordish_word that show thesis by blast
qed

text \<open>An ASCII letter and what is consumed behind it are the word at that place.\<close>

lemma word_at_Cons:
  assumes "is_ascii_identifier_char c"
  shows "word_at (c # r) = c # take (word_length r) r"
proof -
  have "is_ascii c" using assms by (rule ascii_identifier_ascii)
  then show ?thesis by (simp add: word_at_def utf8_char_length_def ascii_no_leading_ones)
qed

lemma starts_word_Cons:
  "is_ascii_identifier_char c \<Longrightarrow> starts_word (c # r) \<longleftrightarrow> \<not> is_decimal_digit c"
  using ascii_identifier_ascii by (auto simp: starts_word_def)

lemma handles_identifier:
  assumes "scans (c # w) [] rs s s1"
    and "starts_word (lx_rest s)" "word_at (lx_rest s) = c # w"
    and "lx_wf s \<Longrightarrow> keyword_kind (c # w) = None"
  shows "handles s (lx_put (mk_token TK_identifier (lx_offset s) (lx_offset s1 - lx_offset s)) s1)"
  using assms by (intro handles_variable[of "c # w" "[]"])
    (auto simp: lx_offset_pos scans_pos variable_lexeme_length_def)

lemma handles_alphabetic:
  assumes "lx_rest s = c # r" "is_ascii_identifier_char c" "\<not> is_decimal_digit c"
    and "\<And>w. keyword_kind (c # w) = None"
  shows "handles s (on_alphabetic s)"
proof -
  obtain w rs where "scans (c # w) [] rs s (consume_word (lx_skip 1 s))" "w = take (word_length r) r"
    using consume_word_after[OF assms(1)] by blast
  with handles_identifier[OF this(1)] assms show ?thesis
    by (simp add: on_alphabetic_def lx_moves starts_word_Cons word_at_Cons Let_def)
qed

lemma handles_keyword:
  assumes sc: "scans (c # w) [] rs s s1" and "word_at (lx_rest s) = c # w" "keyword_kind (c # w) = Some k"
  shows "handles s (lx_put (mk_token k (lx_offset s) 0) s1)"
proof -
  have k: "fixed_lexeme k = Some (c # w)" using assms(3) keyword_kind_short by blast
  have rest: "lx_rest s = (c # w) @ lx_rest s1" using sc by (simp add: scans_def)
  show ?thesis
  proof (rule handlesI[OF scans_put[OF sc]])
    assume "lx_wf s"
    then have "lx_pos s < 2 ^ 24" using lx_wf_bound[of s] by simp
    then have "covers (mk_token k (lx_offset s) 0) (lx_pos s) (c # w) (lx_rest s1)"
      using k assms(2)[unfolded rest] unfolding lx_offset_pos by (intro covers_fixed) auto
    then show "tiles (emits_comments s \<and> rs = []) (lx_rest (lx_put (mk_token k (lx_offset s) 0) s1))
        (lx_pos s) (c # w) ([] @ [mk_token k (lx_offset s) 0])"
      using tiles_single[of _ "lx_pos s" "c # w" "[]"] by simp
  qed simp
qed

text \<open>The bytes compared with the keywords are the word without its first letter.\<close>

lemma word_tail:
  assumes "scans (c # w) [] rs s s1" "lx_wf s"
  shows "unat (lx_offset s1 - lx_offset s) = Suc (length w)"
    and "substr (lx_source_text s1) (unat (lx_offset s + 1)) (unat (lx_offset s1 - lx_offset s - 1)) = Some w"
proof -
  have rest: "lx_rest s = (c # w) @ lx_rest s1" and src: "lx_source_text s1 = lx_text s"
    using assms by (auto simp: scans_def lx_wf_def)
  have bound: "lx_pos s + Suc (length w) < 2 ^ 24" using lx_wf_bound[OF assms(2)] rest by simp
  have off: "lx_offset s = word_of_nat (lx_pos s)" "lx_offset s1 = word_of_nat (lx_pos s + Suc (length w))"
    using scans_pos[OF assms] by (simp_all add: lx_offset_pos)
  show len: "unat (lx_offset s1 - lx_offset s) = Suc (length w)"
    unfolding off using bound by (subst unat_diff_of_nat_u32) simp_all
  have "lx_offset s1 - lx_offset s - 1 = word_of_nat (length w)" unfolding off by simp
  then have len': "unat (lx_offset s1 - lx_offset s - 1) = length w"
    using bound by (simp add: unat_of_nat_u32)
  have "lx_offset s + 1 = word_of_nat (Suc (lx_pos s))" unfolding off by simp
  then have pos: "unat (lx_offset s + 1) = Suc (lx_pos s)"
    using bound unat_of_nat_u32[of "Suc (lx_pos s)"] by (simp only:) simp
  have "drop (Suc (lx_pos s)) (lx_text s) = drop 1 (lx_rest s)"
    using lx_wf_drop_text[OF assms(2)] by (metis drop_drop plus_1_eq_Suc)
  with rest have "take (length w) (drop (Suc (lx_pos s)) (lx_text s)) = w" by simp
  moreover have "Suc (lx_pos s) \<le> length (lx_text s)"
    using lx_wf_pos_le[OF assms(2)] rest by simp
  ultimately show "substr (lx_source_text s1) (unat (lx_offset s + 1)) (unat (lx_offset s1 - lx_offset s - 1)) = Some w"
    unfolding src pos len' by (simp add: substr_def)
qed

text \<open>
  What the keyword handlers do in a well-formed state: they emit the keyword of the word, if it is
  one, and an identifier otherwise.
\<close>

definition emit_word :: "source_size \<Rightarrow> string \<Rightarrow> lexer \<Rightarrow> lexer" where
  "emit_word offset x s =
     (case keyword_kind x of
        Some kind \<Rightarrow> lx_put (mk_token kind offset 0) s
      | None \<Rightarrow> lx_put (mk_token TK_identifier offset (lx_offset s - offset)) s)"

lemma maybe_keyword_emit_word:
  assumes "lx_wf s" "lx_rest s = c # r" "get_keyword_tails c = Some tails"
    and "scans (c # w) [] rs s (consume_word (lx_skip 1 s))" "wordish w"
  shows "on_alphabetic_maybe_keyword tails s = emit_word (lx_offset s) (c # w) (consume_word (lx_skip 1 s))"
proof (cases "length w \<le> 8")
  case True
  note tl = word_tail[OF assms(4,1)]
  have "lx_offset (consume_word (lx_skip 1 s)) - lx_offset s \<le> 8 + 1"
    using tl(1) True by (simp add: word_le_nat_alt)
  with assms(2) tl(2) match_tails_word[OF assms(3) True assms(5)] show ?thesis
    by (simp add: on_alphabetic_maybe_keyword_def emit_word_def lx_moves Let_def)
next
  case False
  note tl = word_tail[OF assms(4,1)]
  have "\<not> lx_offset (consume_word (lx_skip 1 s)) - lx_offset s \<le> 8 + 1"
    using tl(1) False by (simp add: word_le_nat_alt)
  moreover have "keyword_kind (c # w) = None"
    using False keyword_kind_short[of "c # w"] by (cases "keyword_kind (c # w)") auto
  ultimately show ?thesis
    using assms(2) by (simp add: on_alphabetic_maybe_keyword_def emit_word_def lx_moves Let_def)
qed

lemma handles_emit_word:
  assumes "scans (c # w) [] rs s s1" "starts_word (lx_rest s)" "word_at (lx_rest s) = c # w"
  shows "handles s (emit_word (lx_offset s) (c # w) s1)"
  using assms handles_keyword[OF assms(1)] handles_identifier[OF assms(1)]
  by (simp add: emit_word_def split: option.splits)

lemma handles_maybe_keyword:
  assumes "lx_rest s = c # r" "is_ascii_identifier_char c" "\<not> is_decimal_digit c"
    and "get_keyword_tails c = Some tails"
  shows "handles s (on_alphabetic_maybe_keyword tails s)"
proof -
  obtain w rs where w: "scans (c # w) [] rs s (consume_word (lx_skip 1 s))" "wordish w"
    "w = take (word_length r) r"
    using consume_word_after[OF assms(1)] by blast
  let ?s1 = "consume_word (lx_skip 1 s)"
  show ?thesis
  proof (cases "lx_wf s")
    case True
    from maybe_keyword_emit_word[OF True assms(1,4) w(1,2)] handles_emit_word[OF w(1)] assms w(3)
    show ?thesis by (simp add: starts_word_Cons word_at_Cons)
  next
    case False
    let ?h = "on_alphabetic_maybe_keyword tails s"
    have "?h = ?s1\<lparr>lx_fault := True\<rparr> \<or> (\<exists>t. ?h = lx_put t ?s1)"
      using assms(1) by (auto simp: on_alphabetic_maybe_keyword_def lx_moves Let_def split: option.splits)
    then have "\<exists>ts. scans (c # w) ts rs s ?h"
      using w(1) False scans_put[OF w(1)] by (auto simp: scans_def)
    with False show ?thesis by (auto simp: handles_def)
  qed
qed

lemma keyword_kind_no_tails:
  assumes "get_keyword_tails c = Some []"
  shows "keyword_kind (c # w) = None"
proof (cases "keyword_kind (c # w)")
  case (Some k)
  then have "(c # w, k) \<in> set keyword_table" by (simp add: keyword_kind_def map_of_SomeD)
  with assms show ?thesis by (force simp: get_keyword_tails_eq filter_empty_conv)
qed

lemma handles_keyword_handler:
  assumes "lx_rest s = c # r" "is_ascii_identifier_char c" "\<not> is_decimal_digit c"
  shows "handles s (keyword_handler c s)"
proof -
  obtain tails where tails: "get_keyword_tails c = Some tails" by (simp add: get_keyword_tails_eq)
  with assms handles_alphabetic[OF assms] handles_maybe_keyword[OF assms tails] keyword_kind_no_tails[of c]
  show ?thesis by (simp add: keyword_handler_def)
qed

lemma handles_other_char:
  assumes "lx_rest s = c # r" "is_ascii c \<longrightarrow> countl_one (of_char c) = 0"
  shows "handles s (on_other_char c s)"
proof -
  obtain ok s1 where mb:
    "consume_multibyte_utf8_char c (lx_offset s) is_utf8_xid_start_char (lx_skip 1 s) = (ok, s1)" by fastforce
  let ?n = "utf8_char_length (lx_rest s)"
  obtain rs where sc: "scans (take ?n (lx_rest s)) [] rs s s1" "ok \<longleftrightarrow> in_utf8_class is_utf8_xid_start_char (lx_rest s)"
    "lx_wf s \<longrightarrow> (ok \<longleftrightarrow> rs = [])"
    using scans_multibyte[OF assms(1) mb] by blast
  have pos: "0 < ?n" using utf8_char_length_pos[of "lx_rest s"] assms(1) by simp
  show ?thesis
  proof (cases ok)
    case False
    with mb assms(1) have "on_other_char c s = s1"
      by (simp add: on_other_char_def lx_moves Let_def)
    moreover have "handles s s1"
      using False sc(3) pos assms(1) by (intro handlesI[OF sc(1)]) (auto simp: gap_ok_def)
    ultimately show ?thesis by simp
  next
    case True
    have non_ascii: "\<not> is_ascii c"
      using True sc(2) assms by (auto simp: in_utf8_class_def Let_def)
    obtain rs' where w: "scans (take (word_length (lx_rest s1)) (lx_rest s1)) [] rs' s1 (consume_word s1)"
      using scans_word by blast
    have "lx_rest s1 = drop ?n (lx_rest s)"
      using sc(1) by (metis append_take_drop_id same_append_eq scans_def)
    with scans_trans[OF sc(1) w] have sc': "scans (word_at (lx_rest s)) [] (rs @ rs') s (consume_word s1)"
      by (simp add: word_at_def take_add Let_def)
    obtain v where v: "word_at (lx_rest s) = c # v"
      using assms(1) pos by (cases ?n) (auto simp: word_at_def Let_def)
    have "keyword_kind (c # v) = None"
      using non_ascii keyword_kind_ascii[of "c # v"] by (cases "keyword_kind (c # v)") auto
    moreover have "starts_word (lx_rest s)" using sc(2) True non_ascii assms(1) by (simp add: starts_word_def)
    ultimately show ?thesis
      using handles_identifier[OF sc'[unfolded v]] v mb True assms(1)
      by (simp add: on_other_char_def lx_moves Let_def)
  qed
qed

text \<open>
  A word that runs into a byte that starts no character takes this byte along: it is reported, and
  the word ends behind it.
\<close>

lemma consume_word_takes_rejected_byte:
  assumes "lx_peek s = c" "\<not> is_ascii c" "\<not> is_ascii_identifier_char c" "countl_one (of_char c) \<notin> {2, 3, 4}"
  shows "consume_word s = lexer_report invalid_character (lx_offset s)
    [Arg_int (unat (ucast (of_char c :: u8) :: u32))] (lx_advance s)"
proof -
  have "c \<noteq> nul" using assms(2) by (auto simp: is_ascii_def)
  moreover have "\<not> (2 \<le> countl_one (of_char c) \<and> countl_one (of_char c) \<le> 4)" using assms(4) by auto
  ultimately show ?thesis
    using assms(1-3) by (subst consume_word.simps)
      (auto simp: get_offset_and_advance_def consume_multibyte_utf8_char_def Let_def)
qed

end
