(* ===== verification/Lexer_Run.thy ===== *)
theory Lexer_Run
  imports Lexer_Words
begin

text \<open>
  The main loop of the lexer and \<open>run_lexer\<close>. The loop terminates because every character handler
  consumes at least the character it is called for.
\<close>

section \<open>Every character is handled\<close>

lemma handles_whitespace:
  assumes "lx_rest s = c # r" "is_ascii_whitespace c"
  shows "handles s (lx_advance s)"
proof (rule handlesI)
  show "scans [c] [] [] s (lx_advance s)"
    using scans_skip[of 1 s] assms(1) by (simp add: lx_advance_skip)
qed (use assms in \<open>auto simp: gap_ok_def\<close>)

lemma letter_lists:
  "list_all (\<lambda>c. is_ascii_identifier_char c \<and> \<not> is_decimal_digit c \<and> c \<notin> set ''abcdefghijklmnopqrstuvwxyz'')
    ''ABCDEFGHIJKLMNOPQRSTUVWXYZ_''"
  "list_all (\<lambda>c. is_ascii_identifier_char c \<and> \<not> is_decimal_digit c) ''abcdefghijklmnopqrstuvwxyz''"
  "list_all (\<lambda>c. is_decimal_digit c \<and> c \<noteq> CHR ''0'') ''123456789''"
  "list_all is_ascii_whitespace [CHR '' '', CHR 0x09, CHR 0x0A, CHR 0x0B, CHR 0x0C, CHR 0x0D]"
  by code_simp+

lemmas letter_classes = letter_lists[unfolded list_all_iff, rule_format]

lemma handles_letters:
  assumes "lx_rest s = c # r"
  shows "c \<in> {CHR '' '', CHR 0x09, CHR 0x0A, CHR 0x0B, CHR 0x0C, CHR 0x0D} \<Longrightarrow> handles s (lx_advance s)"
    and "c \<in> set ''ABCDEFGHIJKLMNOPQRSTUVWXYZ_'' \<Longrightarrow> handles s (on_alphabetic s)"
    and "c \<in> set ''abcdefghijklmnopqrstuvwxyz'' \<Longrightarrow> handles s (keyword_handler c s)"
    and "c \<in> set ''123456789'' \<Longrightarrow> handles s (on_nonzero s)"
proof -
  assume "c \<in> {CHR '' '', CHR 0x09, CHR 0x0A, CHR 0x0B, CHR 0x0C, CHR 0x0D}"
  then have "is_ascii_whitespace c" by (intro letter_classes(4)) simp
  then show "handles s (lx_advance s)" by (rule handles_whitespace[OF assms])
next
  assume "c \<in> set ''ABCDEFGHIJKLMNOPQRSTUVWXYZ_''"
  from letter_classes(1)[OF this] show "handles s (on_alphabetic s)"
    by (intro handles_alphabetic[OF assms] keyword_kind_first) blast+
next
  assume "c \<in> set ''abcdefghijklmnopqrstuvwxyz''"
  from letter_classes(2)[OF this] show "handles s (keyword_handler c s)"
    by (intro handles_keyword_handler[OF assms]) blast+
next
  assume "c \<in> set ''123456789''"
  from letter_classes(3)[OF this] show "handles s (on_nonzero s)"
    by (intro handles_nonzero[OF assms]) blast+
qed

lemma handles_if: "(b \<Longrightarrow> handles s t) \<Longrightarrow> handles s u \<Longrightarrow> handles s (if b then t else u)"
  by simp

lemmas handles_symbols =
  handles_operators handles_right_angle handles_dot handles_slash handles_zero handles_one_char handles_quote

lemma handle_next_character_handles:
  assumes "lx_rest s = c # r"
  shows "handles s (handle_next_character c s)"
  unfolding handle_next_character_def
  by (intro handles_if handles_letters[OF assms] handles_other_char[OF assms];
      (assumption | (use assms in \<open>auto intro: handles_symbols simp: ascii_no_leading_ones\<close>)))

section \<open>The main loop\<close>

function handle_source_loop :: "lexer \<Rightarrow> lexer" where
  "handle_source_loop s =
     (let c = lx_peek s in
      if c = nul then s else handle_source_loop (handle_next_character c s))"
  by pat_completeness auto
termination
proof (relation "measure (\<lambda>s. length (lx_rest s))", goal_cases)
  case (2 s c)
  then obtain r where "lx_rest s = c # r" by (auto elim: lx_peek_not_nul)
  from handles_progress[OF handle_next_character_handles[OF this]] show ?case by simp
qed simp

declare handle_source_loop.simps [simp del]

definition handle_source :: "lexer \<Rightarrow> lexer" where
  "handle_source s =
     (let s = handle_source_loop s
      in if lx_valid s then lexer_report invalid_character (lx_offset s) [Arg_int 0] s else s)"

definition lexer_run :: "lexer \<Rightarrow> lexer" where
  "lexer_run s =
     (let s = (if length (lx_source_text s) \<le> unat source_size_max then handle_source s
               else s\<lparr>lx_reporter := lx_reporter s @
                 [\<lparr>rep_location = \<lparr>loc_path = get_path (lx_source s), loc_line = 0, loc_column = 0\<rparr>,
                   rep_message = source_file_too_large,
                   rep_args = [Arg_int (unat source_size_max)]\<rparr>]\<rparr>)
      in lx_put (mk_token TK_end_of_file (lx_offset s) 0) s)"

text \<open>
  The tokens and the reports, in their order, of lexing a source; \<^const>\<open>None\<close> if the program would
  have stopped on the way.
\<close>

definition run_lexer ::
    "source_view \<Rightarrow> report_call list \<Rightarrow> lexer_flags \<Rightarrow> u8 \<Rightarrow> (token_list \<times> report_call list) option" where
  "run_lexer v reporter flags tab_size =
     (let s = lexer_run (lexer_init v reporter flags tab_size)
      in if lx_fault s then None else Some (lx_tokens s, lx_reporter s))"

end
