(* ===== verification/Lexer_Correct.thy ===== *)
theory Lexer_Correct
  imports Lexer_Run
begin

text \<open>
  What lexing a whole source gives: the token list is a tiling of the text that was read, closed by
  the only end-of-file token; every token's text is the part of the source it covers; every report
  has the arguments its message needs; the program stops nowhere on the way.
\<close>

section \<open>The main loop\<close>

definition loops :: "lexer \<Rightarrow> lexer \<Rightarrow> bool" where
  "loops s s' \<longleftrightarrow>
     (\<exists>w ts rs. scans w ts rs s s' \<and>
        (lx_wf s \<longrightarrow> tiles (emits_comments s \<and> rs = []) (lx_rest s') (lx_pos s) w ts))"

lemma loops_refl: "loops s s"
  unfolding loops_def by (intro exI[of _ "[]"]) simp

lemma handles_loops: "handles s s' \<Longrightarrow> loops s s'"
  by (auto simp: handles_def loops_def)

lemma loops_trans:
  assumes "loops s s'" "loops s' s''"
  shows "loops s s''"
proof -
  obtain w ts rs where 1: "scans w ts rs s s'"
    "lx_wf s \<longrightarrow> tiles (emits_comments s \<and> rs = []) (lx_rest s') (lx_pos s) w ts" using assms(1) by (auto simp: loops_def)
  obtain v us qs where 2: "scans v us qs s' s''"
    "lx_wf s' \<longrightarrow> tiles (emits_comments s' \<and> qs = []) (lx_rest s'') (lx_pos s') v us" using assms(2) by (auto simp: loops_def)
  have "tiles (emits_comments s \<and> rs @ qs = []) (lx_rest s'') (lx_pos s) (w @ v) (ts @ us)" if wf: "lx_wf s"
  proof (rule tiles_append)
    have "lx_rest s' = v @ lx_rest s''" using 2(1) by (simp add: scans_def)
    then show "tiles (emits_comments s \<and> rs @ qs = []) (v @ lx_rest s'') (lx_pos s) w ts"
      using 1(2) wf by (auto elim: tiles_mono)
    have "emits_comments s' = emits_comments s" using 1(1) by (simp add: emits_comments_def scans_def)
    then show "tiles (emits_comments s \<and> rs @ qs = []) (lx_rest s'') (lx_pos s + length w) v us"
      using 2(2) scans_wf[OF 1(1) wf] scans_pos[OF 1(1) wf] by (auto elim: tiles_mono)
  qed
  with scans_trans[OF 1(1) 2(1)] show ?thesis unfolding loops_def by blast
qed

lemma handle_source_loop_loops: "loops s (handle_source_loop s) \<and> lx_peek (handle_source_loop s) = nul"
proof (induction s rule: handle_source_loop.induct)
  case (1 s)
  show ?case
  proof (cases "lx_peek s = nul")
    case True
    then have "handle_source_loop s = s" by (subst handle_source_loop.simps) simp
    with True loops_refl show ?thesis by simp
  next
    case False
    then obtain r where "lx_rest s = lx_peek s # r" by (rule lx_peek_not_nul)
    from handles_loops[OF handle_next_character_handles[OF this]] 1[OF refl False]
    have "loops s (handle_source_loop (handle_next_character (lx_peek s) s))" using loops_trans by blast
    with 1[OF refl False] False show ?thesis
      by (subst (1 2) handle_source_loop.simps) (simp add: Let_def)
  qed
qed

lemma lx_wf_init:
  "length (get_text v) \<le> unat source_size_max \<Longrightarrow> lx_wf (lexer_init v reporter flags tab_size)"
  by (simp add: lx_wf_def lexer_init_def sc_init_def)

lemma lx_init_sel [simp]:
  "lx_rest (lexer_init v reporter flags tab_size) = get_text v"
  "lx_pos (lexer_init v reporter flags tab_size) = 0"
  "lx_tokens (lexer_init v reporter flags tab_size) = []"
  "lx_reporter (lexer_init v reporter flags tab_size) = reporter"
  "lx_source_text (lexer_init v reporter flags tab_size) = get_text v"
  "lx_source (lexer_init v reporter flags tab_size) = v"
  "lx_fault (lexer_init v reporter flags tab_size) = False"
  "emits_comments (lexer_init v reporter flags tab_size) = has_flags flags flags_emit_comments"
  by (simp_all add: lexer_init_def sc_init_def lx_pos_def emits_comments_def)

text \<open>
  What \<open>handle_source\<close> leaves: everything is read, or the rest starts with a null character, which
  is reported.
\<close>

lemma handle_source_result:
  assumes "lx_wf s"
  obtains w ts rs where "scans w ts rs s (handle_source s)"
    "tiles (emits_comments s \<and> rs = []) (lx_rest (handle_source s)) (lx_pos s) w ts"
    "lx_rest (handle_source s) = [] \<or> hd (lx_rest (handle_source s)) = nul \<and> rs \<noteq> []"
proof -
  let ?s1 = "handle_source_loop s"
  obtain w ts rs where 1: "scans w ts rs s ?s1"
    "tiles (emits_comments s \<and> rs = []) (lx_rest ?s1) (lx_pos s) w ts"
    using handle_source_loop_loops[of s] assms by (auto simp: loops_def)
  show thesis
  proof (cases "lx_rest ?s1")
    case Nil
    with 1 that[of w ts rs] show thesis by (simp add: handle_source_def lx_valid_length)
  next
    case (Cons c r)
    have "valid_for_message [Arg_int 0] invalid_character"
      by (simp add: valid_for_message_arity message_arity_def)
    from scans_report[OF this, of ?s1 "lx_offset ?s1"] scans_wf[OF 1(1) assms]
    obtain qs where 2: "scans [] [] qs ?s1 (lexer_report invalid_character (lx_offset ?s1) [Arg_int 0] ?s1)" "qs \<noteq> []"
      by blast
    have eq: "handle_source s = lexer_report invalid_character (lx_offset ?s1) [Arg_int 0] ?s1"
      using Cons by (simp add: handle_source_def lx_valid_length Let_def)
    have "lx_peek ?s1 = nul" using handle_source_loop_loops[of s] by blast
    with Cons have "c = nul" by simp
    moreover have "scans w ts (rs @ qs) s (handle_source s)"
      using scans_trans[OF 1(1) 2(1)] eq by simp
    moreover have "tiles (emits_comments s \<and> rs @ qs = []) (lx_rest (handle_source s)) (lx_pos s) w ts"
      using 1(2) eq by (auto elim: tiles_mono)
    ultimately show thesis using that[of w ts "rs @ qs"] 2(2) Cons eq by simp
  qed
qed

section \<open>The whole run\<close>

definition lex_result ::
    "source_view \<Rightarrow> lexer_flags \<Rightarrow> token list \<Rightarrow> report_call list \<Rightarrow> string \<Rightarrow> string \<Rightarrow> bool" where
  "lex_result v flags ts rs w r \<longleftrightarrow>
     get_text v = w @ r \<and> tiles (has_flags flags flags_emit_comments \<and> rs = []) r 0 w ts \<and>
     (r = [] \<or> hd r = nul \<and> rs \<noteq> []) \<and> list_all report_valid rs"

lemma run_lexer_result:
  assumes "length (get_text v) \<le> unat source_size_max"
  obtains ts rs w r where
    "run_lexer v reporter flags tab_size =
       Some (ts @ [mk_token TK_end_of_file (word_of_nat (length w)) 0], reporter @ rs)"
    "lex_result v flags ts rs w r"
proof -
  let ?s = "lexer_init v reporter flags tab_size"
  obtain w ts rs where 1: "scans w ts rs ?s (handle_source ?s)"
    "tiles (emits_comments ?s \<and> rs = []) (lx_rest (handle_source ?s)) (lx_pos ?s) w ts"
    "lx_rest (handle_source ?s) = [] \<or> hd (lx_rest (handle_source ?s)) = nul \<and> rs \<noteq> []"
    by (rule handle_source_result[OF lx_wf_init[OF assms]])
  have "lx_offset (handle_source ?s) = word_of_nat (length w)"
    using scans_pos[OF 1(1) lx_wf_init[OF assms]] by (simp add: lx_offset_pos)
  moreover have "\<not> lx_fault (handle_source ?s)" "lx_tokens (handle_source ?s) = ts"
    "lx_reporter (handle_source ?s) = reporter @ rs"
    "get_text v = w @ lx_rest (handle_source ?s)" "list_all report_valid rs"
    using 1(1) lx_wf_init[OF assms] by (auto simp: scans_def)
  ultimately show thesis
    using that[of ts w rs "lx_rest (handle_source ?s)"] 1(2,3) assms
    by (simp add: run_lexer_def lexer_run_def lex_result_def Let_def)
qed

lemma run_lexer_too_large:
  assumes "unat source_size_max < length (get_text v)"
  shows "run_lexer v reporter flags tab_size =
    Some ([mk_token TK_end_of_file 0 0],
      reporter @ [\<lparr>rep_location = \<lparr>loc_path = get_path v, loc_line = 0, loc_column = 0\<rparr>,
        rep_message = source_file_too_large, rep_args = [Arg_int (unat source_size_max)]\<rparr>])"
  using assms by (simp add: run_lexer_def lexer_run_def lx_offset_def sc_offset_def lexer_init_def
      sc_init_def token_list_put_def lx_put_def Let_def)

section \<open>Consequences of tiling\<close>

lemma covers_tok_length: "covers t pos x r \<Longrightarrow> tok_start t = pos \<and> tok_length t = length x \<and> tok_end t = pos + length x"
  by (auto simp: covers_def tok_length_def tok_end_def lexeme_length_def split: option.splits if_splits)

lemma tiles_not_eof: "tiles strict r pos w ts \<Longrightarrow> t \<in> set ts \<Longrightarrow> tok_kind t \<noteq> TK_end_of_file"
  by (induction rule: tiles.induct) (auto simp: covers_def lexeme_length_def split: if_splits)

text \<open>Tokens come in the order of the source and do not overlap.\<close>

lemma tiles_bounds:
  "tiles strict r pos w ts \<Longrightarrow> t \<in> set ts \<Longrightarrow> pos \<le> tok_start t \<and> tok_start t < tok_end t \<and> tok_end t \<le> pos + length w"
proof (induction rule: tiles.induct)
  case (tiles_token g u pos x w ts)
  note c = covers_tok_length[OF tiles_token.hyps(2)]
  have "x \<noteq> []" using tiles_token.hyps(2) by (simp add: covers_def)
  show ?case
  proof (cases "t = u")
    case True
    with c \<open>x \<noteq> []\<close> show ?thesis by simp
  next
    case False
    with tiles_token show ?thesis by auto
  qed
qed simp

lemma tiles_sorted: "tiles strict r pos w ts \<Longrightarrow> sorted_wrt (\<lambda>t u. tok_end t \<le> tok_start u) ts"
proof (induction rule: tiles.induct)
  case (tiles_token g t pos x w ts)
  have "tok_end t \<le> tok_start u" if "u \<in> set ts" for u
    using covers_tok_length[OF tiles_token.hyps(2)] tiles_bounds[OF tiles_token.hyps(3) that] by simp
  with tiles_token.IH show ?case by simp
qed simp

text \<open>Each token fits the text, and covers exactly the lexeme of its kind that stands at its place.\<close>

lemma tiles_tok_ok:
  assumes "tiles strict r pos w ts" "t \<in> set ts" "length p = pos"
  shows "tok_ok (p @ w @ r) t \<and>
    lexeme_length (tok_kind t) (drop (tok_start t) (p @ w @ r)) = Some (tok_end t - tok_start t)"
  using assms
proof (induction arbitrary: p rule: tiles.induct)
  case (tiles_token g u pos x w ts)
  show ?case
  proof (cases "t = u")
    case True
    note c = covers_tok_length[OF tiles_token.hyps(2)]
    have seg: "segment (tok_start t) (tok_end t) (p @ (g @ x @ w) @ r) = x"
      using c tiles_token.prems(2) True by (simp add: segment_def)
    have "tok_end t \<le> length (p @ (g @ x @ w) @ r)" using c True tiles_token.prems(2) by simp
    moreover have "drop (tok_start t) (p @ (g @ x @ w) @ r) = x @ w @ r"
      using c True tiles_token.prems(2) by simp
    ultimately show ?thesis
      using seg c tiles_token.hyps(2) True
      by (auto simp: tok_ok_def covers_def lexeme_length_def word_less_nat_alt unat_eq_0 prefix_def
          split: option.splits if_splits)
  next
    case False
    with tiles_token.prems tiles_token.IH[of "p @ g @ x"] show ?thesis by simp
  qed
qed simp

text \<open>In a strict tiling, a position that no token covers holds white space.\<close>

lemma tiles_strict_gap:
  assumes "tiles True r pos w ts" "i < length w" "\<And>t. t \<in> set ts \<Longrightarrow> \<not> (tok_start t \<le> pos + i \<and> pos + i < tok_end t)"
  shows "is_ascii_whitespace (w ! i)"
  using assms
proof (induction arbitrary: i rule: tiles.induct)
  case (tiles_gap g pos)
  then show ?case by (auto simp: gap_ok_def list_all_length)
next
  case (tiles_token g t pos x w ts)
  note c = covers_tok_length[OF tiles_token.hyps(2)]
  have "i < length g \<or> length g + length x \<le> i"
    using tiles_token.prems(2)[of t] c by auto
  then show ?case
  proof
    assume "i < length g"
    with tiles_token.hyps(1) show ?thesis by (auto simp: gap_ok_def list_all_length nth_append)
  next
    assume i: "length g + length x \<le> i"
    define j where "j = i - (length g + length x)"
    have "is_ascii_whitespace (w ! j)"
      using tiles_token.prems i by (intro tiles_token.IH) (auto simp: j_def)
    moreover have "(g @ x @ w) ! i = w ! j" using i by (auto simp: j_def nth_append)
    ultimately show ?thesis by simp
  qed
qed

section \<open>Maximal munch\<close>

text \<open>
  The operators and punctuation marks of \<open>token.hh\<close>, longest first among those that share a first
  character. \<open>>>\<close> is not one: it is always two tokens, so that nested generic argument lists close.
\<close>

definition operator_table :: "(string \<times> token_kind) list" where
  "operator_table =
     [(''('', TK_l_paren), ('')'', TK_r_paren), (''['', TK_l_bracket), ('']'', TK_r_bracket),
      (''{'', TK_l_brace), (''}'', TK_r_brace), ('','', TK_comma), ('';'', TK_semicolon), (''^'', TK_caret),
      (''<<='', TK_l_angle_angle_eq), (''<<'', TK_l_angle_angle), (''<='', TK_l_angle_eq), (''<'', TK_l_angle),
      (''>>='', TK_r_angle_angle_eq), (''>='', TK_r_angle_eq), (''>'', TK_r_angle),
      (''::'', TK_colon_colon), ('':'', TK_colon),
      (''=='', TK_eq_eq), (''=>'', TK_thick_arrow), (''='', TK_eq),
      (''++'', TK_plus_plus), (''+='', TK_plus_eq), (''+'', TK_plus),
      (''->'', TK_thin_arrow), (''--'', TK_minus_minus), (''-='', TK_minus_eq), (''-'', TK_minus),
      (''*='', TK_star_eq), (''*'', TK_star), (''.'', TK_dot), (''/='', TK_slash_eq), (''/'', TK_slash), (''%='', TK_percent_eq), (''%'', TK_percent),
      (''&&='', TK_and_and_eq), (''&&'', TK_and_and), (''&='', TK_ampersand_eq), (''&'', TK_ampersand),
      (''||='', TK_pipe_pipe_eq), (''||'', TK_pipe_pipe), (''|='', TK_pipe_eq), (''|'', TK_pipe),
      (''~='', TK_tilde_eq), (''~'', TK_tilde), (''!='', TK_bang_eq), (''!'', TK_bang)]"

text \<open>Every fixed-length token that is neither a keyword nor the end of the file is in this table.\<close>

lemma operator_table_complete:
  assumes "fixed_lexeme k = Some l" "keyword_kind l = None" "k \<noteq> TK_end_of_file"
  shows "(l, k) \<in> set operator_table"
  using assms unfolding keyword_kind_def keyword_table_def operator_table_def
  by (cases k) (simp_all, (hypsubst, simp)+)

text \<open>The longest operator that a text starts with, with its kind.\<close>

definition longest_operator :: "string \<Rightarrow> (string \<times> token_kind) option" where
  "longest_operator xs = find (\<lambda>(l, k). prefix l xs) operator_table"

lemma operator_lexemes: "\<forall>(l, k) \<in> set operator_table. fixed_lexeme k = Some l"
  unfolding operator_table_def by simp

lemma longest_operator_in:
  assumes "longest_operator xs = Some (l, k)"
  shows "(l, k) \<in> set operator_table \<and> prefix l xs"
proof -
  from assms obtain i where "i < length operator_table" "operator_table ! i = (l, k)" "prefix l xs"
    by (auto simp: longest_operator_def find_Some_iff)
  then show ?thesis using nth_mem[of i operator_table] by simp
qed

lemma longest_operator_longest:
  assumes "longest_operator xs = Some (l, k)" "(l', k') \<in> set operator_table" "prefix l' xs"
  shows "length l' \<le> length l"
proof -
  have ordered: "sorted_wrt (\<lambda>(l, k) (l', k'). hd l = hd l' \<longrightarrow> length l' \<le> length l) operator_table"
    unfolding operator_table_def by simp
  have ne: "\<forall>(l, k) \<in> set operator_table. l \<noteq> []" unfolding operator_table_def by simp
  obtain n where n: "n < length operator_table" "operator_table ! n = (l, k)" "prefix l xs"
    "\<forall>j<n. \<not> (\<lambda>(l, k). prefix l xs) (operator_table ! j)"
    using assms(1) by (auto simp: longest_operator_def find_Some_iff)
  obtain m where m: "m < length operator_table" "operator_table ! m = (l', k')"
    using assms(2) by (metis in_set_conv_nth)
  with n assms(3) have "n \<le> m" by (metis (mono_tags, lifting) case_prod_conv not_le_imp_less)
  moreover have "hd l = hd l'"
    using ne n(1,2) m assms(3) n(3) nth_mem[OF n(1)] nth_mem[OF m(1)] by (cases l; cases l') (auto simp: prefix_def)
  ultimately show ?thesis
    using sorted_wrt_nth_less[OF ordered, of n m] n(1,2) m by (cases "n = m") auto
qed

definition put_operator :: "lexer \<Rightarrow> lexer" where
  "put_operator s =
     (case longest_operator (lx_rest s) of
        Some (l, k) \<Rightarrow> lx_put (mk_token k (lx_offset s) 0) (lx_skip (length l) s)
      | None \<Rightarrow> s)"

lemma prefix_take:
  "prefix [x] r \<longleftrightarrow> take (Suc 0) r = [x]"
  "prefix [x, y] r \<longleftrightarrow> take (Suc 0) r = [x] \<and> take (Suc 0) (drop (Suc 0) r) = [y]"
  by (cases r; cases "tl r"; auto)+

lemmas put_operator_defs =
  handle_next_character_def put_operator_def longest_operator_def operator_table_def operator_defs on_slash_def

lemma put_operators:
  "lx_rest s = CHR ''('' # r \<Longrightarrow> handle_next_character CHR ''('' s = put_operator s"
  "lx_rest s = CHR '')'' # r \<Longrightarrow> handle_next_character CHR '')'' s = put_operator s"
  "lx_rest s = CHR ''['' # r \<Longrightarrow> handle_next_character CHR ''['' s = put_operator s"
  "lx_rest s = CHR '']'' # r \<Longrightarrow> handle_next_character CHR '']'' s = put_operator s"
  "lx_rest s = CHR ''{'' # r \<Longrightarrow> handle_next_character CHR ''{'' s = put_operator s"
  "lx_rest s = CHR ''}'' # r \<Longrightarrow> handle_next_character CHR ''}'' s = put_operator s"
  "lx_rest s = CHR '','' # r \<Longrightarrow> handle_next_character CHR '','' s = put_operator s"
  "lx_rest s = CHR '';'' # r \<Longrightarrow> handle_next_character CHR '';'' s = put_operator s"
  "lx_rest s = CHR ''^'' # r \<Longrightarrow> handle_next_character CHR ''^'' s = put_operator s"
  "lx_rest s = CHR ''<'' # r \<Longrightarrow> handle_next_character CHR ''<'' s = put_operator s"
  "lx_rest s = CHR '':'' # r \<Longrightarrow> handle_next_character CHR '':'' s = put_operator s"
  "lx_rest s = CHR ''='' # r \<Longrightarrow> handle_next_character CHR ''='' s = put_operator s"
  "lx_rest s = CHR ''+'' # r \<Longrightarrow> handle_next_character CHR ''+'' s = put_operator s"
  "lx_rest s = CHR ''-'' # r \<Longrightarrow> handle_next_character CHR ''-'' s = put_operator s"
  "lx_rest s = CHR ''*'' # r \<Longrightarrow> handle_next_character CHR ''*'' s = put_operator s"
  "lx_rest s = CHR ''%'' # r \<Longrightarrow> handle_next_character CHR ''%'' s = put_operator s"
  "lx_rest s = CHR ''&'' # r \<Longrightarrow> handle_next_character CHR ''&'' s = put_operator s"
  "lx_rest s = CHR ''|'' # r \<Longrightarrow> handle_next_character CHR ''|'' s = put_operator s"
  "lx_rest s = CHR ''~'' # r \<Longrightarrow> handle_next_character CHR ''~'' s = put_operator s"
  "lx_rest s = CHR ''!'' # r \<Longrightarrow> handle_next_character CHR ''!'' s = put_operator s"
  "lx_rest s = CHR ''/'' # r \<Longrightarrow> \<not> prefix ''/'' r \<Longrightarrow> \<not> prefix ''*'' r \<Longrightarrow> handle_next_character CHR ''/'' s = put_operator s"
  by (simp add: put_operator_defs lx_moves prefix_take Let_def)+

lemma put_right_angle:
  assumes "lx_rest s = CHR ''>'' # r" "\<not> prefix ''>'' r \<or> prefix ''>='' r"
  shows "handle_next_character CHR ''>'' s = put_operator s"
  using assms by (auto simp: put_operator_defs lx_moves prefix_take Let_def)

lemma takeWhile_narrower:
  assumes "\<forall>c \<in> set (takeWhile P r). Q c" "\<forall>c. Q c \<longrightarrow> P c"
  shows "takeWhile P r = takeWhile Q r"
  using assms(1)
proof (induction r)
  case (Cons c r)
  show ?case
  proof (cases "P c")
    case True
    with Cons.prems have "Q c" "\<forall>c \<in> set (takeWhile P r). Q c" by simp_all
    from Cons.IH[OF this(2)] True this(1) show ?thesis by (simp only: takeWhile.simps if_True)
  next
    case False
    with assms(2) show ?thesis by auto
  qed
qed simp

text \<open>A dot that no fraction follows is skipped together with the white space behind it.\<close>

lemma digit_run_no_fraction:
  assumes "\<not> fraction_at (CHR ''.'' # r)"
  shows "digits_at is_decimal_digit r = []" "digit_run is_decimal_digit r = takeWhile is_ascii_whitespace r"
proof -
  show no: "digits_at is_decimal_digit r = []" using assms by (simp add: fraction_at_def)
  then have "digit_run is_decimal_digit r = trailing_space (digit_run is_decimal_digit r)"
    using rstrip_split[of "digit_run is_decimal_digit r"] by simp
  then have blank: "\<forall>c \<in> set (digit_run is_decimal_digit r). is_ascii_whitespace c"
    using trailing_space_blank[of "digit_run is_decimal_digit r"] by (simp add: list_all_iff)
  then show "digit_run is_decimal_digit r = takeWhile is_ascii_whitespace r"
    by (rule takeWhile_narrower) simp
qed

lemma munch_dot:
  assumes "lx_wf s" "lx_rest s = CHR ''.'' # r" "\<not> fraction_at (lx_rest s)"
  shows "handle_next_character CHR ''.'' s =
    lx_put (mk_token TK_dot (lx_offset s) 0) (lx_skip (Suc (length (takeWhile is_ascii_whitespace r))) s)"
proof -
  obtain len s' where cds: "consume_digit_sequence is_decimal_digit (lx_offset s) (lx_skip 1 s) = (len, s')"
    by fastforce
  note no = digit_run_no_fraction[OF assms(3)[unfolded assms(2)]]
  have "\<not> 1 < len" using length_after_dot(2)[OF assms(1,2) cds] no(1) by simp
  moreover have "s' = lx_skip (Suc (length (takeWhile is_ascii_whitespace r))) s"
    using cds assms(2) no(2) by (simp add: consume_digit_sequence_eq digit_classes)
  ultimately show ?thesis
    using assms(2) cds by (simp add: handle_next_character_def on_dot_def lx_moves)
qed

lemma maximal_munch:
  assumes "longest_operator (lx_rest s) = Some (l, k)" "\<not> (prefix ''>>'' (lx_rest s) \<and> k = TK_r_angle)"
    and "\<not> prefix ''//'' (lx_rest s)" "\<not> prefix ''/*'' (lx_rest s)" "\<not> prefix ''.'' (lx_rest s)"
  shows "handle_next_character (lx_peek s) s = lx_put (mk_token k (lx_offset s) 0) (lx_skip (length l) s)"
proof -
  have "(l, k) \<in> set operator_table" and pre: "prefix l (lx_rest s)"
    using longest_operator_in[OF assms(1)] by auto
  then have "hd l \<in> set ''()[]{},;^<:=+-*%&|~!>/.'' \<and> l \<noteq> []" unfolding operator_table_def by auto
  moreover from this have "hd l \<noteq> CHR ''.''" using assms(5) pre by (cases l) (auto simp: prefix_def)
  ultimately have l: "hd l \<in> set ''()[]{},;^<:=+-*%&|~!>/'' \<and> l \<noteq> []" by simp
  with pre obtain r where rest: "lx_rest s = hd l # r" by (cases l) (auto simp: prefix_def)
  have "handle_next_character (hd l) s = put_operator s"
  proof (cases "hd l = CHR ''>''")
    case True
    have "\<not> prefix ''>'' r \<or> prefix ''>='' r"
      using assms rest True
      by (auto simp: longest_operator_def operator_table_def prefix_take take_Suc_0_eq split: if_splits)
    with put_right_angle rest True show ?thesis by simp
  next
    case False
    with l have hd: "hd l \<in> set ''()[]{},;^<:=+-*%&|~!/''" by simp
    show ?thesis
    proof (cases "hd l = CHR ''/''")
      case True
      with rest assms(3,4) put_operators(21)[of s r] show ?thesis by simp
    next
      case False
      with hd have "hd l \<in> set ''()[]{},;^<:=+-*%&|~!''" by simp
      then show ?thesis using rest by (auto simp: put_operators)
    qed
  qed
  with assms(1) rest show ?thesis by (simp add: put_operator_def)
qed

text \<open>Two closing angle brackets that no equals sign follows are two tokens.\<close>

lemma double_right_angle:
  assumes "prefix ''>>'' (lx_rest s)" "\<not> prefix ''>>='' (lx_rest s)"
  shows "handle_next_character (lx_peek s) s =
    lx_put (mk_token TK_r_angle (lx_offset s + 1) 0) (lx_put (mk_token TK_r_angle (lx_offset s) 0) (lx_skip 2 s))"
proof -
  from assms obtain r where "lx_rest s = CHR ''>'' # CHR ''>'' # r" "\<not> prefix ''='' r"
    by (auto simp: prefix_def)
  then show ?thesis
    by (simp add: handle_next_character_def on_right_angle_def lx_moves prefix_take Let_def numeral_2_eq_2)
qed

section \<open>Words of ASCII text\<close>

text \<open>On ASCII text, a word is the longest run of identifier characters.\<close>

lemma consume_word_ascii:
  "list_all is_ascii (lx_rest s) \<Longrightarrow>
   consume_word s = lx_skip (length (takeWhile is_ascii_identifier_char (lx_rest s))) s"
proof (induction s rule: consume_word.induct)
  case (1 s)
  show ?case
  proof (cases "lx_rest s")
    case Nil
    then show ?thesis by (subst consume_word.simps) simp
  next
    case (Cons c r)
    have nul: "\<not> is_ascii_identifier_char nul" using ascii_identifier_not_nul by blast
    show ?thesis
    proof (cases "is_ascii_identifier_char c")
      case True
      with nul have "c \<noteq> nul" by blast
      with 1(1) True Cons 1(3) show ?thesis
        by (subst consume_word.simps) (simp add: lx_advance_skip)
    next
      case False
      with Cons 1(3) show ?thesis by (subst consume_word.simps) simp
    qed
  qed
qed

section \<open>Words and numbers\<close>

lemma handle_lower_upper:
  "list_all (\<lambda>c. \<forall>s. handle_next_character c s = keyword_handler c s) ''abcdefghijklmnopqrstuvwxyz''"
  "list_all (\<lambda>c. \<forall>s. handle_next_character c s = on_alphabetic s) ''ABCDEFGHIJKLMNOPQRSTUVWXYZ_''"
  "list_all (\<lambda>c. \<forall>s. handle_next_character c s = on_nonzero s) ''123456789''"
  by (simp_all add: handle_next_character_def)

lemmas handle_letter = handle_lower_upper[unfolded list_all_iff, rule_format]

lemma keyword_handler_emit_word:
  assumes "lx_wf s" "lx_rest s = c # r"
    and "scans (c # w) [] rs s (consume_word (lx_skip 1 s))" "wordish w"
  shows "keyword_handler c s = emit_word (lx_offset s) (c # w) (consume_word (lx_skip 1 s))"
proof -
  obtain tails where tails: "get_keyword_tails c = Some tails" by (simp add: get_keyword_tails_eq)
  show ?thesis
  proof (cases "tails = []")
    case True
    have "keyword_kind (c # w) = None"
      using keyword_kind_no_tails tails True by blast
    with True tails assms(2) show ?thesis
      by (simp add: keyword_handler_def on_alphabetic_def emit_word_def lx_moves Let_def)
  next
    case False
    with maybe_keyword_emit_word[OF assms(1,2) tails assms(3,4)] tails show ?thesis
      by (simp add: keyword_handler_def)
  qed
qed

lemma handle_word_ascii:
  assumes "lx_wf s" "lx_rest s = c # r" "c \<in> set ''abcdefghijklmnopqrstuvwxyz''" "list_all is_ascii r"
  shows "handle_next_character c s =
    emit_word (lx_offset s) (c # takeWhile is_ascii_identifier_char r)
      (lx_skip (Suc (length (takeWhile is_ascii_identifier_char r))) s)"
proof -
  let ?w = "takeWhile is_ascii_identifier_char r"
  have eq: "consume_word (lx_skip 1 s) = lx_skip (Suc (length ?w)) s"
    using assms(2,4) by (simp add: consume_word_ascii)
  have "take (Suc (length ?w)) (lx_rest s) = c # ?w"
    using assms(2) by (simp add: takeWhile_eq_take[symmetric])
  then have "scans (c # ?w) [] [] s (consume_word (lx_skip 1 s))"
    using scans_skip[of "Suc (length ?w)" s] assms(2) unfolding eq by (simp add: length_takeWhile_le)
  moreover have "wordish ?w" by (auto simp: wordish_def list_all_iff dest: set_takeWhileD)
  ultimately show ?thesis
    using keyword_handler_emit_word[OF assms(1,2)] handle_letter(1)[OF assms(3)] eq by metis
qed

lemma handle_decimal_ascii:
  assumes "lx_wf s" "lx_rest s = c # d @ r" "c \<in> set ''123456789''" "digit_run is_decimal_digit (d @ r) = d"
    and "r = [] \<or> hd r \<noteq> CHR ''.''"
  shows "handle_next_character c s =
    lx_put (mk_token TK_dec_int_literal (lx_offset s) (word_of_nat (Suc (length (rstrip d))))) (lx_skip (Suc (length d)) s)"
proof -
  have len: "Suc (length (rstrip d)) \<le> length (lx_rest s)"
    using length_rstrip_digit_run_le[of is_decimal_digit "d @ r"] assms(2,4) by simp
  have "lx_peek (lx_skip (Suc (length d)) s) \<noteq> CHR ''.''"
    using assms(2,5) by (cases r) auto
  moreover have "consume_digit_sequence is_decimal_digit (lx_offset s) (lx_skip 1 s) =
      (word_of_nat (Suc (length (rstrip d))), lx_skip (Suc (length d)) s)"
    using lx_offset_skip[OF assms(1) len] assms(2,4)
    by (simp add: consume_digit_sequence_eq digit_classes lx_offset_pos)
  ultimately show ?thesis
    using assms(2) handle_letter(3)[OF assms(3)]
    by (simp add: on_nonzero_def handle_decimal_literal_def lx_moves)
qed
lemma handle_source_loop_step:
  "lx_rest s = c # r \<Longrightarrow> c \<noteq> nul \<Longrightarrow> handle_source_loop s = handle_source_loop (handle_next_character c s)"
  "lx_rest s = [] \<Longrightarrow> handle_source_loop s = s"
  by (subst handle_source_loop.simps; simp)+

text \<open>A literal body that neither ends the literal nor contains an escape is consumed whole.\<close>

lemma consume_quoted_plain:
  "\<forall>c \<in> set (lx_rest s). c \<notin> {nul, newline_char, backslash_char, q} \<Longrightarrow>
   consume_quoted q False s = lx_skip (length (lx_rest s)) s"
proof (induction "lx_rest s" arbitrary: s)
  case Nil
  from Nil.hyps[symmetric] show ?case by (subst consume_quoted.simps) simp
next
  case (Cons c r)
  note rest = Cons.hyps(2)[symmetric]
  have "consume_quoted q False s = consume_quoted q False (lx_skip 1 s)"
    using Cons.prems rest by (subst consume_quoted.simps) (auto simp: lx_advance_skip Let_def)
  with Cons.hyps(1)[of "lx_skip 1 s"] Cons.prems rest show ?case by simp
qed

section \<open>A sample source\<close>

definition sample_source :: source_view where
  "sample_source = \<lparr>sv_file_view = None, sv_text = Some ''if x>=1'', sv_path = ''a.ce''\<rparr>"

definition sample_tokens :: "token list" where
  "sample_tokens =
     [mk_token TK_kw_if 0 0, mk_token TK_identifier 3 1, mk_token TK_r_angle_eq 4 0,
      mk_token TK_dec_int_literal 6 1, mk_token TK_end_of_file 7 0]"
lemma sample_text: "get_text sample_source = ''if x>=1''"
  by code_simp


text \<open>The lexer on a source, after \<open>n\<close> characters and the tokens \<open>ts\<close>.\<close>

definition lexer_at :: "source_view \<Rightarrow> lexer_flags \<Rightarrow> nat \<Rightarrow> token list \<Rightarrow> lexer" where
  "lexer_at v flags n ts = (lx_skip n (lexer_init v [] flags 4))\<lparr>lx_tokens := ts\<rparr>"

lemma lexer_at_sel [simp]:
  "lx_rest (lexer_at v flags n ts) = drop n (get_text v)"
  "lx_put t (lexer_at v flags n ts) = lexer_at v flags n (ts @ [t])"
  "lx_skip m (lexer_at v flags n ts) = lexer_at v flags (n + m) ts"
  "n \<le> length (get_text v) \<Longrightarrow> lx_offset (lexer_at v flags n ts) = word_of_nat n"
  by (simp_all add: lexer_at_def lexer_init_def sc_init_def lx_put_def token_list_put_def lx_skip_def
      lx_offset_def sc_offset_def add.commute)

lemma lexer_at_wf: "length (get_text v) \<le> unat source_size_max \<Longrightarrow> lx_wf (lexer_at v flags n ts)"
  by (simp add: lexer_at_def lx_wf_def lexer_init_def sc_init_def lx_skip_def suffix_drop)

lemma run_lexer_at:
  assumes "handle_source_loop (lexer_at v flags 0 []) = lexer_at v flags (length (get_text v)) ts"
    and "length (get_text v) \<le> unat source_size_max"
  shows "run_lexer v [] flags 4 = Some (ts @ [mk_token TK_end_of_file (word_of_nat (length (get_text v))) 0], [])"
proof -
  have init: "lexer_init v [] flags 4 = lexer_at v flags 0 []"
    by (simp add: lexer_at_def lexer_init_def)
  have "handle_source (lexer_at v flags 0 []) = lexer_at v flags (length (get_text v)) ts"
    using assms(1) by (simp add: handle_source_def lx_valid_length)
  then show ?thesis using assms(2)
    by (simp add: run_lexer_def lexer_run_def init del: lexer_at_sel)
      (simp add: lexer_at_def lexer_init_def Let_def sc_init_def lx_put_def token_list_put_def lx_skip_def
      lx_offset_def sc_offset_def)
qed

lemma sample_step:
  "handle_next_character CHR ''i'' (lexer_at sample_source flags 0 ts) = lexer_at sample_source flags 2 (ts @ [mk_token TK_kw_if 0 0])"
  "handle_next_character CHR '' '' (lexer_at sample_source flags 2 ts) = lexer_at sample_source flags 3 ts"
  "handle_next_character CHR ''x'' (lexer_at sample_source flags 3 ts) = lexer_at sample_source flags 4 (ts @ [mk_token TK_identifier 3 1])"
  "handle_next_character CHR ''>'' (lexer_at sample_source flags 4 ts) = lexer_at sample_source flags 6 (ts @ [mk_token TK_r_angle_eq 4 0])"
  "handle_next_character CHR ''1'' (lexer_at sample_source flags 6 ts) = lexer_at sample_source flags 7 (ts @ [mk_token TK_dec_int_literal 6 1])"
proof -
  have small: "length (get_text sample_source) \<le> unat source_size_max"
    by (simp add: sample_text unat_source_size_max)
  note wf = lexer_at_wf[OF small]
  have ascii: "list_all is_ascii ''f x>=1''" "list_all is_ascii ''>=1''" by code_simp+
  have kw: "keyword_kind ''if'' = Some TK_kw_if" "keyword_kind ''x'' = None"
    by (simp_all add: keyword_kind_def keyword_table_def)
  have tw: "takeWhile is_ascii_identifier_char ''f x>=1'' = ''f''" "takeWhile is_ascii_identifier_char ''>=1'' = []"
    by code_simp+
  show "handle_next_character CHR ''i'' (lexer_at sample_source flags 0 ts) = lexer_at sample_source flags 2 (ts @ [mk_token TK_kw_if 0 0])"
    using handle_word_ascii[OF wf, of flags 0 ts "CHR ''i''" "''f x>=1''"] ascii kw tw
    by (simp add: sample_text emit_word_def numeral_2_eq_2)
  show "handle_next_character CHR '' '' (lexer_at sample_source flags 2 ts) = lexer_at sample_source flags 3 ts"
    by (simp add: handle_next_character_def lx_advance_skip sample_text)
  show "handle_next_character CHR ''x'' (lexer_at sample_source flags 3 ts) = lexer_at sample_source flags 4 (ts @ [mk_token TK_identifier 3 1])"
    using handle_word_ascii[OF wf, of flags 3 ts "CHR ''x''" "''>=1''"] ascii kw tw
    by (simp add: sample_text emit_word_def)
  show "handle_next_character CHR ''>'' (lexer_at sample_source flags 4 ts) = lexer_at sample_source flags 6 (ts @ [mk_token TK_r_angle_eq 4 0])"
    by (simp add: handle_next_character_def on_right_angle_def lx_moves sample_text)
  show "handle_next_character CHR ''1'' (lexer_at sample_source flags 6 ts) = lexer_at sample_source flags 7 (ts @ [mk_token TK_dec_int_literal 6 1])"
    using handle_decimal_ascii[OF wf, of flags 6 ts "CHR ''1''" "[]" "[]"]
    by (simp add: sample_text rstrip_def)
qed

lemma sample_run: "run_lexer sample_source [] flags 4 = Some (sample_tokens, [])"
proof -
  have len: "length (get_text sample_source) = 7" by (simp add: sample_text)
  have "handle_source_loop (lexer_at sample_source flags 0 []) =
      lexer_at sample_source flags (length (get_text sample_source)) (butlast sample_tokens)"
    unfolding len by (simp add: handle_source_loop_step sample_text sample_step sample_tokens_def)
  then show ?thesis
    by (subst run_lexer_at) (simp_all add: sample_text unat_source_size_max sample_tokens_def)
qed

section \<open>Properties\<close>

text \<open>C3. Lexing is total, and its result is a tiling: whatever the source, the lexer returns
  without an exception or a failed assertion, its tokens are a list that tiles the text it read,
  closed by an end-of-file token that sits where reading stopped, where each token covers all of the
  lexeme of its kind that stands at its place in the source; it reads the whole text unless
  the text exceeds the size limit or contains a null character, and then it reports; all reports
  have the arguments their message format needs.\<close>

theorem run_lexer_correct:
  "\<exists>ts rs w r.
     run_lexer v reporter flags tab_size =
       Some (ts @ [mk_token TK_end_of_file (word_of_nat (length w)) 0], reporter @ rs) \<and>
     get_text v = w @ r \<and>
     tiles (has_flags flags flags_emit_comments \<and> rs = []) r 0 w ts \<and>
     (r = [] \<or> (hd r = nul \<or> unat source_size_max < length (get_text v)) \<and> rs \<noteq> []) \<and>
     list_all report_valid rs"
proof (cases "length (get_text v) \<le> unat source_size_max")
  case True
  then show ?thesis
    by (rule run_lexer_result[of v reporter flags tab_size]) (auto simp: lex_result_def)
next
  case False
  let ?rep = "\<lparr>rep_location = \<lparr>loc_path = get_path v, loc_line = 0, loc_column = 0\<rparr>,
      rep_message = source_file_too_large, rep_args = [Arg_int (unat source_size_max)]\<rparr>"
  have "report_valid ?rep"
    by (simp add: report_valid_def valid_for_message_arity message_arity_def)
  with False run_lexer_too_large[of v reporter flags tab_size] show ?thesis
    by - (rule exI[of _ "[]"], rule exI[of _ "[?rep]"], rule exI[of _ "[]"], rule exI[of _ "get_text v"], auto)
qed

text \<open>C6. The text of a token: every token but the last one yields, without a fault, exactly the part of the
  source between its start and its end, and that part is exactly the lexeme that the lexical grammar
  gives the token's kind at this place of the source: an identifier or keyword is the whole word that
  stands there, a quoted literal ends with its first unescaped closing quote (or before a newline, a
  null character or the end of the text), a line comment goes to the end of the line, a block comment
  to the mark that closes its outermost level, a number to its last digit.\<close>

theorem run_lexer_token_text:
  assumes "run_lexer v reporter flags tab_size = Some (tokens, reports)" "t \<in> set (butlast tokens)"
  shows "token_get_text t v = Inr (segment (tok_start t) (tok_end t) (get_text v)) \<and>
    tok_start t < tok_end t \<and> tok_end t \<le> length (get_text v) \<and>
    lexeme_length (tok_kind t) (drop (tok_start t) (get_text v)) = Some (tok_end t - tok_start t)"
proof (cases "length (get_text v) \<le> unat source_size_max")
  case True
  then show ?thesis
  proof (rule run_lexer_result[of v reporter flags tab_size])
    fix ts rs w r
    assume run: "run_lexer v reporter flags tab_size =
        Some (ts @ [mk_token TK_end_of_file (word_of_nat (length w)) 0], reporter @ rs)"
      and res: "lex_result v flags ts rs w r"
    from run assms have t: "t \<in> set ts" by simp
    from res obtain strict where tl: "tiles strict r 0 w ts" and v: "get_text v = w @ r"
      by (auto simp: lex_result_def)
    from tiles_tok_ok[OF tl t, of "[]"] tiles_bounds[OF tl t] v show ?thesis
      using tok_ok_get_text[of v t] by auto
  qed
next
  case False
  with assms run_lexer_too_large[of v reporter flags tab_size] show ?thesis by auto
qed

text \<open>C15. Nothing is lost: if comments are emitted and nothing was reported, every byte of the source that no
  token covers is white space.\<close>

theorem run_lexer_covers_source:
  assumes "run_lexer v reporter flags tab_size = Some (tokens, reporter)"
    and "has_flags flags flags_emit_comments" "i < length (get_text v)"
    and "\<not> is_ascii_whitespace (get_text v ! i)"
  shows "\<exists>t \<in> set (butlast tokens). tok_start t \<le> i \<and> i < tok_end t"
proof -
  have small: "length (get_text v) \<le> unat source_size_max"
    using assms(1) run_lexer_too_large[of v reporter flags tab_size] by fastforce
  then show ?thesis
  proof (rule run_lexer_result[of v reporter flags tab_size])
    fix ts rs w r
    assume run: "run_lexer v reporter flags tab_size =
        Some (ts @ [mk_token TK_end_of_file (word_of_nat (length w)) 0], reporter @ rs)"
      and res: "lex_result v flags ts rs w r"
    from run assms(1) have rs: "rs = []" "butlast tokens = ts" by auto
    with res assms(2) have tl: "tiles True r 0 w ts" and v: "get_text v = w" by (auto simp: lex_result_def)
    show ?thesis
      using tiles_strict_gap[OF tl, of i] assms(3,4) rs(2) v by fastforce
  qed
qed

text \<open>C16. Tokens stand in source order and do not overlap, and the end-of-file token is the last one and
  the only one of its kind.\<close>

theorem run_lexer_ordered:
  assumes "run_lexer v reporter flags tab_size = Some (tokens, reports)"
  shows "tokens \<noteq> [] \<and> tok_kind (last tokens) = TK_end_of_file \<and>
    (\<forall>t \<in> set (butlast tokens). tok_kind t \<noteq> TK_end_of_file) \<and>
    sorted_wrt (\<lambda>t u. tok_end t \<le> tok_start u) tokens"
proof (cases "length (get_text v) \<le> unat source_size_max")
  case True
  then show ?thesis
  proof (rule run_lexer_result[of v reporter flags tab_size])
    fix ts rs w r
    assume run: "run_lexer v reporter flags tab_size =
        Some (ts @ [mk_token TK_end_of_file (word_of_nat (length w)) 0], reporter @ rs)"
      and res: "lex_result v flags ts rs w r"
    from res obtain strict where tl: "tiles strict r 0 w ts" and v: "get_text v = w @ r"
      by (auto simp: lex_result_def)
    have "length w < 2 ^ 24" using True v source_size_max_less[of "length w"] by simp
    then have "tok_start (mk_token TK_end_of_file (word_of_nat (length w)) 0) = length w"
      by (rule tok_start_mk_token)
    with tiles_bounds[OF tl] tiles_sorted[OF tl] tiles_not_eof[OF tl] run assms show ?thesis
      by (auto simp: sorted_wrt_append)
  qed
next
  case False
  with assms run_lexer_too_large[of v reporter flags tab_size] show ?thesis by auto
qed

theorem run_lexer_token_text_witness:
  "token_get_text (mk_token TK_identifier 3 1) sample_source = Inr ''x'' \<and>
   lexeme_length TK_identifier ''x>=1'' = Some 1"
proof -
  have t: "mk_token TK_identifier 3 1 \<in> set (butlast sample_tokens)" by (simp add: sample_tokens_def)
  have pos: "tok_start (mk_token TK_identifier 3 1) = 3" "tok_end (mk_token TK_identifier 3 1) = 4"
    by (simp_all add: mk_token_def tok_end_def tok_length_def)
  then have "segment (tok_start (mk_token TK_identifier 3 1)) (tok_end (mk_token TK_identifier 3 1)) (get_text sample_source) = ''x''"
    by (simp add: sample_text segment_def)
  with run_lexer_token_text[OF sample_run[of 0] t] pos show ?thesis by (simp add: sample_text)
qed

theorem run_lexer_covers_source_witness:
  "\<exists>t \<in> set (butlast sample_tokens). tok_start t \<le> 5 \<and> 5 < tok_end t"
  by (rule run_lexer_covers_source[OF sample_run[of flags_emit_comments]])
    (simp_all add: has_flags_def sample_text is_ascii_whitespace_def less_eq_char_def)

theorem run_lexer_ordered_witness:
  "tok_kind (last sample_tokens) = TK_end_of_file \<and>
   sorted_wrt (\<lambda>t u. tok_end t \<le> tok_start u) sample_tokens"
  using run_lexer_ordered[OF sample_run[of 0]] by simp

text \<open>C17. Maximal munch: when the remaining text starts with an operator or punctuation mark, but not with a
  comment or a fraction (a dot followed by a digit, white space between them allowed), the handler
  emits the longest operator that the text starts with and skips exactly it. There are two
  exceptions: \<open>>>\<close> that is not part of \<open>>>=\<close> is read as two closing angle brackets, and white space
  behind a dot is skipped with the dot.\<close>

theorem lexer_maximal_munch:
  assumes "longest_operator (lx_rest s) = Some (l, k)" "lx_wf s"
    and "\<not> prefix ''//'' (lx_rest s)" "\<not> prefix ''/*'' (lx_rest s)" "\<not> fraction_at (lx_rest s)"
  shows "handle_next_character (lx_peek s) s =
      (if prefix ''>>'' (lx_rest s) \<and> \<not> prefix ''>>='' (lx_rest s)
       then lx_put (mk_token TK_r_angle (lx_offset s + 1) 0)
              (lx_put (mk_token TK_r_angle (lx_offset s) 0) (lx_skip 2 s))
       else if k = TK_dot
       then lx_put (mk_token k (lx_offset s) 0)
              (lx_skip (1 + length (takeWhile is_ascii_whitespace (tl (lx_rest s)))) s)
       else lx_put (mk_token k (lx_offset s) 0) (lx_skip (length l) s)) \<and>
    (\<forall>(l', k') \<in> set operator_table. prefix l' (lx_rest s) \<longrightarrow> length l' \<le> length l)"
proof -
  have k: "fixed_lexeme k = Some l" "prefix l (lx_rest s)"
    using longest_operator_in[OF assms(1)] operator_lexemes by auto
  have longest: "\<forall>(l', k') \<in> set operator_table. prefix l' (lx_rest s) \<longrightarrow> length l' \<le> length l"
    using longest_operator_longest[OF assms(1)] by auto
  have angle: "k \<noteq> TK_r_angle" if "prefix ''>>='' (lx_rest s)"
  proof -
    have "length ''>>='' \<le> length l"
      by (rule longest_operator_longest[OF assms(1) _ that, of TK_r_angle_angle_eq]) (simp add: operator_table_def)
    with k show ?thesis by auto
  qed
  show ?thesis
  proof (cases "prefix ''.'' (lx_rest s)")
    case True
    then obtain r where rest: "lx_rest s = CHR ''.'' # r" by (auto simp: prefix_def)
    then have "k = TK_dot" using assms(1) by (simp add: longest_operator_def operator_table_def)
    with munch_dot[OF assms(2) rest assms(5)] rest longest show ?thesis by simp
  next
    case False
    then have "k \<noteq> TK_dot" using k by auto
    with maximal_munch[OF assms(1) _ assms(3,4) False] double_right_angle[of s] angle longest show ?thesis
      by auto
  qed
qed

theorem lexer_maximal_munch_witness:
  "handle_next_character CHR ''>'' (lexer_at sample_source 0 4 []) = lexer_at sample_source 0 6 [mk_token TK_r_angle_eq 4 0]"
proof -
  have "longest_operator (lx_rest (lexer_at sample_source 0 4 [])) = Some (''>='', TK_r_angle_eq)"
    by (simp add: sample_text longest_operator_def operator_table_def)
  moreover have "lx_wf (lexer_at sample_source 0 4 [])"
    by (rule lexer_at_wf) (simp add: sample_text unat_source_size_max)
  ultimately show ?thesis
    using lexer_maximal_munch[of "lexer_at sample_source 0 4 []" "''>=''" TK_r_angle_eq]
    by (simp add: sample_text fraction_at_def)
qed

text \<open>C7. Keywords: at a lower-case letter of ASCII text, the lexer reads the longest run of identifier
  characters and emits the keyword token of exactly that word if it is in the keyword table, and an
  identifier of its length otherwise. The lexer decides this by comparing packed 64-bit tails.\<close>

theorem lexer_recognizes_keywords:
  assumes "lx_wf s" "lx_rest s = c # r" "c \<in> set ''abcdefghijklmnopqrstuvwxyz''" "list_all is_ascii r"
    and "w = c # takeWhile is_ascii_identifier_char r"
  shows "handle_next_character c s =
    (case map_of keyword_table w of
       Some kind \<Rightarrow> lx_put (mk_token kind (lx_offset s) 0) (lx_skip (length w) s)
     | None \<Rightarrow> lx_put (mk_token TK_identifier (lx_offset s) (word_of_nat (length w))) (lx_skip (length w) s))"
proof -
  have len: "length w \<le> length (lx_rest s)" using assms(2,5) by (simp add: length_takeWhile_le)
  have "lx_offset (lx_skip (length w) s) - lx_offset s = word_of_nat (length w)"
    using lx_offset_skip[OF assms(1) len] by (simp add: lx_offset_pos)
  with handle_word_ascii[OF assms(1-4)] assms(5) show ?thesis
    by (simp add: emit_word_def keyword_kind_def split: option.splits)
qed

theorem lexer_recognizes_keywords_witness:
  "handle_next_character CHR ''i'' (lexer_at sample_source 0 0 []) = lexer_at sample_source 0 2 [mk_token TK_kw_if 0 0]"
proof -
  have "lx_wf (lexer_at sample_source 0 0 [])" by (rule lexer_at_wf) (simp add: sample_text unat_source_size_max)
  moreover have "list_all is_ascii ''f x>=1''" by code_simp
  moreover have "takeWhile is_ascii_identifier_char ''f x>=1'' = ''f''" by code_simp
  moreover have "map_of keyword_table ''if'' = Some TK_kw_if" by (simp add: keyword_table_def)
  ultimately show ?thesis
    using lexer_recognizes_keywords[of "lexer_at sample_source 0 0 []" "CHR ''i''" "''f x>=1''" "''if''"]
    by (simp only: sample_text lexer_at_sel) (simp add: numeral_2_eq_2)
qed

text \<open>C27. Digit sequences: the scanner of digits stops at the first character that is neither a digit nor
  white space; the length it returns leaves trailing white space out, so a number may contain white
  space between its digits but never ends with it.\<close>

theorem consume_digit_sequence_correct:
  "consume_digit_sequence p off s =
     (lx_offset (lx_skip (length (rstrip (takeWhile (digit_or_space p) (lx_rest s)))) s) - off,
      lx_skip (length (takeWhile (digit_or_space p) (lx_rest s))) s)"
  if "p = is_decimal_digit \<or> p = is_hexadecimal_digit"
  using that consume_digit_sequence_eq digit_classes by blast

theorem consume_digit_sequence_correct_witness:
  "consume_digit_sequence is_decimal_digit 0 (lexer_at sample_source 0 6 []) = (7, lexer_at sample_source 0 7 [])"
proof -
  have "takeWhile (digit_or_space is_decimal_digit) ''1'' = ''1''" "rstrip ''1'' = ''1''"
    by (simp_all add: rstrip_def ascii_class_defs less_eq_char_def)
  then show ?thesis
    using consume_digit_sequence_correct[of is_decimal_digit 0 "lexer_at sample_source 0 6 []"]
    by (simp add: sample_text)
qed

text \<open>C29. An unterminated string literal at the end of the file is accepted silently: if the source
  is a quote followed by characters that do not end the literal, the lexer emits one string literal
  for all of it and reports nothing, while a newline in the same place is reported as a missing
  closing quote.\<close>

theorem unterminated_literal_not_reported:
  assumes "get_text v = quote_char # body" "length (get_text v) \<le> unat source_size_max"
    and "\<forall>c \<in> set body. c \<notin> {nul, newline_char, backslash_char, quote_char}"
  shows "run_lexer v reporter flags tab_size =
    Some ([mk_token TK_string_literal 0 (word_of_nat (Suc (length body))),
           mk_token TK_end_of_file (word_of_nat (Suc (length body))) 0], reporter)"
proof -
  let ?s = "lexer_init v reporter flags tab_size"
  let ?s1 = "lx_skip (Suc (length body)) ?s"
  have off: "lx_offset ?s = 0" "lx_offset ?s1 = word_of_nat (Suc (length body))"
    using assms(1) by (simp_all add: lx_offset_def sc_offset_def lx_skip_def lexer_init_def sc_init_def)
  have "consume_quoted quote_char False (lx_skip 1 ?s) = ?s1"
    using assms(1,3) by (subst consume_quoted_plain) auto
  then have "handle_next_character quote_char ?s = lx_put (mk_token TK_string_literal 0 (word_of_nat (Suc (length body)))) ?s1"
    using assms(1) off by (simp add: handle_next_character_def on_quote_def lx_moves Let_def)
  then have loop: "handle_source_loop ?s = lx_put (mk_token TK_string_literal 0 (word_of_nat (Suc (length body)))) ?s1"
    using assms(1) by (simp add: handle_source_loop_step(1)[of ?s quote_char] handle_source_loop_step(2))
  then have "handle_source ?s = handle_source_loop ?s"
    using assms(1) by (simp add: handle_source_def lx_valid_length)
  with loop off(2) assms(2) show ?thesis
    by (simp add: run_lexer_def lexer_run_def) (simp add: lx_offset_def lx_put_def token_list_put_def)
qed

theorem unterminated_literal_not_reported_witness:
  "run_lexer \<lparr>sv_file_view = None, sv_text = Some (quote_char # ''ab''), sv_path = ''a''\<rparr> [] 0 4 =
     Some ([mk_token TK_string_literal 0 3, mk_token TK_end_of_file 3 0], [])"
  by (subst unterminated_literal_not_reported[where body = "''ab''"])
    (simp_all add: get_text_def unat_source_size_max)

end
