(* ===== verification/Token_Cursor.thy ===== *)
theory Token_Cursor
  imports Tokens
begin

text \<open>
  \<open>src/cero/syntax/token_cursor.hh\<close>. The cursor is the list of the tokens from its iterator to the
  end of the array. The C++ code never checks for the end of the array: it relies on an end-of-file
  token in it. Dereferencing the iterator at the end is the fault \<^const>\<open>Out_of_bounds\<close>.
\<close>

type_synonym token_cursor = "token list"

definition tc_init :: "token_list \<Rightarrow> token_cursor" where
  "tc_init tokens = get_array tokens"

definition tc_peek :: "token_cursor \<Rightarrow> fault + token" where
  "tc_peek it = (case it of [] \<Rightarrow> Inl Out_of_bounds | t # _ \<Rightarrow> Inr t)"

definition tc_peek_kind :: "token_cursor \<Rightarrow> fault + token_kind" where
  "tc_peek_kind it = (case it of [] \<Rightarrow> Inl Out_of_bounds | t # _ \<Rightarrow> Inr (tok_kind t))"

definition tc_peek_offset :: "token_cursor \<Rightarrow> fault + source_size" where
  "tc_peek_offset it = (case it of [] \<Rightarrow> Inl Out_of_bounds | t # _ \<Rightarrow> Inr (tok_offset t))"

definition tc_peek_ahead :: "token_cursor \<Rightarrow> fault + token" where
  "tc_peek_ahead it =
     (case it of
        [] \<Rightarrow> Inl Out_of_bounds
      | t # rest \<Rightarrow> if tok_kind t = TK_end_of_file then Inr t
                    else (case rest of [] \<Rightarrow> Inl Out_of_bounds | u # _ \<Rightarrow> Inr u))"

definition tc_advance :: "token_cursor \<Rightarrow> fault + token_cursor" where
  "tc_advance it =
     (case it of
        [] \<Rightarrow> Inl Out_of_bounds
      | t # rest \<Rightarrow> if tok_kind t \<noteq> TK_end_of_file then Inr rest else Inr it)"

definition tc_next :: "token_cursor \<Rightarrow> fault + token \<times> token_cursor" where
  "tc_next it =
     (case tc_peek it of
        Inl f \<Rightarrow> Inl f
      | Inr t \<Rightarrow> (case tc_advance it of Inl f \<Rightarrow> Inl f | Inr it' \<Rightarrow> Inr (t, it')))"

definition tc_match :: "token_kind \<Rightarrow> token_cursor \<Rightarrow> fault + bool \<times> token_cursor" where
  "tc_match kind it =
     (case tc_peek_kind it of
        Inl f \<Rightarrow> Inl f
      | Inr k \<Rightarrow> if k = kind
                 then (case tc_advance it of Inl f \<Rightarrow> Inl f | Inr it' \<Rightarrow> Inr (True, it'))
                 else Inr (False, it))"

definition tc_match_token :: "token_kind \<Rightarrow> token_cursor \<Rightarrow> fault + token option \<times> token_cursor" where
  "tc_match_token kind it =
     (case tc_peek it of
        Inl f \<Rightarrow> Inl f
      | Inr t \<Rightarrow> if tok_kind t = kind
                 then (case tc_advance it of Inl f \<Rightarrow> Inl f | Inr it' \<Rightarrow> Inr (Some t, it'))
                 else Inr (None, it))"

fun tc_skip_comments :: "token_cursor \<Rightarrow> fault + token_cursor" where
  "tc_skip_comments [] = Inl Out_of_bounds"
| "tc_skip_comments (t # rest) =
     (if tok_kind t = TK_line_comment \<or> tok_kind t = TK_block_comment then tc_skip_comments rest
      else Inr (t # rest))"

lemmas tc_defs =
  tc_init_def tc_peek_def tc_peek_kind_def tc_peek_offset_def tc_peek_ahead_def tc_advance_def
  tc_next_def tc_match_def tc_match_token_def

section \<open>Streams that end\<close>

text \<open>
  What the cursor relies on: the array has an end-of-file token, as its last element only. No
  operation then leaves the array, and none moves past the end-of-file token.
\<close>

definition ends_with_eof :: "token list \<Rightarrow> bool" where
  "ends_with_eof ts \<longleftrightarrow>
     ts \<noteq> [] \<and> tok_kind (last ts) = TK_end_of_file \<and>
     list_all (\<lambda>t. tok_kind t \<noteq> TK_end_of_file) (butlast ts)"

lemma ends_with_eof_Nil [simp]: "\<not> ends_with_eof []"
  by (simp add: ends_with_eof_def)

lemma ends_with_eof_Cons:
  "ends_with_eof (t # ts) \<longleftrightarrow>
     (if tok_kind t = TK_end_of_file then ts = [] else ends_with_eof ts)"
  by (auto simp: ends_with_eof_def)

lemma tc_advance_ok:
  assumes "ends_with_eof it"
  shows "\<exists>it'. tc_advance it = Inr it' \<and> ends_with_eof it' \<and> suffix it' it"
  using assms by (cases it) (auto simp: tc_advance_def ends_with_eof_Cons suffix_ConsI split: if_splits)

lemma tc_skip_comments_ok:
  "ends_with_eof it \<Longrightarrow> \<exists>it'. tc_skip_comments it = Inr it' \<and> ends_with_eof it' \<and> suffix it' it"
  by (induction it rule: tc_skip_comments.induct) (auto simp: ends_with_eof_Cons suffix_ConsI split: if_splits)

end
