(* ===== verification/Ast.thy ===== *)
theory Ast
  imports Tokens
begin

text \<open>
  The syntax tree, \<open>src/cero/syntax/ast.hh\<close>, \<open>ast.cc\<close> and \<open>ast_visitor.hh\<close>. A node is a value of a
  datatype whose constructors are the node kinds; pointers to children are the children, and a
  \<open>NodeList\<close> is a list. The memory of the nodes is the subject of \<open>Tree_Memory\<close>.
\<close>

datatype ast_node_kind =
    Kind_function_def | Kind_function_parameter | Kind_function_output | Kind_ident_expr
  | Kind_literal_expr | Kind_block_expr | Kind_return_expr | Kind_unary_expr | Kind_binary_expr
  | Kind_call_expr

record ast_name =
  name_offset :: source_size
  name_length :: source_size

definition ast_name_empty :: ast_name where
  "ast_name_empty = \<lparr>name_offset = 0, name_length = 0\<rparr>"

definition ast_name_from :: "token \<Rightarrow> fault + ast_name" where
  "ast_name_from t =
     cero_assert (tok_kind t = TK_identifier) ''AstName must be created from an identifier token''
       (Inr \<lparr>name_offset = tok_offset t, name_length = variable_length t\<rparr>)"

definition ast_name_get :: "ast_name \<Rightarrow> string \<Rightarrow> string option" where
  "ast_name_get n source_text = substr source_text (unat (name_offset n)) (unat (name_length n))"

definition ast_name_is_empty :: "ast_name \<Rightarrow> bool" where
  "ast_name_is_empty n \<longleftrightarrow> name_length n = 0"

datatype access_modifier = access_none | access_private | access_public

datatype literal_kind =
    lit_dec_int | lit_hex_int | lit_bin_int | lit_oct_int | lit_float | lit_char | lit_string

datatype unary_operator =
    pre_increment | pre_decrement | post_increment | post_decrement | negate | bit_not | logic_not
  | addr_of | deref

datatype (plugins only: code size) binary_operator =
    op_add | op_sub | op_mul | op_div | op_rem | op_bit_and | op_bit_or | op_bit_xor | op_shl | op_shr
  | op_logic_and | op_logic_or | op_eq | op_neq | op_less | op_less_eq | op_greater | op_greater_eq
  | op_assign | op_add_assign | op_sub_assign | op_mul_assign | op_div_assign | op_rem_assign
  | op_bit_and_assign | op_bit_or_assign | op_xor_assign | op_shl_assign | op_shr_assign
  | op_logic_and_assign | op_logic_or_assign

text \<open>The first component of a node is its \<open>token_offset\<close>.\<close>

datatype ast_expression =
    AstIdentExpr source_size source_size
  | AstLiteralExpr source_size literal_kind source_size
  | AstBlockExpr source_size "ast_expression list"
  | AstReturnExpr source_size "ast_expression list"
  | AstUnaryExpr source_size unary_operator ast_expression
  | AstBinaryExpr source_size binary_operator ast_expression ast_expression
  | AstCallExpr source_size ast_expression "ast_expression list"

primrec token_offset :: "ast_expression \<Rightarrow> source_size" where
  "token_offset (AstIdentExpr off len) = off"
| "token_offset (AstLiteralExpr off kind len) = off"
| "token_offset (AstBlockExpr off statements) = off"
| "token_offset (AstReturnExpr off ret_values) = off"
| "token_offset (AstUnaryExpr off op operand) = off"
| "token_offset (AstBinaryExpr off op left right) = off"
| "token_offset (AstCallExpr off callee args) = off"

record ast_function_parameter =
  param_offset :: source_size
  param_type :: ast_expression
  param_name :: ast_name

record ast_function_output =
  output_offset :: source_size
  output_type :: ast_expression
  output_name :: ast_name

record ast_function_definition =
  fn_offset :: source_size
  fn_access_modifier :: access_modifier
  fn_name :: ast_name
  fn_parameters :: "ast_function_parameter list"
  fn_outputs :: "ast_function_output list"
  fn_statements :: "ast_expression list"

text \<open>The only definitions the parser makes are functions.\<close>

type_synonym ast_definition = ast_function_definition

record ast_root =
  root_definitions :: "ast_definition list"

text \<open>The constructor of \<open>AstNode\<close> keeps the low 24 bits of the offset.\<close>

definition node_offset :: "source_size \<Rightarrow> source_size" where
  "node_offset offset = offset AND 0xffffff"

definition node_locate_in :: "source_size \<Rightarrow> source_view \<Rightarrow> u8 \<Rightarrow> code_location option" where
  "node_locate_in offset v tab_size = locate v offset tab_size"

text \<open>\<open>get\<close> of identifiers and literals, from the offset and length of the node; \<open>substr\<close> may throw.\<close>

definition ident_expr_get :: "source_size \<Rightarrow> source_size \<Rightarrow> string \<Rightarrow> string option" where
  "ident_expr_get offset len source_text = substr source_text (unat offset) (unat len)"

definition literal_expr_get :: "source_size \<Rightarrow> source_size \<Rightarrow> string \<Rightarrow> string option" where
  "literal_expr_get offset len source_text = substr source_text (unat offset) (unat len)"

text \<open>An \<open>Ast\<close> is its root.\<close>

definition get_root :: "ast_root \<Rightarrow> ast_root" where
  "get_root ast = ast"

section \<open>Nodes and visitors\<close>

datatype ast_node =
    Function_definition_node ast_function_definition
  | Function_parameter_node ast_function_parameter
  | Function_output_node ast_function_output
  | Expression_node ast_expression

text \<open>The kind that each constructor of the source stores in its node.\<close>

fun node_kind :: "ast_node \<Rightarrow> ast_node_kind" where
  "node_kind (Function_definition_node d) = Kind_function_def"
| "node_kind (Function_parameter_node p) = Kind_function_parameter"
| "node_kind (Function_output_node out) = Kind_function_output"
| "node_kind (Expression_node (AstIdentExpr off len)) = Kind_ident_expr"
| "node_kind (Expression_node (AstLiteralExpr off kind len)) = Kind_literal_expr"
| "node_kind (Expression_node (AstBlockExpr off statements)) = Kind_block_expr"
| "node_kind (Expression_node (AstReturnExpr off ret_values)) = Kind_return_expr"
| "node_kind (Expression_node (AstUnaryExpr off op operand)) = Kind_unary_expr"
| "node_kind (Expression_node (AstBinaryExpr off op left right)) = Kind_binary_expr"
| "node_kind (Expression_node (AstCallExpr off callee args)) = Kind_call_expr"

record 'a ast_visitor =
  visit_function_definition :: "ast_node \<Rightarrow> 'a"
  visit_function_parameter :: "ast_node \<Rightarrow> 'a"
  visit_function_output :: "ast_node \<Rightarrow> 'a"
  visit_ident_expr :: "ast_node \<Rightarrow> 'a"
  visit_literal_expr :: "ast_node \<Rightarrow> 'a"
  visit_block_expr :: "ast_node \<Rightarrow> 'a"
  visit_return_expr :: "ast_node \<Rightarrow> 'a"
  visit_unary_expr :: "ast_node \<Rightarrow> 'a"
  visit_binary_expr :: "ast_node \<Rightarrow> 'a"
  visit_call_expr :: "ast_node \<Rightarrow> 'a"

definition visit :: "'a ast_visitor \<Rightarrow> ast_node \<Rightarrow> 'a" where
  "visit v node =
     (case node_kind node of
        Kind_function_def \<Rightarrow> visit_function_definition v node
      | Kind_function_parameter \<Rightarrow> visit_function_parameter v node
      | Kind_function_output \<Rightarrow> visit_function_output v node
      | Kind_ident_expr \<Rightarrow> visit_ident_expr v node
      | Kind_literal_expr \<Rightarrow> visit_literal_expr v node
      | Kind_block_expr \<Rightarrow> visit_block_expr v node
      | Kind_return_expr \<Rightarrow> visit_return_expr v node
      | Kind_unary_expr \<Rightarrow> visit_unary_expr v node
      | Kind_binary_expr \<Rightarrow> visit_binary_expr v node
      | Kind_call_expr \<Rightarrow> visit_call_expr v node)"

end
