(* ===== verification/Parser.thy ===== *)
theory Parser
  imports Token_Cursor Ast
begin

text \<open>
  The parser, \<open>src/cero/syntax/parser.cc\<close>: every member function of \<open>struct Parser\<close> as a function on
  the parser state.

  A function of the parser returns normally, throws a \<open>ParseError\<close>, or faults; \<open>presult\<close> has these
  outcomes, the state included where the program goes on. The mutually recursive functions and the
  loops take fuel; a run that lacks fuel is an outcome of its own, which \<open>Parser_Correct\<close> excludes
  for the amount \<open>run_parser\<close> provides. Member function pointers are values of datatypes.
\<close>

section \<open>Precedence\<close>

datatype precedence =
    Prec_statement | Prec_assignment | Prec_logical | Prec_comparison | Prec_additive_or_bit
  | Prec_multiplicative | Prec_prefix | Prec_postfix

primrec precedence_rank :: "precedence \<Rightarrow> nat" where
  "precedence_rank Prec_statement = 0"
| "precedence_rank Prec_assignment = 1"
| "precedence_rank Prec_logical = 2"
| "precedence_rank Prec_comparison = 3"
| "precedence_rank Prec_additive_or_bit = 4"
| "precedence_rank Prec_multiplicative = 5"
| "precedence_rank Prec_prefix = 6"
| "precedence_rank Prec_postfix = 7"

lemma precedence_rank_inj: "precedence_rank p = precedence_rank q \<Longrightarrow> p = q"
  by (cases p; cases q) simp_all

instantiation precedence :: linorder
begin

definition less_eq_precedence :: "precedence \<Rightarrow> precedence \<Rightarrow> bool" where
  "p \<le> q \<longleftrightarrow> precedence_rank p \<le> precedence_rank q"

definition less_precedence :: "precedence \<Rightarrow> precedence \<Rightarrow> bool" where
  "p < q \<longleftrightarrow> precedence_rank p < precedence_rank q"

instance
  by standard (auto simp: less_eq_precedence_def less_precedence_def precedence_rank_inj)

end

definition lookup_precedence_for_associativity :: "binary_operator \<Rightarrow> precedence" where
  "lookup_precedence_for_associativity op =
     (if op \<in> {op_add, op_sub} then Prec_additive_or_bit
      else if op \<in> {op_mul, op_div, op_rem} then Prec_multiplicative
      else if op \<in> {op_bit_and, op_bit_or, op_bit_xor, op_shl, op_shr} then Prec_additive_or_bit
      else if op \<in> {op_eq, op_neq, op_less, op_less_eq, op_greater, op_greater_eq} then Prec_comparison
      else if op \<in> {op_logic_and, op_logic_or} then Prec_logical
      else Prec_assignment)"

section \<open>State and outcomes\<close>

record parser =
  ps_cursor :: token_cursor
  ps_source :: source_view
  ps_reporter :: "report_call list"
  ps_tab_size :: u8

datatype 'a presult =
    Done 'a parser
  | Thrown parser
  | Faulted fault
  | Out_of_fuel

fun pbind :: "'a presult \<Rightarrow> ('a \<Rightarrow> parser \<Rightarrow> 'b presult) \<Rightarrow> 'b presult" where
  "pbind (Done a s) f = f a s"
| "pbind (Thrown s) f = Thrown s"
| "pbind (Faulted e) f = Faulted e"
| "pbind Out_of_fuel f = Out_of_fuel"

text \<open>Cursor operations on the parser state.\<close>

definition p_read :: "(token_cursor \<Rightarrow> fault + 'a) \<Rightarrow> parser \<Rightarrow> 'a presult" where
  "p_read f s = (case f (ps_cursor s) of Inl e \<Rightarrow> Faulted e | Inr a \<Rightarrow> Done a s)"

definition p_move :: "(token_cursor \<Rightarrow> fault + 'a \<times> token_cursor) \<Rightarrow> parser \<Rightarrow> 'a presult" where
  "p_move f s =
     (case f (ps_cursor s) of Inl e \<Rightarrow> Faulted e | Inr (a, c) \<Rightarrow> Done a (s\<lparr>ps_cursor := c\<rparr>))"

definition p_advance :: "parser \<Rightarrow> unit presult" where
  "p_advance s =
     (case tc_advance (ps_cursor s) of Inl e \<Rightarrow> Faulted e | Inr c \<Rightarrow> Done () (s\<lparr>ps_cursor := c\<rparr>))"

section \<open>Reporting\<close>

definition parser_report :: "message \<Rightarrow> code_location \<Rightarrow> message_args \<Rightarrow> parser \<Rightarrow> parser" where
  "parser_report m location args s =
     s\<lparr>ps_reporter := ps_reporter s @ [\<lparr>rep_location = location, rep_message = m, rep_args = args\<rparr>]\<rparr>"

definition report_expected :: "message \<Rightarrow> parser \<Rightarrow> unit presult" where
  "report_expected m s =
     pbind (p_read tc_peek s) (\<lambda>t s.
       case locate_in t (ps_source s) (ps_tab_size s) of
         None \<Rightarrow> Faulted Out_of_range
       | Some location \<Rightarrow>
           (let format = get_token_message_format (tok_kind t)
            in case token_get_text t (ps_source s) of
                 Inl e \<Rightarrow> Faulted e
               | Inr lexeme \<Rightarrow> Done () (parser_report m location [Arg_formatted format lexeme] s)))"

text \<open>\<open>report_expected\<close> followed by \<open>throw ParseError()\<close>.\<close>

definition report_and_throw :: "message \<Rightarrow> parser \<Rightarrow> 'a presult" where
  "report_and_throw m s = pbind (report_expected m s) (\<lambda>_ s. Thrown s)"

definition expect :: "token_kind \<Rightarrow> message \<Rightarrow> parser \<Rightarrow> unit presult" where
  "expect kind m s =
     pbind (p_move (tc_match kind) s) (\<lambda>matched s.
       if \<not> matched then report_and_throw m s else Done () s)"

definition p_name_from :: "token \<Rightarrow> parser \<Rightarrow> ast_name presult" where
  "p_name_from t s = (case ast_name_from t of Inl e \<Rightarrow> Faulted e | Inr n \<Rightarrow> Done n s)"

definition expect_identifier :: "message \<Rightarrow> parser \<Rightarrow> ast_name presult" where
  "expect_identifier m s =
     pbind (p_move (tc_match_token TK_identifier) s) (\<lambda>t s.
       case t of
         Some tok \<Rightarrow> p_name_from tok s
       | None \<Rightarrow> pbind (report_expected m s) (\<lambda>_ s. Done ast_name_empty s))"

section \<open>Recovery\<close>

definition recovery_tokens :: "token_kind list" where
  "recovery_tokens = [TK_kw_public, TK_kw_private, TK_kw_struct, TK_kw_enum, TK_end_of_file]"

text \<open>The \<open>do\<close> loop of \<open>recover_at_definition_level\<close>.\<close>

fun recover_at_definition_loop :: "token_cursor \<Rightarrow> fault + token_cursor" where
  "recover_at_definition_loop [] = Inl Out_of_bounds"
| "recover_at_definition_loop (t # ts) =
     (if tok_kind t = TK_end_of_file then Inr (t # ts)
      else (case ts of
              [] \<Rightarrow> Inl Out_of_bounds
            | u # us \<Rightarrow> if tok_kind u \<in> set recovery_tokens then Inr ts
                        else recover_at_definition_loop ts))"

definition recover_at_definition_level :: "parser \<Rightarrow> unit presult" where
  "recover_at_definition_level s =
     (case recover_at_definition_loop (ps_cursor s) of
        Inl e \<Rightarrow> Faulted e
      | Inr c \<Rightarrow> Done () (s\<lparr>ps_cursor := c\<rparr>))"

fun recover_at_statement_loop :: "token_cursor \<Rightarrow> fault + bool \<times> token_cursor" where
  "recover_at_statement_loop [] = Inl Out_of_bounds"
| "recover_at_statement_loop (t # ts) =
     (if tok_kind t = TK_end_of_file then Inr (True, t # ts)
      else if tok_kind t = TK_semicolon then Inr (False, ts)
      else if tok_kind t = TK_r_brace then Inr (False, t # ts)
      else recover_at_statement_loop ts)"

definition recover_at_statement_level :: "parser \<Rightarrow> bool presult" where
  "recover_at_statement_level s = p_move recover_at_statement_loop s"

section \<open>Rules\<close>

datatype head_parse_function =
    On_identifier
  | On_literal literal_kind
  | On_prefix_left_brace
  | On_kw_return
  | On_prefix_operator unary_operator

datatype tail_parse_function =
    On_binary_operator binary_operator
  | On_postfix_operator unary_operator
  | On_infix_left_paren

datatype statement_parse_function =
    Stmt_prefix_left_brace
  | Stmt_expression

record statement_rule =
  parse_fn :: statement_parse_function
  needs_semicolon :: bool

record tail_parse_rule =
  rule_precedence :: precedence
  rule_fn :: "tail_parse_function option"

definition lookup_statement_rule :: "parser \<Rightarrow> statement_rule presult" where
  "lookup_statement_rule s =
     pbind (p_read tc_peek_kind s) (\<lambda>next s.
       Done (if next = TK_l_brace then \<lparr>parse_fn = Stmt_prefix_left_brace, needs_semicolon = False\<rparr>
             else \<lparr>parse_fn = Stmt_expression, needs_semicolon = True\<rparr>) s)"

text \<open>The cases of the \<open>switch\<close> in \<open>lookup_head_parse_fn\<close>; its default is the null pointer.\<close>

definition head_parse_table :: "(token_kind \<times> head_parse_function) list" where
  "head_parse_table =
     [(TK_identifier, On_identifier),
      (TK_dec_int_literal, On_literal lit_dec_int),
      (TK_hex_int_literal, On_literal lit_hex_int),
      (TK_bin_int_literal, On_literal lit_bin_int),
      (TK_oct_int_literal, On_literal lit_oct_int),
      (TK_float_literal, On_literal lit_float),
      (TK_char_literal, On_literal lit_char),
      (TK_string_literal, On_literal lit_string),
      (TK_l_brace, On_prefix_left_brace),
      (TK_kw_return, On_kw_return),
      (TK_ampersand, On_prefix_operator addr_of),
      (TK_minus, On_prefix_operator negate),
      (TK_tilde, On_prefix_operator bit_not),
      (TK_bang, On_prefix_operator logic_not),
      (TK_plus_plus, On_prefix_operator pre_increment),
      (TK_minus_minus, On_prefix_operator pre_decrement)]"

definition lookup_head_parse_fn :: "token_kind \<Rightarrow> head_parse_function option" where
  "lookup_head_parse_fn kind = map_of head_parse_table kind"

definition is_expression_next :: "parser \<Rightarrow> bool presult" where
  "is_expression_next s =
     pbind (p_read tc_peek_kind s) (\<lambda>kind s. Done (lookup_head_parse_fn kind \<noteq> None) s)"

text \<open>The cases of the \<open>switch\<close> in \<open>lookup_tail_parse_rule\<close>, but for \<open>r_angle\<close>, which looks ahead.\<close>

definition tail_parse_table :: "(token_kind \<times> precedence \<times> tail_parse_function) list" where
  "tail_parse_table =
     [(TK_eq, Prec_assignment, On_binary_operator op_assign),
      (TK_plus_eq, Prec_assignment, On_binary_operator op_add_assign),
      (TK_minus_eq, Prec_assignment, On_binary_operator op_sub_assign),
      (TK_star_eq, Prec_assignment, On_binary_operator op_mul_assign),
      (TK_slash_eq, Prec_assignment, On_binary_operator op_div_assign),
      (TK_percent_eq, Prec_assignment, On_binary_operator op_rem_assign),
      (TK_ampersand_eq, Prec_assignment, On_binary_operator op_bit_and_assign),
      (TK_pipe_eq, Prec_assignment, On_binary_operator op_bit_or_assign),
      (TK_tilde_eq, Prec_assignment, On_binary_operator op_xor_assign),
      (TK_l_angle_angle_eq, Prec_assignment, On_binary_operator op_shl_assign),
      (TK_r_angle_angle_eq, Prec_assignment, On_binary_operator op_shr_assign),
      (TK_and_and_eq, Prec_assignment, On_binary_operator op_logic_and_assign),
      (TK_pipe_pipe_eq, Prec_assignment, On_binary_operator op_logic_or_assign),
      (TK_and_and, Prec_logical, On_binary_operator op_logic_and),
      (TK_pipe_pipe, Prec_logical, On_binary_operator op_logic_or),
      (TK_eq_eq, Prec_comparison, On_binary_operator op_eq),
      (TK_bang_eq, Prec_comparison, On_binary_operator op_neq),
      (TK_l_angle, Prec_comparison, On_binary_operator op_less),
      (TK_l_angle_eq, Prec_comparison, On_binary_operator op_less_eq),
      (TK_r_angle_eq, Prec_comparison, On_binary_operator op_greater_eq),
      (TK_plus, Prec_additive_or_bit, On_binary_operator op_add),
      (TK_minus, Prec_additive_or_bit, On_binary_operator op_sub),
      (TK_ampersand, Prec_additive_or_bit, On_binary_operator op_bit_and),
      (TK_pipe, Prec_additive_or_bit, On_binary_operator op_bit_or),
      (TK_tilde, Prec_additive_or_bit, On_binary_operator op_bit_xor),
      (TK_l_angle_angle, Prec_additive_or_bit, On_binary_operator op_shl),
      (TK_star, Prec_multiplicative, On_binary_operator op_mul),
      (TK_slash, Prec_multiplicative, On_binary_operator op_div),
      (TK_percent, Prec_multiplicative, On_binary_operator op_rem),
      (TK_caret, Prec_postfix, On_postfix_operator deref),
      (TK_plus_plus, Prec_postfix, On_postfix_operator post_increment),
      (TK_minus_minus, Prec_postfix, On_postfix_operator post_decrement),
      (TK_l_paren, Prec_postfix, On_infix_left_paren)]"

definition lookup_tail_parse_rule :: "token \<Rightarrow> parser \<Rightarrow> tail_parse_rule presult" where
  "lookup_tail_parse_rule t s =
     (if tok_kind t = TK_r_angle then
        pbind (p_read tc_peek_ahead s) (\<lambda>next s.
          Done (if tok_kind next = TK_r_angle \<and> tok_offset next = tok_offset t + 1
                then \<lparr>rule_precedence = Prec_additive_or_bit, rule_fn = Some (On_binary_operator op_shr)\<rparr>
                else \<lparr>rule_precedence = Prec_comparison, rule_fn = Some (On_binary_operator op_greater)\<rparr>) s)
      else (case map_of tail_parse_table (tok_kind t) of
              Some (p, f) \<Rightarrow> Done \<lparr>rule_precedence = p, rule_fn = Some f\<rparr> s
            | None \<Rightarrow> Done \<lparr>rule_precedence = Prec_statement, rule_fn = None\<rparr> s))"

definition get_next_tail_parse_fn :: "precedence \<Rightarrow> parser \<Rightarrow> tail_parse_function option presult" where
  "get_next_tail_parse_fn current_precedence s =
     pbind (p_read tc_peek s) (\<lambda>t s.
       pbind (lookup_tail_parse_rule t s) (\<lambda>rule s.
         Done (if current_precedence < rule_precedence rule then rule_fn rule else None) s))"

section \<open>Expressions and blocks\<close>

definition on_identifier :: "parser \<Rightarrow> ast_expression presult" where
  "on_identifier s =
     pbind (p_move tc_next s) (\<lambda>t s.
       Done (AstIdentExpr (node_offset (tok_offset t)) (variable_length t)) s)"

definition on_literal :: "literal_kind \<Rightarrow> parser \<Rightarrow> ast_expression presult" where
  "on_literal literal_kind s =
     pbind (p_move tc_next s) (\<lambda>t s.
       Done (AstLiteralExpr (node_offset (tok_offset t)) literal_kind (variable_length t)) s)"

definition on_postfix_operator :: "unary_operator \<Rightarrow> ast_expression \<Rightarrow> parser \<Rightarrow> ast_expression presult" where
  "on_postfix_operator op left s =
     pbind (p_advance s) (\<lambda>_ s. Done (AstUnaryExpr (node_offset (token_offset left)) op left) s)"

text \<open>
  The recursive functions. \<open>parse_tails\<close> is the loop of \<open>parse_expression\<close>, \<open>parse_expression_list\<close>
  the \<open>do\<close> loop that \<open>on_kw_return\<close> and \<open>on_infix_left_paren\<close> have, \<open>parse_statements\<close> the loop of
  \<open>parse_block\<close>; each takes what the loop has collected so far.
\<close>

function (sequential) parse_expression :: "nat \<Rightarrow> precedence \<Rightarrow> parser \<Rightarrow> ast_expression presult"
  and parse_tails :: "nat \<Rightarrow> precedence \<Rightarrow> ast_expression \<Rightarrow> parser \<Rightarrow> ast_expression presult"
  and run_head :: "nat \<Rightarrow> head_parse_function \<Rightarrow> parser \<Rightarrow> ast_expression presult"
  and run_tail :: "nat \<Rightarrow> tail_parse_function \<Rightarrow> ast_expression \<Rightarrow> parser \<Rightarrow> ast_expression presult"
  and parse_expression_list :: "nat \<Rightarrow> ast_expression list \<Rightarrow> parser \<Rightarrow> ast_expression list presult"
  and parse_statement :: "nat \<Rightarrow> parser \<Rightarrow> ast_expression presult"
  and parse_statements :: "nat \<Rightarrow> ast_expression list \<Rightarrow> parser \<Rightarrow> ast_expression list presult"
where
  "parse_expression 0 precedence s = Out_of_fuel"
| "parse_expression (Suc n) precedence s =
     pbind (p_read tc_peek s) (\<lambda>next s.
       case lookup_head_parse_fn (tok_kind next) of
         None \<Rightarrow> report_and_throw expect_expression s
       | Some head_fn \<Rightarrow>
           pbind (run_head n head_fn s) (\<lambda>expr s. parse_tails n precedence expr s))"
| "parse_tails 0 precedence expr s = Out_of_fuel"
| "parse_tails (Suc n) precedence expr s =
     pbind (get_next_tail_parse_fn precedence s) (\<lambda>tail_fn s.
       case tail_fn of
         None \<Rightarrow> Done expr s
       | Some f \<Rightarrow> pbind (run_tail n f expr s) (\<lambda>expr s. parse_tails n precedence expr s))"
| "run_head 0 head_fn s = Out_of_fuel"
| "run_head (Suc n) head_fn s =
     (case head_fn of
        On_identifier \<Rightarrow> on_identifier s
      | On_literal literal_kind \<Rightarrow> on_literal literal_kind s
      | On_prefix_left_brace \<Rightarrow>
          pbind (p_move tc_next s) (\<lambda>t s.
          pbind (parse_statements n [] s) (\<lambda>statements s.
            Done (AstBlockExpr (node_offset (tok_offset t)) statements) s))
      | On_kw_return \<Rightarrow>
          pbind (p_move tc_next s) (\<lambda>t s.
          pbind (is_expression_next s) (\<lambda>expression_next s.
            if expression_next then
              pbind (parse_expression_list n [] s) (\<lambda>ret_values s.
                Done (AstReturnExpr (node_offset (tok_offset t)) ret_values) s)
            else Done (AstReturnExpr (node_offset (tok_offset t)) []) s))
      | On_prefix_operator op \<Rightarrow>
          pbind (p_move tc_next s) (\<lambda>t s.
          pbind (parse_expression n Prec_prefix s) (\<lambda>operand s.
            Done (AstUnaryExpr (node_offset (tok_offset t)) op operand) s)))"
| "run_tail 0 tail_fn left s = Out_of_fuel"
| "run_tail (Suc n) tail_fn left s =
     (case tail_fn of
        On_binary_operator op \<Rightarrow>
          pbind (p_advance s) (\<lambda>_ s.
          pbind (if op = op_shr then p_advance s else Done () s) (\<lambda>_ s.
          pbind (parse_expression n (lookup_precedence_for_associativity op) s) (\<lambda>right s.
            Done (AstBinaryExpr (node_offset (token_offset left)) op left right) s)))
      | On_postfix_operator op \<Rightarrow> on_postfix_operator op left s
      | On_infix_left_paren \<Rightarrow>
          pbind (p_advance s) (\<lambda>_ s.
          pbind (p_move (tc_match TK_r_paren) s) (\<lambda>closed s.
            if \<not> closed then
              pbind (parse_expression_list n [] s) (\<lambda>args s.
              pbind (expect TK_r_paren expect_closing_paren_in_call s) (\<lambda>_ s.
                Done (AstCallExpr (node_offset (token_offset left)) left args) s))
            else Done (AstCallExpr (node_offset (token_offset left)) left []) s)))"
| "parse_expression_list 0 exprs s = Out_of_fuel"
| "parse_expression_list (Suc n) exprs s =
     pbind (parse_expression n Prec_statement s) (\<lambda>expr s.
     pbind (p_move (tc_match TK_comma) s) (\<lambda>comma s.
       if comma then parse_expression_list n (exprs @ [expr]) s
       else Done (exprs @ [expr]) s))"
| "parse_statement 0 s = Out_of_fuel"
| "parse_statement (Suc n) s =
     pbind (lookup_statement_rule s) (\<lambda>rule s.
     pbind (case parse_fn rule of
              Stmt_prefix_left_brace \<Rightarrow> run_head n On_prefix_left_brace s
            | Stmt_expression \<Rightarrow> parse_expression n Prec_statement s) (\<lambda>last_expr s.
       if needs_semicolon rule
       then pbind (expect TK_semicolon expect_semicolon s) (\<lambda>_ s. Done last_expr s)
       else Done last_expr s))"
| "parse_statements 0 statements s = Out_of_fuel"
| "parse_statements (Suc n) statements s =
     pbind (p_move (tc_match TK_r_brace) s) (\<lambda>closed s.
       if closed then Done statements s
       else (case parse_statement n s of
               Done statement s \<Rightarrow> parse_statements n (statements @ [statement]) s
             | Thrown s \<Rightarrow>
                 pbind (recover_at_statement_level s) (\<lambda>at_end s.
                   if at_end then Done statements s else parse_statements n statements s)
             | Faulted e \<Rightarrow> Faulted e
             | Out_of_fuel \<Rightarrow> Out_of_fuel))"

  by pat_completeness auto
termination
  by (relation "measure (case_sum (case_sum fst (case_sum fst fst)) (case_sum (case_sum fst fst) (case_sum fst fst)))")
    simp_all

definition parse_block :: "nat \<Rightarrow> parser \<Rightarrow> ast_expression list presult" where
  "parse_block n s = parse_statements n [] s"

section \<open>Definitions\<close>

definition parse_type :: "message \<Rightarrow> parser \<Rightarrow> ast_expression presult" where
  "parse_type error_message s =
     pbind (p_read tc_peek_kind s) (\<lambda>kind s.
       if kind = TK_identifier then on_identifier s else report_and_throw error_message s)"

definition parse_function_definition_parameter :: "parser \<Rightarrow> ast_function_parameter presult" where
  "parse_function_definition_parameter s =
     pbind (p_read tc_peek_offset s) (\<lambda>offset s.
     pbind (parse_type expect_parameter_type s) (\<lambda>type s.
     pbind (expect_identifier expect_parameter_name s) (\<lambda>name s.
       if ast_name_is_empty name then Thrown s
       else Done \<lparr>param_offset = node_offset offset, param_type = type, param_name = name\<rparr> s)))"

fun parse_parameter_list ::
    "nat \<Rightarrow> ast_function_parameter list \<Rightarrow> parser \<Rightarrow> ast_function_parameter list presult" where
  "parse_parameter_list 0 parameters s = Out_of_fuel"
| "parse_parameter_list (Suc n) parameters s =
     pbind (parse_function_definition_parameter s) (\<lambda>param s.
     pbind (p_move (tc_match TK_comma) s) (\<lambda>comma s.
       if comma then parse_parameter_list n (parameters @ [param]) s
       else Done (parameters @ [param]) s))"

definition parse_function_definition_parameters :: "nat \<Rightarrow> parser \<Rightarrow> ast_function_parameter list presult" where
  "parse_function_definition_parameters n s =
     pbind (p_move (tc_match TK_r_paren) s) (\<lambda>closed s.
       if \<not> closed then
         pbind (parse_parameter_list n [] s) (\<lambda>parameters s.
         pbind (expect TK_r_paren expect_paren_after_parameters s) (\<lambda>_ s. Done parameters s))
       else Done [] s)"

definition parse_function_definition_output :: "parser \<Rightarrow> ast_function_output presult" where
  "parse_function_definition_output s =
     pbind (p_read tc_peek_offset s) (\<lambda>offset s.
     pbind (parse_type expect_return_type s) (\<lambda>type s.
       Done \<lparr>output_offset = node_offset offset, output_type = type, output_name = ast_name_empty\<rparr> s))"

fun parse_output_list ::
    "nat \<Rightarrow> ast_function_output list \<Rightarrow> parser \<Rightarrow> ast_function_output list presult" where
  "parse_output_list 0 outputs s = Out_of_fuel"
| "parse_output_list (Suc n) outputs s =
     pbind (parse_function_definition_output s) (\<lambda>out s.
     pbind (p_move (tc_match TK_comma) s) (\<lambda>comma s.
       if comma then parse_output_list n (outputs @ [out]) s
       else Done (outputs @ [out]) s))"

definition parse_function_definition_outputs :: "nat \<Rightarrow> parser \<Rightarrow> ast_function_output list presult" where
  "parse_function_definition_outputs n s =
     pbind (p_move (tc_match TK_thin_arrow) s) (\<lambda>arrow s.
       if arrow then parse_output_list n [] s else Done [] s)"

definition parse_function_definition ::
    "nat \<Rightarrow> source_size \<Rightarrow> access_modifier \<Rightarrow> token \<Rightarrow> parser \<Rightarrow> ast_definition presult" where
  "parse_function_definition n offset access_modifier ident s =
     pbind (p_name_from ident s) (\<lambda>name s.
     pbind (expect TK_l_paren expect_paren_after_function_name s) (\<lambda>_ s.
     pbind (parse_function_definition_parameters n s) (\<lambda>parameters s.
     pbind (parse_function_definition_outputs n s) (\<lambda>outputs s.
     pbind (expect TK_l_brace expect_brace_before_function_body s) (\<lambda>_ s.
     pbind (parse_block n s) (\<lambda>statements s.
       Done \<lparr>fn_offset = node_offset offset, fn_access_modifier = access_modifier, fn_name = name,
             fn_parameters = parameters, fn_outputs = outputs, fn_statements = statements\<rparr> s))))))"

definition parse_access_modifier :: "parser \<Rightarrow> access_modifier presult" where
  "parse_access_modifier s =
     pbind (p_move (tc_match TK_kw_private) s) (\<lambda>is_private s.
       if is_private then Done access_private s
       else pbind (p_move (tc_match TK_kw_public) s) (\<lambda>is_public s.
              if is_public then Done access_public s else Done access_none s))"

definition parse_definition :: "nat \<Rightarrow> parser \<Rightarrow> ast_definition presult" where
  "parse_definition n s =
     pbind (p_read tc_peek_offset s) (\<lambda>offset s.
     pbind (parse_access_modifier s) (\<lambda>access_modifier s.
     pbind (p_move (tc_match_token TK_identifier) s) (\<lambda>t s.
       case t of
         Some tok \<Rightarrow> parse_function_definition n offset access_modifier tok s
       | None \<Rightarrow> report_and_throw expect_function_struct_or_enum s)))"

section \<open>The whole parser\<close>

fun parser_run :: "nat \<Rightarrow> ast_definition list \<Rightarrow> parser \<Rightarrow> ast_definition list presult" where
  "parser_run 0 definitions s = Out_of_fuel"
| "parser_run (Suc n) definitions s =
     pbind (p_move (tc_match TK_end_of_file) s) (\<lambda>at_end s.
       if at_end then Done definitions s
       else (case parse_definition n s of
               Done definition s \<Rightarrow> parser_run n (definitions @ [definition]) s
             | Thrown s \<Rightarrow>
                 pbind (recover_at_definition_level s) (\<lambda>_ s. parser_run n definitions s)
             | Faulted e \<Rightarrow> Faulted e
             | Out_of_fuel \<Rightarrow> Out_of_fuel))"

definition parser_init :: "token_list \<Rightarrow> source_view \<Rightarrow> report_call list \<Rightarrow> u8 \<Rightarrow> parser" where
  "parser_init tokens v reporter tab_size =
     \<lparr>ps_cursor = tc_init tokens, ps_source = v, ps_reporter = reporter, ps_tab_size = tab_size\<rparr>"

text \<open>Five rounds of recursion per token, and a constant, are enough.\<close>

definition parser_fuel :: "token_list \<Rightarrow> nat" where
  "parser_fuel tokens = 5 * length tokens + 10"

definition run_parser ::
    "token_list \<Rightarrow> source_view \<Rightarrow> report_call list \<Rightarrow> u8 \<Rightarrow> fault + ast_root \<times> report_call list" where
  "run_parser tokens v reporter tab_size =
     (case parser_run (parser_fuel tokens) [] (parser_init tokens v reporter tab_size) of
        Done definitions s \<Rightarrow> Inr (\<lparr>root_definitions = definitions\<rparr>, ps_reporter s)
      | Faulted e \<Rightarrow> Inl e
      | _ \<Rightarrow> Inl Unreachable_reached)"

end
