(* ===== verification/Grammar.thy ===== *)
theory Grammar
  imports Parser
begin

text \<open>
  The specification of parsing. A tree is printed to symbols, which name the kind of a token and,
  where the tree records it, its offset and length. \<open>well_formed\<close> says that a tree respects operator
  precedence and associativity, and that every node has the offset of its first token. Together
  they describe the language and the tree of each of its texts.
\<close>

section \<open>Symbols\<close>

text \<open>
  A symbol stands for a token of a kind, with the offset and length of the token where the tree has
  them, or for the two adjacent angle brackets of a right shift.
\<close>

datatype symbol =
    Sym token_kind "(source_size \<times> source_size) option"
  | Double_angle

abbreviation plain :: "token_kind \<Rightarrow> symbol" where
  "plain k \<equiv> Sym k None"

abbreviation at_offset :: "token_kind \<Rightarrow> source_size \<Rightarrow> symbol" where
  "at_offset k off \<equiv> Sym k (Some (off, 0))"

definition has_place :: "token \<Rightarrow> (source_size \<times> source_size) option \<Rightarrow> bool" where
  "has_place t x \<longleftrightarrow>
     (case x of None \<Rightarrow> True | Some (off, len) \<Rightarrow> tok_offset t = off \<and> variable_length t = len)"

lemma has_place_simps [simp]:
  "has_place t None"
  "has_place t (Some (off, len)) \<longleftrightarrow> tok_offset t = off \<and> variable_length t = len"
  by (auto simp: has_place_def)

definition angles :: "token \<Rightarrow> token \<Rightarrow> bool" where
  "angles t u \<longleftrightarrow>
     tok_kind t = TK_r_angle \<and> tok_kind u = TK_r_angle \<and> tok_offset u = tok_offset t + 1"

text \<open>The tokens spell the symbols, in order.\<close>

fun spells :: "token list \<Rightarrow> symbol list \<Rightarrow> bool" where
  "spells ts [] \<longleftrightarrow> ts = []"
| "spells (t # ts) (Sym k x # xs) \<longleftrightarrow> tok_kind t = k \<and> has_place t x \<and> spells ts xs"
| "spells (t # u # ts) (Double_angle # xs) \<longleftrightarrow> angles t u \<and> spells ts xs"
| "spells ts xs \<longleftrightarrow> False"

lemma spells_Sym:
  "spells ts (Sym k x # xs) \<longleftrightarrow> (\<exists>t us. ts = t # us \<and> tok_kind t = k \<and> has_place t x \<and> spells us xs)"
  by (cases ts) auto

lemma spells_Double:
  "spells ts (Double_angle # xs) \<longleftrightarrow> (\<exists>t u us. ts = t # u # us \<and> angles t u \<and> spells us xs)"
  by (cases ts; cases "tl ts") auto

lemma spells_append:
  "spells ts (xs @ ys) \<longleftrightarrow> (\<exists>us vs. ts = us @ vs \<and> spells us xs \<and> spells vs ys)"
proof (induction xs arbitrary: ts)
  case (Cons x xs)
  show ?case
  proof
    assume "spells ts ((x # xs) @ ys)"
    then show "\<exists>us vs. ts = us @ vs \<and> spells us (x # xs) \<and> spells vs ys"
      by (cases x) (auto simp: spells_Sym spells_Double Cons.IH, metis append_Cons, metis append_Cons)
  next
    assume "\<exists>us vs. ts = us @ vs \<and> spells us (x # xs) \<and> spells vs ys"
    then show "spells ts ((x # xs) @ ys)"
      by (cases x) (auto simp: spells_Sym spells_Double Cons.IH, blast+)
  qed
qed auto

lemma spells_appendI: "spells ts xs \<Longrightarrow> spells us ys \<Longrightarrow> spells (ts @ us) (xs @ ys)"
  by (auto simp: spells_append)

lemma spells_not_empty: "spells ts (x # xs) \<Longrightarrow> ts \<noteq> []"
  by (cases x) (auto simp: spells_Sym spells_Double)

section \<open>Printing expressions\<close>

primrec literal_token :: "literal_kind \<Rightarrow> token_kind" where
  "literal_token lit_dec_int = TK_dec_int_literal"
| "literal_token lit_hex_int = TK_hex_int_literal"
| "literal_token lit_bin_int = TK_bin_int_literal"
| "literal_token lit_oct_int = TK_oct_int_literal"
| "literal_token lit_float = TK_float_literal"
| "literal_token lit_char = TK_char_literal"
| "literal_token lit_string = TK_string_literal"

text \<open>The token of a unary operator, and whether it stands before its operand.\<close>

primrec unary_token :: "unary_operator \<Rightarrow> token_kind \<times> bool" where
  "unary_token pre_increment = (TK_plus_plus, True)"
| "unary_token pre_decrement = (TK_minus_minus, True)"
| "unary_token post_increment = (TK_plus_plus, False)"
| "unary_token post_decrement = (TK_minus_minus, False)"
| "unary_token negate = (TK_minus, True)"
| "unary_token bit_not = (TK_tilde, True)"
| "unary_token logic_not = (TK_bang, True)"
| "unary_token addr_of = (TK_ampersand, True)"
| "unary_token deref = (TK_caret, False)"

text \<open>The symbol of a binary operator.\<close>

primrec binary_symbol :: "binary_operator \<Rightarrow> symbol" where
  "binary_symbol op_add = plain TK_plus"
| "binary_symbol op_sub = plain TK_minus"
| "binary_symbol op_mul = plain TK_star"
| "binary_symbol op_div = plain TK_slash"
| "binary_symbol op_rem = plain TK_percent"
| "binary_symbol op_bit_and = plain TK_ampersand"
| "binary_symbol op_bit_or = plain TK_pipe"
| "binary_symbol op_bit_xor = plain TK_tilde"
| "binary_symbol op_shl = plain TK_l_angle_angle"
| "binary_symbol op_shr = Double_angle"
| "binary_symbol op_logic_and = plain TK_and_and"
| "binary_symbol op_logic_or = plain TK_pipe_pipe"
| "binary_symbol op_eq = plain TK_eq_eq"
| "binary_symbol op_neq = plain TK_bang_eq"
| "binary_symbol op_less = plain TK_l_angle"
| "binary_symbol op_less_eq = plain TK_l_angle_eq"
| "binary_symbol op_greater = plain TK_r_angle"
| "binary_symbol op_greater_eq = plain TK_r_angle_eq"
| "binary_symbol op_assign = plain TK_eq"
| "binary_symbol op_add_assign = plain TK_plus_eq"
| "binary_symbol op_sub_assign = plain TK_minus_eq"
| "binary_symbol op_mul_assign = plain TK_star_eq"
| "binary_symbol op_div_assign = plain TK_slash_eq"
| "binary_symbol op_rem_assign = plain TK_percent_eq"
| "binary_symbol op_bit_and_assign = plain TK_ampersand_eq"
| "binary_symbol op_bit_or_assign = plain TK_pipe_eq"
| "binary_symbol op_xor_assign = plain TK_tilde_eq"
| "binary_symbol op_shl_assign = plain TK_l_angle_angle_eq"
| "binary_symbol op_shr_assign = plain TK_r_angle_angle_eq"
| "binary_symbol op_logic_and_assign = plain TK_and_and_eq"
| "binary_symbol op_logic_or_assign = plain TK_pipe_pipe_eq"

fun comma_separated :: "symbol list list \<Rightarrow> symbol list" where
  "comma_separated [] = []"
| "comma_separated [x] = x"
| "comma_separated (x # xs) = x @ plain TK_comma # comma_separated xs"

definition is_block :: "ast_expression \<Rightarrow> bool" where
  "is_block e \<longleftrightarrow> (case e of AstBlockExpr off statements \<Rightarrow> True | _ \<Rightarrow> False)"

text \<open>A block stands for itself as a statement; other expressions take a semicolon.\<close>

definition terminated :: "ast_expression \<Rightarrow> symbol list \<Rightarrow> symbol list" where
  "terminated e xs = (if is_block e then xs else xs @ [plain TK_semicolon])"

fun expr_symbols :: "ast_expression \<Rightarrow> symbol list" where
  "expr_symbols (AstIdentExpr off len) = [Sym TK_identifier (Some (off, len))]"
| "expr_symbols (AstLiteralExpr off kind len) = [Sym (literal_token kind) (Some (off, len))]"
| "expr_symbols (AstBlockExpr off statements) =
     at_offset TK_l_brace off # concat (map (\<lambda>e. terminated e (expr_symbols e)) statements) @ [plain TK_r_brace]"
| "expr_symbols (AstReturnExpr off ret_values) =
     at_offset TK_kw_return off # comma_separated (map expr_symbols ret_values)"
| "expr_symbols (AstUnaryExpr off op operand) =
     (if snd (unary_token op) then at_offset (fst (unary_token op)) off # expr_symbols operand
      else expr_symbols operand @ [plain (fst (unary_token op))])"
| "expr_symbols (AstBinaryExpr off op left right) =
     expr_symbols left @ binary_symbol op # expr_symbols right"
| "expr_symbols (AstCallExpr off callee args) =
     expr_symbols callee @ plain TK_l_paren # comma_separated (map expr_symbols args) @ [plain TK_r_paren]"

section \<open>Precedence of trees\<close>

text \<open>
  The precedence of each binary operator: multiplication binds tighter than addition and the operators on bits, these
  tighter than comparison, then the logical operators, then assignment. The parser has a switch
  over sets of operators, and it agrees.
\<close>

fun operator_precedence :: "binary_operator \<Rightarrow> precedence" where
  "operator_precedence op_mul = Prec_multiplicative"
| "operator_precedence op_div = Prec_multiplicative"
| "operator_precedence op_rem = Prec_multiplicative"
| "operator_precedence op_add = Prec_additive_or_bit"
| "operator_precedence op_sub = Prec_additive_or_bit"
| "operator_precedence op_bit_and = Prec_additive_or_bit"
| "operator_precedence op_bit_or = Prec_additive_or_bit"
| "operator_precedence op_bit_xor = Prec_additive_or_bit"
| "operator_precedence op_shl = Prec_additive_or_bit"
| "operator_precedence op_shr = Prec_additive_or_bit"
| "operator_precedence op_eq = Prec_comparison"
| "operator_precedence op_neq = Prec_comparison"
| "operator_precedence op_less = Prec_comparison"
| "operator_precedence op_less_eq = Prec_comparison"
| "operator_precedence op_greater = Prec_comparison"
| "operator_precedence op_greater_eq = Prec_comparison"
| "operator_precedence op_logic_and = Prec_logical"
| "operator_precedence op_logic_or = Prec_logical"
| "operator_precedence _ = Prec_assignment"

lemma operator_precedence_parser [simp]: "operator_precedence op = lookup_precedence_for_associativity op"
  by (cases op) (simp_all add: lookup_precedence_for_associativity_def)

text \<open>
  How tightly an operator behind an expression may bind so that it applies to the whole of it:
  the weakest operator on the right edge decides. A \<open>return\<close> with values takes all that follows.
\<close>

fun right_edge :: "ast_expression \<Rightarrow> precedence" where
  "right_edge (AstReturnExpr off ret_values) = (if ret_values = [] then Prec_postfix else Prec_statement)"
| "right_edge (AstUnaryExpr off op operand) =
     (if snd (unary_token op) then min Prec_prefix (right_edge operand) else Prec_postfix)"
| "right_edge (AstBinaryExpr off op left right) =
     min (operator_precedence op) (right_edge right)"
| "right_edge e = Prec_postfix"

text \<open>
  A \<open>return\<close> without values on the right edge: a token behind it that can start an expression would
  be read as its value.
\<close>

fun bare_return :: "ast_expression \<Rightarrow> bool" where
  "bare_return (AstReturnExpr off ret_values) \<longleftrightarrow> ret_values = []"
| "bare_return (AstUnaryExpr off op operand) \<longleftrightarrow> snd (unary_token op) \<and> bare_return operand"
| "bare_return (AstBinaryExpr off op left right) \<longleftrightarrow> bare_return right"
| "bare_return e \<longleftrightarrow> False"

definition starts_expression :: "token_kind \<Rightarrow> bool" where
  "starts_expression k \<longleftrightarrow>
     k \<in> {TK_identifier, TK_dec_int_literal, TK_hex_int_literal, TK_bin_int_literal, TK_oct_int_literal,
       TK_float_literal, TK_char_literal, TK_string_literal, TK_l_brace, TK_kw_return, TK_ampersand,
       TK_minus, TK_tilde, TK_bang, TK_plus_plus, TK_minus_minus}"

text \<open>
  What may stand behind an expression: a bare \<open>return\<close> would take an expression for its value, and a
  \<open>return\<close> with values would take a comma for one between its values.
\<close>

definition may_follow :: "ast_expression \<Rightarrow> token_kind \<Rightarrow> bool" where
  "may_follow e k \<longleftrightarrow>
     (bare_return e \<longrightarrow> \<not> starts_expression k) \<and> (right_edge e = Prec_statement \<longrightarrow> k \<noteq> TK_comma)"

fun symbol_kind :: "symbol \<Rightarrow> token_kind" where
  "symbol_kind (Sym k x) = k"
| "symbol_kind Double_angle = TK_r_angle"

definition separable :: "ast_expression list \<Rightarrow> bool" where
  "separable es \<longleftrightarrow> (\<forall>e \<in> set (butlast es). may_follow e TK_comma)"

text \<open>An expression whose first token is a brace.\<close>

fun starts_with_block :: "ast_expression \<Rightarrow> bool" where
  "starts_with_block (AstBlockExpr off statements) \<longleftrightarrow> True"
| "starts_with_block (AstUnaryExpr off op operand) \<longleftrightarrow> \<not> snd (unary_token op) \<and> starts_with_block operand"
| "starts_with_block (AstBinaryExpr off op left right) \<longleftrightarrow> starts_with_block left"
| "starts_with_block (AstCallExpr off callee args) \<longleftrightarrow> starts_with_block callee"
| "starts_with_block e \<longleftrightarrow> False"

text \<open>
  A statement that starts with a brace is a block: there are no expression statements that start
  with one.
\<close>

definition may_be_statement :: "ast_expression \<Rightarrow> bool" where
  "may_be_statement e \<longleftrightarrow> is_block e \<or> \<not> starts_with_block e"

text \<open>
  Trees that respect precedence where only operators that bind tighter than \<open>p\<close> may be outermost:
  operators of the same precedence associate to the left.
\<close>

fun well_formed :: "precedence \<Rightarrow> ast_expression \<Rightarrow> bool" where
  "well_formed p (AstIdentExpr off len) \<longleftrightarrow> True"
| "well_formed p (AstLiteralExpr off kind len) \<longleftrightarrow> True"
| "well_formed p (AstBlockExpr off statements) \<longleftrightarrow>
     (\<forall>e \<in> set statements. well_formed Prec_statement e \<and> may_be_statement e)"
| "well_formed p (AstReturnExpr off ret_values) \<longleftrightarrow> (\<forall>e \<in> set ret_values. well_formed Prec_statement e) \<and> separable ret_values"
| "well_formed p (AstUnaryExpr off op operand) \<longleftrightarrow>
     (if snd (unary_token op) then well_formed Prec_prefix operand
      else p < Prec_postfix \<and> Prec_postfix \<le> right_edge operand \<and> well_formed p operand \<and>
        off = token_offset operand \<and> may_follow operand (fst (unary_token op)))"
| "well_formed p (AstBinaryExpr off op left right) \<longleftrightarrow>
     (let q = operator_precedence op
      in p < q \<and> q \<le> right_edge left \<and> well_formed p left \<and> well_formed q right \<and>
        off = token_offset left \<and> may_follow left (symbol_kind (binary_symbol op)))"
| "well_formed p (AstCallExpr off callee args) \<longleftrightarrow>
     p < Prec_postfix \<and> Prec_postfix \<le> right_edge callee \<and> well_formed p callee \<and>
     (\<forall>e \<in> set args. well_formed Prec_statement e) \<and> separable args \<and> off = token_offset callee"

lemma precedence_least [simp]: "Prec_statement \<le> p" "\<not> p < Prec_statement"
  by (cases p; simp add: less_eq_precedence_def less_precedence_def)+

lemma precedence_greatest [simp]: "p \<le> Prec_postfix"
  by (cases p; simp add: less_eq_precedence_def)

lemma precedence_le_statement [simp]: "p \<le> Prec_statement \<longleftrightarrow> p = Prec_statement"
  using precedence_least(1)[of p] by (auto intro: antisym)

lemma lookup_precedence_not_statement [simp]: "lookup_precedence_for_associativity op \<noteq> Prec_statement"
  by (simp add: lookup_precedence_for_associativity_def)

lemma may_follow_simps [simp]:
  "snd (unary_token op) \<Longrightarrow> may_follow (AstUnaryExpr off op e) k \<longleftrightarrow> may_follow e k"
  "\<not> snd (unary_token op) \<Longrightarrow> may_follow (AstUnaryExpr off op e) k"
  "may_follow (AstBinaryExpr off bop left right) k \<longleftrightarrow> may_follow right k"
  "may_follow (AstCallExpr off callee args) k"
  by (auto simp: may_follow_def min_def)

lemma separable_simps [simp]:
  "separable []"
  "separable [e]"
  "es \<noteq> [] \<Longrightarrow> separable (e # es) \<longleftrightarrow> may_follow e TK_comma \<and> separable es"
  by (auto simp: separable_def)

section \<open>Printing definitions\<close>

definition name_symbol :: "ast_name \<Rightarrow> symbol" where
  "name_symbol n = Sym TK_identifier (Some (name_offset n, name_length n))"

definition parameter_symbols :: "ast_function_parameter \<Rightarrow> symbol list" where
  "parameter_symbols p = expr_symbols (param_type p) @ [name_symbol (param_name p)]"

definition output_symbols :: "ast_function_output \<Rightarrow> symbol list" where
  "output_symbols out = expr_symbols (output_type out)"

text \<open>An access modifier, and the offset of its token.\<close>

primrec access_symbols :: "access_modifier \<Rightarrow> source_size \<Rightarrow> symbol list" where
  "access_symbols access_none off = []"
| "access_symbols access_private off = [at_offset TK_kw_private off]"
| "access_symbols access_public off = [at_offset TK_kw_public off]"

text \<open>A function from its opening parenthesis on.\<close>

definition function_symbols :: "ast_definition \<Rightarrow> symbol list" where
  "function_symbols d =
     [plain TK_l_paren] @ (comma_separated (map parameter_symbols (fn_parameters d)) @ [plain TK_r_paren]) @
     (if fn_outputs d = [] then []
      else plain TK_thin_arrow # comma_separated (map output_symbols (fn_outputs d))) @
     plain TK_l_brace # concat (map (\<lambda>e. terminated e (expr_symbols e)) (fn_statements d)) @ [plain TK_r_brace]"

definition definition_symbols :: "ast_definition \<Rightarrow> symbol list" where
  "definition_symbols d =
     access_symbols (fn_access_modifier d) (fn_offset d) @ name_symbol (fn_name d) # function_symbols d"

text \<open>
  Types are identifiers; a definition starts at its access modifier or, without one, at its name.
  The outputs of a function have no names.
\<close>

definition is_type :: "ast_expression \<Rightarrow> bool" where
  "is_type e \<longleftrightarrow> (case e of AstIdentExpr off len \<Rightarrow> True | _ \<Rightarrow> False)"

definition parameter_well_formed :: "ast_function_parameter \<Rightarrow> bool" where
  "parameter_well_formed p \<longleftrightarrow> is_type (param_type p) \<and> param_offset p = token_offset (param_type p)"

definition output_well_formed :: "ast_function_output \<Rightarrow> bool" where
  "output_well_formed out \<longleftrightarrow>
     is_type (output_type out) \<and> output_offset out = token_offset (output_type out) \<and>
     output_name out = ast_name_empty"

definition statement_well_formed :: "ast_expression \<Rightarrow> bool" where
  "statement_well_formed e \<longleftrightarrow> well_formed Prec_statement e \<and> may_be_statement e"

definition definition_well_formed :: "ast_definition \<Rightarrow> bool" where
  "definition_well_formed d \<longleftrightarrow>
     (fn_access_modifier d = access_none \<longrightarrow> fn_offset d = name_offset (fn_name d)) \<and>
     list_all parameter_well_formed (fn_parameters d) \<and>
     list_all output_well_formed (fn_outputs d) \<and>
     list_all statement_well_formed (fn_statements d)"

definition program_symbols :: "ast_definition list \<Rightarrow> symbol list" where
  "program_symbols ds = concat (map definition_symbols ds) @ [plain TK_end_of_file]"

end
