(* ===== verification/Parser_Contract.thy ===== *)
theory Parser_Contract
  imports Grammar
begin

text \<open>
  The contract of a parser function, and the rules to establish it: what it consumes, that its
  reports are well-formed, that it throws only after a report, that it never faults, and when its
  fuel is enough.
\<close>

section \<open>States\<close>

text \<open>
  A state as the parser has it on the output of the lexer: the tokens end with the end-of-file
  token, and each has a text in the source.
\<close>

definition ps_ok :: "parser \<Rightarrow> bool" where
  "ps_ok s \<longleftrightarrow>
     ends_with_eof (ps_cursor s) \<and>
     list_all (\<lambda>t. tok_ok (get_text (ps_source s)) t \<and> tok_start t < 2 ^ 24) (ps_cursor s)"

abbreviation remaining :: "parser \<Rightarrow> nat" where
  "remaining s \<equiv> length (ps_cursor s)"

definition advances :: "token list \<Rightarrow> report_call list \<Rightarrow> parser \<Rightarrow> parser \<Rightarrow> bool" where
  "advances ts rs s s' \<longleftrightarrow>
     ps_cursor s = ts @ ps_cursor s' \<and> ps_cursor s' \<noteq> [] \<and>
     ps_reporter s' = ps_reporter s @ rs \<and> list_all report_valid rs \<and>
     ps_source s' = ps_source s \<and> ps_tab_size s' = ps_tab_size s"

lemma ends_with_eof_append: "ends_with_eof (ts @ us) \<Longrightarrow> us \<noteq> [] \<Longrightarrow> ends_with_eof us"
  by (induction ts) (auto simp: ends_with_eof_Cons split: if_splits)

lemma advances_ok: "advances ts rs s s' \<Longrightarrow> ps_ok s \<Longrightarrow> ps_ok s'"
  by (auto simp: advances_def ps_ok_def dest: ends_with_eof_append)

lemma advances_refl: "ps_ok s \<Longrightarrow> advances [] [] s s"
  by (auto simp: advances_def ps_ok_def)

lemma advances_trans:
  "advances ts rs s s' \<Longrightarrow> advances us qs s' s'' \<Longrightarrow> advances (ts @ us) (rs @ qs) s s''"
  by (simp add: advances_def)

lemma advances_remaining: "advances ts rs s s' \<Longrightarrow> remaining s = length ts + remaining s'"
  by (simp add: advances_def)

lemma ps_ok_cursor:
  assumes "ps_ok s"
  obtains t r where "ps_cursor s = t # r"
  using assms by (cases "ps_cursor s") (auto simp: ps_ok_def)

text \<open>Moving over one token.\<close>

definition p_pop :: "parser \<Rightarrow> parser" where
  "p_pop s = s\<lparr>ps_cursor := tl (ps_cursor s)\<rparr>"

lemma p_pop_sel [simp]:
  "ps_cursor (p_pop s) = tl (ps_cursor s)"
  "ps_reporter (p_pop s) = ps_reporter s"
  "ps_source (p_pop s) = ps_source s"
  "ps_tab_size (p_pop s) = ps_tab_size s"
  by (simp_all add: p_pop_def)

lemma advances_pop:
  assumes "ps_ok s" "ps_cursor s = t # r" "tok_kind t \<noteq> TK_end_of_file"
  shows "advances [t] [] s (p_pop s)"
  using assms by (auto simp: advances_def ps_ok_def ends_with_eof_Cons)

lemma cursor_ops:
  assumes "ps_cursor s = t # r"
  shows "p_read tc_peek s = Done t s"
    and "p_read tc_peek_kind s = Done (tok_kind t) s"
    and "p_read tc_peek_offset s = Done (tok_offset t) s"
    and "tok_kind t \<noteq> TK_end_of_file \<Longrightarrow> p_move tc_next s = Done t (p_pop s)"
    and "tok_kind t \<noteq> TK_end_of_file \<Longrightarrow> p_advance s = Done () (p_pop s)"
    and "k \<noteq> TK_end_of_file \<Longrightarrow>
      p_move (tc_match k) s = (if tok_kind t = k then Done True (p_pop s) else Done False s)"
    and "k \<noteq> TK_end_of_file \<Longrightarrow>
      p_move (tc_match_token k) s = (if tok_kind t = k then Done (Some t) (p_pop s) else Done None s)"
  using assms by (simp_all add: p_read_def p_move_def p_advance_def tc_defs p_pop_def)

section \<open>Outcomes\<close>

definition outcome ::
    "bool \<Rightarrow> parser \<Rightarrow> ('a \<Rightarrow> parser \<Rightarrow> token list \<Rightarrow> report_call list \<Rightarrow> bool) \<Rightarrow> 'a presult \<Rightarrow> bool" where
  "outcome enough s post r \<longleftrightarrow>
     (case r of
        Done a s' \<Rightarrow> \<exists>ts rs. advances ts rs s s' \<and> post a s' ts rs
      | Thrown s' \<Rightarrow> \<exists>ts rs. advances ts rs s s' \<and> rs \<noteq> []
      | Faulted e \<Rightarrow> False
      | Out_of_fuel \<Rightarrow> \<not> enough)"

lemma outcome_Done: "advances ts rs s s' \<Longrightarrow> post a s' ts rs \<Longrightarrow> outcome b s post (Done a s')"
  by (auto simp: outcome_def)

lemma outcome_Out_of_fuel: "\<not> b \<Longrightarrow> outcome b s post Out_of_fuel"
  by (simp add: outcome_def)

lemma outcome_weaken:
  assumes "outcome b s post r" "b' \<Longrightarrow> b"
    and "\<And>a s' ts rs. advances ts rs s s' \<Longrightarrow> post a s' ts rs \<Longrightarrow> post' a s' ts rs"
  shows "outcome b' s post' r"
  using assms by (simp add: outcome_def split: presult.splits) blast+

text \<open>What follows a prefix that was consumed.\<close>

lemma outcome_after:
  assumes "advances ts rs s s1" "outcome b s1 (\<lambda>a s' us qs. post a s' (ts @ us) (rs @ qs)) r"
  shows "outcome b s post r"
proof (cases r)
  case (Done a s')
  with assms(2) obtain us qs where "advances us qs s1 s'" "post a s' (ts @ us) (rs @ qs)"
    by (auto simp: outcome_def)
  with Done advances_trans[OF assms(1)] show ?thesis unfolding outcome_def by simp blast
next
  case (Thrown s')
  with assms(2) obtain us qs where "advances us qs s1 s'" "qs \<noteq> []"
    by (auto simp: outcome_def)
  with Thrown advances_trans[OF assms(1)] show ?thesis by (fastforce simp: outcome_def)
next
  case (Faulted e)
  with assms(2) show ?thesis by (simp add: outcome_def)
next
  case Out_of_fuel
  with assms(2) show ?thesis by (simp add: outcome_def)
qed

lemma outcome_bind:
  assumes "outcome b1 s mid r" "b \<Longrightarrow> b1"
    and "\<And>a s1 ts rs. advances ts rs s s1 \<Longrightarrow> mid a s1 ts rs \<Longrightarrow>
      outcome b s1 (\<lambda>a s' us qs. post a s' (ts @ us) (rs @ qs)) (f a s1)"
  shows "outcome b s post (pbind r f)"
proof (cases r)
  case (Done a s1)
  with assms(1) obtain ts rs where "advances ts rs s s1" "mid a s1 ts rs" by (auto simp: outcome_def)
  with Done outcome_after[OF this(1) assms(3)] show ?thesis by simp
next
  case (Thrown s')
  with assms(1) show ?thesis by (simp add: outcome_def)
next
  case (Faulted e)
  with assms(1) show ?thesis by (simp add: outcome_def)
next
  case Out_of_fuel
  with assms(1,2) show ?thesis by (auto simp: outcome_def)
qed

section \<open>Reports\<close>

lemma message_takes_token:
  "m \<notin> {file_not_found, missing_closing_quote, unterminated_block_comment} \<Longrightarrow> valid_for_message [a] m"
  by (simp add: valid_for_message_arity message_arity_def)

definition names_token :: "message \<Rightarrow> bool" where
  "names_token m \<longleftrightarrow> message_arity m = 1"

lemma outcome_report_expected:
  assumes "ps_ok s" "names_token m"
  shows "outcome b s (\<lambda>_ s' ts rs. ts = [] \<and> rs \<noteq> []) (report_expected m s)"
proof -
  from assms(1) obtain t r where c: "ps_cursor s = t # r" by (rule ps_ok_cursor)
  have t: "tok_ok (get_text (ps_source s)) t" using assms(1) c by (simp add: ps_ok_def)
  obtain l where l: "locate_in t (ps_source s) (ps_tab_size s) = Some l"
    by (simp add: locate_in_def locate_result)
  obtain x where x: "token_get_text t (ps_source s) = Inr x" using tok_ok_get_text[OF t] by blast
  let ?s = "parser_report m l [Arg_formatted (get_token_message_format (tok_kind t)) x] s"
  have "report_expected m s = Done () ?s"
    using l x by (simp add: report_expected_def cursor_ops[OF c])
  moreover have "\<exists>rs. advances [] rs s ?s \<and> rs \<noteq> []"
    using assms(2) c by (auto simp: advances_def parser_report_def report_valid_def names_token_def
        valid_for_message_arity)
  ultimately show ?thesis by (auto simp: outcome_def)
qed

lemma outcome_report_and_throw:
  assumes "ps_ok s" "names_token m"
  shows "outcome b s post (report_and_throw m s)"
proof -
  from outcome_report_expected[OF assms, of True]
  show ?thesis
    by (auto simp: report_and_throw_def outcome_def split: presult.splits)
qed

lemma outcome_expect:
  assumes "ps_ok s" "names_token m" "k \<noteq> TK_end_of_file"
  shows "outcome b s (\<lambda>_ s' ts rs. \<exists>t. ts = [t] \<and> tok_kind t = k \<and> rs = []) (expect k m s)"
proof -
  from assms(1) obtain t r where c: "ps_cursor s = t # r" by (rule ps_ok_cursor)
  show ?thesis
  proof (cases "tok_kind t = k")
    case True
    with advances_pop[OF assms(1) c] assms(3) show ?thesis
      by (auto simp: expect_def cursor_ops[OF c] intro!: outcome_Done)
  next
    case False
    with assms outcome_report_and_throw[OF assms(1,2)] show ?thesis
      by (simp add: expect_def cursor_ops[OF c])
  qed
qed

text \<open>The messages of the parser all name the offending token.\<close>

lemma parser_messages [simp]:
  "names_token expect_function_struct_or_enum" "names_token expect_paren_after_function_name"
  "names_token expect_parameter_type" "names_token expect_parameter_name"
  "names_token expect_paren_after_parameters" "names_token expect_return_type"
  "names_token expect_brace_before_function_body" "names_token expect_expression"
  "names_token expect_semicolon" "names_token expect_closing_paren_in_call"
  by (simp_all add: names_token_def message_arity_def)

section \<open>Rules of the next token\<close>

definition next_rule :: "parser \<Rightarrow> tail_parse_rule" where
  "next_rule s =
     (case lookup_tail_parse_rule (hd (ps_cursor s)) s of
        Done r s' \<Rightarrow> r
      | _ \<Rightarrow> \<lparr>rule_precedence = Prec_statement, rule_fn = None\<rparr>)"

abbreviation next_precedence :: "parser \<Rightarrow> precedence" where
  "next_precedence s \<equiv> rule_precedence (next_rule s)"

lemma lookup_tail_next_rule:
  assumes "ps_ok s" "ps_cursor s = t # r"
  shows "lookup_tail_parse_rule t s = Done (next_rule s) s"
proof -
  have "\<exists>u. p_read tc_peek_ahead s = Done u s" if "tok_kind t = TK_r_angle"
    using assms that by (cases r) (auto simp: ps_ok_def p_read_def tc_peek_ahead_def ends_with_eof_Cons)
  then show ?thesis
    using assms(2) by (auto simp: next_rule_def lookup_tail_parse_rule_def split: option.splits)
qed

lemma get_next_tail:
  assumes "ps_ok s"
  shows "get_next_tail_parse_fn p s =
    Done (if p < next_precedence s then rule_fn (next_rule s) else None) s"
proof -
  from assms obtain t r where c: "ps_cursor s = t # r" by (rule ps_ok_cursor)
  then show ?thesis
    by (simp add: get_next_tail_parse_fn_def cursor_ops[OF c] lookup_tail_next_rule[OF assms c])
qed

text \<open>What the table says of each rule: its tokens, and the precedence of its operator.\<close>

fun tail_entry_ok :: "token_kind \<Rightarrow> precedence \<Rightarrow> tail_parse_function \<Rightarrow> bool" where
  "tail_entry_ok k q (On_binary_operator op) \<longleftrightarrow>
     op \<noteq> op_shr \<and> binary_symbol op = plain k \<and> q = lookup_precedence_for_associativity op"
| "tail_entry_ok k q (On_postfix_operator op) \<longleftrightarrow> unary_token op = (k, False) \<and> q = Prec_postfix"
| "tail_entry_ok k q On_infix_left_paren \<longleftrightarrow> k = TK_l_paren \<and> q = Prec_postfix"

lemma tail_table_ok:
  "list_all (\<lambda>(k, q, f). tail_entry_ok k q f \<and> k \<noteq> TK_end_of_file \<and> q \<noteq> Prec_statement) tail_parse_table"
  unfolding tail_parse_table_def by (simp add: lookup_precedence_for_associativity_def)

lemma next_rule_cases:
  assumes "ps_ok s" "ps_cursor s = t # r"
  obtains (none) "next_rule s = \<lparr>rule_precedence = Prec_statement, rule_fn = None\<rparr>"
  | (entry) q f where "next_rule s = \<lparr>rule_precedence = q, rule_fn = Some f\<rparr>"
      "tail_entry_ok (tok_kind t) q f" "tok_kind t \<noteq> TK_end_of_file"
  | (shr) u r' where "next_rule s = \<lparr>rule_precedence = Prec_additive_or_bit, rule_fn = Some (On_binary_operator op_shr)\<rparr>"
      "r = u # r'" "angles t u"
proof (cases "tok_kind t = TK_r_angle")
  case True
  then obtain u r' where r: "r = u # r'" using assms by (cases r) (auto simp: ps_ok_def ends_with_eof_Cons)
  have "next_rule s = (if tok_kind u = TK_r_angle \<and> tok_offset u = tok_offset t + 1
      then \<lparr>rule_precedence = Prec_additive_or_bit, rule_fn = Some (On_binary_operator op_shr)\<rparr>
      else \<lparr>rule_precedence = Prec_comparison, rule_fn = Some (On_binary_operator op_greater)\<rparr>)"
    using True assms(2) r
    by (simp add: next_rule_def lookup_tail_parse_rule_def p_read_def tc_peek_ahead_def)
  with True r shr entry show thesis
    by (cases "tok_kind u = TK_r_angle \<and> tok_offset u = tok_offset t + 1")
      (auto simp: lookup_precedence_for_associativity_def angles_def)
next
  case False
  show thesis
  proof (cases "map_of tail_parse_table (tok_kind t)")
    case None
    with False assms(2) none show thesis
      by (simp add: next_rule_def lookup_tail_parse_rule_def)
  next
    case (Some x)
    obtain q f where x: "x = (q, f)" by (cases x)
    from Some x have "(tok_kind t, q, f) \<in> set tail_parse_table" by (simp add: map_of_SomeD)
    with tail_table_ok have "tail_entry_ok (tok_kind t) q f \<and> tok_kind t \<noteq> TK_end_of_file"
      by (auto simp: list_all_iff)
    with Some x False assms(2) entry[of q f] show thesis
      by (simp add: next_rule_def lookup_tail_parse_rule_def)
  qed
qed

fun head_entry_ok :: "token_kind \<Rightarrow> head_parse_function \<Rightarrow> bool" where
  "head_entry_ok k On_identifier \<longleftrightarrow> k = TK_identifier"
| "head_entry_ok k (On_literal l) \<longleftrightarrow> k = literal_token l"
| "head_entry_ok k On_prefix_left_brace \<longleftrightarrow> k = TK_l_brace"
| "head_entry_ok k On_kw_return \<longleftrightarrow> k = TK_kw_return"
| "head_entry_ok k (On_prefix_operator op) \<longleftrightarrow> unary_token op = (k, True)"

lemma head_table_ok: "list_all (\<lambda>(k, f). head_entry_ok k f \<and> k \<noteq> TK_end_of_file) head_parse_table"
  unfolding head_parse_table_def by simp

lemma lookup_head_cases:
  assumes "lookup_head_parse_fn k = Some f"
  shows "head_entry_ok k f \<and> k \<noteq> TK_end_of_file"
  using assms head_table_ok by (auto simp: lookup_head_parse_fn_def list_all_iff dest!: map_of_SomeD)

lemma lookup_head_starts: "lookup_head_parse_fn k = None \<longleftrightarrow> \<not> starts_expression k"
  by (cases k) (simp_all add: lookup_head_parse_fn_def head_parse_table_def starts_expression_def)

end
