(* ===== verification/Parser_Correct.thy ===== *)
theory Parser_Correct
  imports Parser_Contract
begin

text \<open>
  The contract holds for the expression and block parsers, by induction on the fuel.
\<close>

section \<open>Contracts of the recursive functions\<close>

text \<open>
  An expression spelled by the tokens consumed, where the operator that follows does not bind
  tighter than the right edge of the tree.
\<close>

definition good :: "precedence \<Rightarrow> ast_expression \<Rightarrow> token list \<Rightarrow> parser \<Rightarrow> bool" where
  "good p e ts s \<longleftrightarrow>
     spells ts (expr_symbols e) \<and> well_formed p e \<and> next_precedence s \<le> right_edge e \<and>
     may_follow e (tok_kind (hd (ps_cursor s))) \<and>
     node_offset (token_offset e) = token_offset e"

lemma node_offset_idem [simp]: "node_offset (node_offset off) = node_offset off"
  by (simp add: node_offset_def)

definition expression_spec :: "nat \<Rightarrow> bool" where
  "expression_spec n \<longleftrightarrow> (\<forall>p s. ps_ok s \<longrightarrow>
     outcome (5 * remaining s + 1 \<le> n) s
       (\<lambda>e s' ts rs. ts \<noteq> [] \<and> (is_block e \<longrightarrow> tok_kind (hd (ps_cursor s)) = TK_l_brace) \<and>
          (rs = [] \<longrightarrow> good p e ts s' \<and> \<not> p < next_precedence s'))
       (parse_expression n p s))"

definition tails_spec :: "nat \<Rightarrow> bool" where
  "tails_spec n \<longleftrightarrow> (\<forall>p e s. ps_ok s \<longrightarrow>
     outcome (5 * remaining s + 1 \<le> n) s
       (\<lambda>e' s' ts rs. (is_block e' \<longrightarrow> is_block e) \<and>
          (rs = [] \<longrightarrow> (\<forall>ts0. good p e ts0 s \<longrightarrow> good p e' (ts0 @ ts) s' \<and> \<not> p < next_precedence s')))
       (parse_tails n p e s))"

definition head_spec :: "nat \<Rightarrow> bool" where
  "head_spec n \<longleftrightarrow> (\<forall>f s. ps_ok s \<longrightarrow> lookup_head_parse_fn (tok_kind (hd (ps_cursor s))) = Some f \<longrightarrow>
     outcome (5 * remaining s \<le> n) s
       (\<lambda>e s' ts rs. ts \<noteq> [] \<and> (rs = [] \<longrightarrow> (\<forall>p. good p e ts s')) \<and> (f = On_prefix_left_brace \<longleftrightarrow> is_block e))
       (run_head n f s))"

definition tail_spec :: "nat \<Rightarrow> bool" where
  "tail_spec n \<longleftrightarrow> (\<forall>f e s. ps_ok s \<longrightarrow> rule_fn (next_rule s) = Some f \<longrightarrow>
     outcome (5 * remaining s \<le> n) s
       (\<lambda>e' s' ts rs. ts \<noteq> [] \<and> \<not> is_block e' \<and>
          (rs = [] \<longrightarrow> (\<forall>p ts0. p < next_precedence s \<longrightarrow> good p e ts0 s \<longrightarrow> good p e' (ts0 @ ts) s')))
       (run_tail n f e s))"

definition list_spec :: "nat \<Rightarrow> bool" where
  "list_spec n \<longleftrightarrow> (\<forall>es s. ps_ok s \<longrightarrow>
     outcome (5 * remaining s + 2 \<le> n) s
       (\<lambda>es' s' ts rs. ts \<noteq> [] \<and> (\<exists>es1. es1 \<noteq> [] \<and> es' = es @ es1 \<and>
          (rs = [] \<longrightarrow> spells ts (comma_separated (map expr_symbols es1)) \<and>
             (\<forall>e \<in> set es1. well_formed Prec_statement e) \<and> separable es1 \<and>
             next_precedence s' = Prec_statement \<and> tok_kind (hd (ps_cursor s')) \<noteq> TK_comma)))
       (parse_expression_list n es s))"

definition statement_spec :: "nat \<Rightarrow> bool" where
  "statement_spec n \<longleftrightarrow> (\<forall>s. ps_ok s \<longrightarrow>
     outcome (5 * remaining s + 2 \<le> n) s
       (\<lambda>e s' ts rs. ts \<noteq> [] \<and>
          (rs = [] \<longrightarrow> spells ts (terminated e (expr_symbols e)) \<and> statement_well_formed e))
       (parse_statement n s))"

definition statements_spec :: "nat \<Rightarrow> bool" where
  "statements_spec n \<longleftrightarrow> (\<forall>es s. ps_ok s \<longrightarrow>
     outcome (5 * remaining s + 3 \<le> n) s
       (\<lambda>es' s' ts rs. rs = [] \<longrightarrow> (\<exists>es1. es' = es @ es1 \<and>
          spells ts (concat (map (\<lambda>e. terminated e (expr_symbols e)) es1) @ [plain TK_r_brace]) \<and>
          (\<forall>e \<in> set es1. statement_well_formed e)))
       (parse_statements n es s))"

lemmas parser_specs =
  expression_spec_def tails_spec_def head_spec_def tail_spec_def list_spec_def statement_spec_def
  statements_spec_def

section \<open>Base and step\<close>

lemma remaining_pos: "ps_ok s \<Longrightarrow> 0 < remaining s"
  by (auto simp: ps_ok_def)

lemma specs_0:
  "expression_spec 0" "tails_spec 0" "head_spec 0" "tail_spec 0" "list_spec 0" "statement_spec 0"
  "statements_spec 0"
  by (auto simp: parser_specs outcome_Out_of_fuel dest: remaining_pos)

lemma tok_offset_small:
  assumes "ps_ok s" "ps_cursor s = t # r"
  shows "node_offset (tok_offset t) = tok_offset t"
proof -
  have "tok_start t < 2 ^ 24" using assms by (simp add: ps_ok_def)
  then have "unat (node_offset (tok_offset t)) = tok_start t"
    by (simp add: node_offset_def unat_and_mask24)
  then show ?thesis by (simp add: word_unat_eq_iff)
qed

lemma tok_fixed_length:
  assumes "ps_ok s" "ps_cursor s = t # r" "fixed_lexeme (tok_kind t) = Some l"
  shows "variable_length t = 0"
  using assms by (simp add: ps_ok_def tok_ok_def)

lemma expression_step:
  assumes "head_spec n" "tails_spec n"
  shows "expression_spec (Suc n)"
  unfolding expression_spec_def
proof (intro allI impI)
  fix p s assume ok: "ps_ok s"
  then obtain t r where c: "ps_cursor s = t # r" by (rule ps_ok_cursor)
  let ?post = "\<lambda>e s' ts rs. ts \<noteq> [] \<and> (is_block e \<longrightarrow> tok_kind (hd (ps_cursor s)) = TK_l_brace) \<and>
    (rs = [] \<longrightarrow> good p e ts s' \<and> \<not> p < next_precedence s')"
  show "outcome (5 * remaining s + 1 \<le> Suc n) s ?post (parse_expression (Suc n) p s)"
  proof (cases "lookup_head_parse_fn (tok_kind t)")
    case None
    then show ?thesis by (simp add: cursor_ops[OF c] outcome_report_and_throw[OF ok])
  next
    case (Some f)
    with c have lk: "lookup_head_parse_fn (tok_kind (hd (ps_cursor s))) = Some f" by simp
    note h = assms(1)[unfolded head_spec_def, rule_format, OF ok lk]
    have brace: "f = On_prefix_left_brace \<Longrightarrow> tok_kind (hd (ps_cursor s)) = TK_l_brace"
      using lookup_head_cases[OF lk] by simp
    have "outcome (5 * remaining s + 1 \<le> Suc n) s ?post
        (pbind (run_head n f s) (\<lambda>expr s. parse_tails n p expr s))"
    proof (rule outcome_bind[OF h])
      fix e s1 ts rs
      assume adv: "advances ts rs s s1" and post: "ts \<noteq> [] \<and> (rs = [] \<longrightarrow> (\<forall>p. good p e ts s1)) \<and>
        (f = On_prefix_left_brace \<longleftrightarrow> is_block e)"
      show "outcome (5 * remaining s + 1 \<le> Suc n) s1 (\<lambda>e' s' us qs. ?post e' s' (ts @ us) (rs @ qs))
          (parse_tails n p e s1)"
        using assms(2)[unfolded tails_spec_def, rule_format, OF advances_ok[OF adv ok], of e p]
      proof (rule outcome_weaken)
        assume "5 * remaining s + 1 \<le> Suc n"
        with advances_remaining[OF adv] post show "5 * remaining s1 + 1 \<le> n" by (cases ts) auto
      qed (use post brace in auto)
    qed simp
    with Some show ?thesis by (simp add: cursor_ops[OF c])
  qed
qed

lemma tails_step:
  assumes "tail_spec n" "tails_spec n"
  shows "tails_spec (Suc n)"
  unfolding tails_spec_def
proof (intro allI impI)
  fix p e s assume ok: "ps_ok s"
  let ?post = "\<lambda>e' s' ts rs. (is_block e' \<longrightarrow> is_block e) \<and>
    (rs = [] \<longrightarrow> (\<forall>ts0. good p e ts0 s \<longrightarrow> good p e' (ts0 @ ts) s' \<and> \<not> p < next_precedence s'))"
  from ok obtain t r where c: "ps_cursor s = t # r" by (rule ps_ok_cursor)
  show "outcome (5 * remaining s + 1 \<le> Suc n) s ?post (parse_tails (Suc n) p e s)"
  proof (cases "if p < next_precedence s then rule_fn (next_rule s) else None")
    case None
    have "\<not> p < next_precedence s"
    proof
      assume "p < next_precedence s"
      with None show False by (cases rule: next_rule_cases[OF ok c]) auto
    qed
    with None advances_refl[OF ok] show ?thesis
      by (auto simp: get_next_tail[OF ok] intro!: outcome_Done)
  next
    case (Some f)
    then have f: "rule_fn (next_rule s) = Some f" and p: "p < next_precedence s" by (auto split: if_splits)
    note t = assms(1)[unfolded tail_spec_def, rule_format, OF ok f, of e]
    have "outcome (5 * remaining s + 1 \<le> Suc n) s ?post
        (pbind (run_tail n f e s) (\<lambda>e s. parse_tails n p e s))"
    proof (rule outcome_bind[OF t])
      fix e1 s1 ts rs
      assume adv: "advances ts rs s s1" and post: "ts \<noteq> [] \<and> \<not> is_block e1 \<and>
        (rs = [] \<longrightarrow> (\<forall>p ts0. p < next_precedence s \<longrightarrow> good p e ts0 s \<longrightarrow> good p e1 (ts0 @ ts) s1))"
      show "outcome (5 * remaining s + 1 \<le> Suc n) s1 (\<lambda>e' s' us qs. ?post e' s' (ts @ us) (rs @ qs))
          (parse_tails n p e1 s1)"
        using assms(2)[unfolded tails_spec_def, rule_format, OF advances_ok[OF adv ok], of e1 p]
      proof (rule outcome_weaken)
        assume "5 * remaining s + 1 \<le> Suc n"
        with advances_remaining[OF adv] post show "5 * remaining s1 + 1 \<le> n" by (cases ts) auto
      qed (use post p in \<open>auto; metis append.assoc\<close>)
    qed simp
    with Some show ?thesis by (simp add: get_next_tail[OF ok])
  qed
qed

lemma good_leaf:
  assumes "spells ts (expr_symbols e)" "\<And>p. well_formed p e" "right_edge e = Prec_postfix"
    "bare_return e \<Longrightarrow> \<not> starts_expression (tok_kind (hd (ps_cursor s)))"
    "node_offset (token_offset e) = token_offset e"
  shows "good p e ts s"
  using assms by (simp add: good_def may_follow_def)

lemma outcome_return: "ps_ok s \<Longrightarrow> post a s [] [] \<Longrightarrow> outcome b s post (Done a s)"
  by (rule outcome_Done[OF advances_refl])

text \<open>The heads of expressions, one by one, at a token of their kind.\<close>

lemma head_leaf:
  assumes ok: "ps_ok s" and c: "ps_cursor s = t # r" and neof: "tok_kind t \<noteq> TK_end_of_file"
    and e: "expr_symbols e = [Sym (tok_kind t) (Some (tok_offset t, variable_length t))]"
      "\<And>p. well_formed p e" "right_edge e = Prec_postfix" "\<not> is_block e" "f \<noteq> On_prefix_left_brace"
      "\<not> bare_return e" "node_offset (token_offset e) = token_offset e"
  shows "outcome b s (\<lambda>e s' ts rs. ts \<noteq> [] \<and> (rs = [] \<longrightarrow> (\<forall>p. good p e ts s')) \<and> (f = On_prefix_left_brace \<longleftrightarrow> is_block e))
      (Done e (p_pop s))"
  using e by (intro outcome_Done[OF advances_pop[OF ok c neof]]) (auto intro!: good_leaf)

lemma head_block:
  assumes ok: "ps_ok s" and c: "ps_cursor s = t # r" and t: "tok_kind t = TK_l_brace" and "statements_spec n"
  shows "outcome (5 * remaining s \<le> Suc n) s
      (\<lambda>e s' ts rs. ts \<noteq> [] \<and> (rs = [] \<longrightarrow> (\<forall>p. good p e ts s')) \<and> is_block e)
      (run_head (Suc n) On_prefix_left_brace s)"
proof -
  have neof: "tok_kind t \<noteq> TK_end_of_file" using t by simp
  note adv = advances_pop[OF ok c neof]
  note off = tok_offset_small[OF ok c] tok_fixed_length[OF ok c]
  note IH = assms(4)[unfolded statements_spec_def, rule_format, OF advances_ok[OF adv ok], of "[]"]
  have "outcome (5 * remaining s \<le> Suc n) (p_pop s)
      (\<lambda>e s' us qs. [t] @ us \<noteq> [] \<and> ([] @ qs = [] \<longrightarrow> (\<forall>p. good p e ([t] @ us) s')) \<and> is_block e)
      (pbind (parse_statements n [] (p_pop s)) (\<lambda>statements s. Done (AstBlockExpr (node_offset (tok_offset t)) statements) s))"
  proof (rule outcome_bind[OF IH])
    assume "5 * remaining s \<le> Suc n"
    then show "5 * remaining (p_pop s) + 3 \<le> n" using c by simp
  next
    fix es s1 us qs
    assume a: "advances us qs (p_pop s) s1" and post: "qs = [] \<longrightarrow> (\<exists>es1. es = [] @ es1 \<and>
        spells us (concat (map (\<lambda>e. terminated e (expr_symbols e)) es1) @ [plain TK_r_brace]) \<and>
        (\<forall>e \<in> set es1. statement_well_formed e))"
    show "outcome (5 * remaining s \<le> Suc n) s1
        (\<lambda>e s' vs ps. [t] @ us @ vs \<noteq> [] \<and> ([] @ qs @ ps = [] \<longrightarrow> (\<forall>p. good p e ([t] @ us @ vs) s')) \<and> is_block e)
        (Done (AstBlockExpr (node_offset (tok_offset t)) es) s1)"
      using post off t advances_ok[OF a advances_ok[OF adv ok]]
      by (intro outcome_return) (auto simp: is_block_def statement_well_formed_def intro!: good_leaf)
  qed
  from outcome_after[OF adv this] neof show ?thesis by (simp add: cursor_ops[OF c])
qed

lemma head_prefix:
  assumes ok: "ps_ok s" and c: "ps_cursor s = t # r" and t: "unary_token op = (tok_kind t, True)"
    and neof: "tok_kind t \<noteq> TK_end_of_file" and "expression_spec n"
  shows "outcome (5 * remaining s \<le> Suc n) s
      (\<lambda>e s' ts rs. ts \<noteq> [] \<and> (rs = [] \<longrightarrow> (\<forall>p. good p e ts s')) \<and> \<not> is_block e)
      (run_head (Suc n) (On_prefix_operator op) s)"
proof -
  note adv = advances_pop[OF ok c neof]
  have "fixed_lexeme (tok_kind t) \<noteq> None" using t by (cases op) auto
  then have off: "node_offset (tok_offset t) = tok_offset t" "variable_length t = 0"
    using tok_offset_small[OF ok c] tok_fixed_length[OF ok c] by auto
  note IH = assms(5)[unfolded expression_spec_def, rule_format, OF advances_ok[OF adv ok], of Prec_prefix]
  have "outcome (5 * remaining s \<le> Suc n) (p_pop s)
      (\<lambda>e s' us qs. [t] @ us \<noteq> [] \<and> ([] @ qs = [] \<longrightarrow> (\<forall>p. good p e ([t] @ us) s')) \<and> \<not> is_block e)
      (pbind (parse_expression n Prec_prefix (p_pop s))
        (\<lambda>operand s. Done (AstUnaryExpr (node_offset (tok_offset t)) op operand) s))"
  proof (rule outcome_bind[OF IH])
    assume "5 * remaining s \<le> Suc n"
    then show "5 * remaining (p_pop s) + 1 \<le> n" using c by simp
  next
    fix e s1 us qs
    assume a: "advances us qs (p_pop s) s1"
      and post: "us \<noteq> [] \<and> (is_block e \<longrightarrow> tok_kind (hd (ps_cursor (p_pop s))) = TK_l_brace) \<and>
        (qs = [] \<longrightarrow> good Prec_prefix e us s1 \<and> \<not> Prec_prefix < next_precedence s1)"
    show "outcome (5 * remaining s \<le> Suc n) s1
        (\<lambda>e s' vs ps. [t] @ us @ vs \<noteq> [] \<and> ([] @ qs @ ps = [] \<longrightarrow> (\<forall>p. good p e ([t] @ us @ vs) s')) \<and> \<not> is_block e)
        (Done (AstUnaryExpr (node_offset (tok_offset t)) op e) s1)"
      using post off t advances_ok[OF a advances_ok[OF adv ok]]
      by (intro outcome_return) (auto simp: is_block_def good_def not_less)
  qed
  from outcome_after[OF adv this] neof show ?thesis by (simp add: cursor_ops[OF c])
qed

lemma head_return:
  assumes ok: "ps_ok s" and c: "ps_cursor s = t # r" and t: "tok_kind t = TK_kw_return" and "list_spec n"
  shows "outcome (5 * remaining s \<le> Suc n) s
      (\<lambda>e s' ts rs. ts \<noteq> [] \<and> (rs = [] \<longrightarrow> (\<forall>p. good p e ts s')) \<and> \<not> is_block e)
      (run_head (Suc n) On_kw_return s)"
proof -
  have neof: "tok_kind t \<noteq> TK_end_of_file" using t by simp
  note adv = advances_pop[OF ok c neof]
  note ok1 = advances_ok[OF adv ok]
  note off = tok_offset_small[OF ok c] tok_fixed_length[OF ok c]
  obtain u r' where c1: "ps_cursor (p_pop s) = u # r'" using ok1 by (rule ps_ok_cursor)
  let ?post = "\<lambda>e s' us qs. [t] @ us \<noteq> [] \<and> ([] @ qs = [] \<longrightarrow> (\<forall>p. good p e ([t] @ us) s')) \<and> \<not> is_block e"
  have empty: "outcome (5 * remaining s \<le> Suc n) (p_pop s) ?post
      (Done (AstReturnExpr (node_offset (tok_offset t)) []) (p_pop s))"
    if "\<not> starts_expression (tok_kind u)"
    using off t c1 that by (intro outcome_return[OF ok1]) (auto simp: is_block_def intro!: good_leaf)
  note IH = assms(4)[unfolded list_spec_def, rule_format, OF ok1, of "[]"]
  have "outcome (5 * remaining s \<le> Suc n) (p_pop s) ?post
      (pbind (parse_expression_list n [] (p_pop s)) (\<lambda>ret_values s. Done (AstReturnExpr (node_offset (tok_offset t)) ret_values) s))"
  proof (rule outcome_bind[OF IH])
    assume "5 * remaining s \<le> Suc n"
    then show "5 * remaining (p_pop s) + 2 \<le> n" using c by simp
  next
    fix es s1 us qs
    assume a: "advances us qs (p_pop s) s1" and post: "us \<noteq> [] \<and> (\<exists>es1. es1 \<noteq> [] \<and> es = [] @ es1 \<and>
        (qs = [] \<longrightarrow> spells us (comma_separated (map expr_symbols es1)) \<and>
           (\<forall>e \<in> set es1. well_formed Prec_statement e) \<and> separable es1 \<and>
           next_precedence s1 = Prec_statement \<and> tok_kind (hd (ps_cursor s1)) \<noteq> TK_comma))"
    show "outcome (5 * remaining s \<le> Suc n) s1 (\<lambda>e s' vs ps. ?post e s' (us @ vs) (qs @ ps))
        (Done (AstReturnExpr (node_offset (tok_offset t)) es) s1)"
      using post off t advances_ok[OF a ok1]
      by (intro outcome_return) (auto simp: is_block_def good_def may_follow_def)
  qed
  with empty have "outcome (5 * remaining s \<le> Suc n) (p_pop s) ?post
      (pbind (is_expression_next (p_pop s)) (\<lambda>expression_next s.
         if expression_next then
           pbind (parse_expression_list n [] s) (\<lambda>ret_values s.
             Done (AstReturnExpr (node_offset (tok_offset t)) ret_values) s)
         else Done (AstReturnExpr (node_offset (tok_offset t)) []) s))"
    by (simp add: is_expression_next_def cursor_ops[OF c1] lookup_head_starts del: p_pop_sel)
  from outcome_after[OF adv this] neof show ?thesis by (simp add: cursor_ops[OF c])
qed

lemma head_step:
  assumes "expression_spec n" "list_spec n" "statements_spec n"
  shows "head_spec (Suc n)"
  unfolding head_spec_def
proof (intro allI impI)
  fix f s assume ok: "ps_ok s" and lk: "lookup_head_parse_fn (tok_kind (hd (ps_cursor s))) = Some f"
  from ok obtain t r where c: "ps_cursor s = t # r" by (rule ps_ok_cursor)
  from lookup_head_cases[OF lk] c have entry: "head_entry_ok (tok_kind t) f" and neof: "tok_kind t \<noteq> TK_end_of_file"
    by auto
  note off = tok_offset_small[OF ok c]
  show "outcome (5 * remaining s \<le> Suc n) s
      (\<lambda>e s' ts rs. ts \<noteq> [] \<and> (rs = [] \<longrightarrow> (\<forall>p. good p e ts s')) \<and> (f = On_prefix_left_brace \<longleftrightarrow> is_block e))
      (run_head (Suc n) f s)"
  proof (cases f)
    case On_identifier
    with entry neof off head_leaf[OF ok c neof, of "AstIdentExpr (tok_offset t) (variable_length t)" f] show ?thesis
      by (simp add: on_identifier_def cursor_ops[OF c] is_block_def)
  next
    case (On_literal l)
    with entry neof off head_leaf[OF ok c neof, of "AstLiteralExpr (tok_offset t) l (variable_length t)" f] show ?thesis
      by (simp add: on_literal_def cursor_ops[OF c] is_block_def)
  next
    case On_prefix_left_brace
    with entry head_block[OF ok c _ assms(3)] show ?thesis by simp
  next
    case On_kw_return
    with entry head_return[OF ok c _ assms(2)] show ?thesis by simp
  next
    case (On_prefix_operator op)
    with entry head_prefix[OF ok c _ neof assms(1)] show ?thesis by simp
  qed
qed

section \<open>Operators behind an expression\<close>

lemma follow_symbol:
  assumes "advances us rs s s1" "spells us [x]" "may_follow e (tok_kind (hd (ps_cursor s)))"
  shows "may_follow e (symbol_kind x)"
  using assms by (cases x) (auto simp: advances_def spells_Sym spells_Double angles_def)

lemma good_binary:
  assumes "good p e ts0 s" "advances us [] s s1" "spells us [binary_symbol op]"
    "next_precedence s = lookup_precedence_for_associativity op" "p < next_precedence s"
    "good (lookup_precedence_for_associativity op) right vs s2"
    "\<not> lookup_precedence_for_associativity op < next_precedence s2"
  shows "good p (AstBinaryExpr (node_offset (token_offset e)) op e right) (ts0 @ us @ vs) s2"
proof -
  have "spells (ts0 @ us @ vs) (expr_symbols e @ [binary_symbol op] @ expr_symbols right)"
    using assms(1,3,6) by (intro spells_appendI) (simp_all add: good_def)
  moreover have "may_follow e (symbol_kind (binary_symbol op))"
    using follow_symbol[OF assms(2,3)] assms(1) by (simp add: good_def)
  ultimately show ?thesis
    using assms by (simp add: good_def Let_def not_less)
qed

lemma tail_binary:
  assumes ok: "ps_ok s" and adv: "advances us [] s s1" and us: "spells us [binary_symbol op]" "us \<noteq> []"
    and q: "next_precedence s = lookup_precedence_for_associativity op" and "expression_spec n"
  shows "outcome (5 * remaining s \<le> Suc n) s
      (\<lambda>e' s' ts rs. ts \<noteq> [] \<and> \<not> is_block e' \<and>
         (rs = [] \<longrightarrow> (\<forall>p ts0. p < next_precedence s \<longrightarrow> good p e ts0 s \<longrightarrow> good p e' (ts0 @ ts) s')))
      (pbind (parse_expression n (lookup_precedence_for_associativity op) s1)
        (\<lambda>right s. Done (AstBinaryExpr (node_offset (token_offset e)) op e right) s))"
proof (rule outcome_after[OF adv], rule outcome_bind)
  show "outcome (5 * remaining s1 + 1 \<le> n) s1
      (\<lambda>e s' ts rs. ts \<noteq> [] \<and> (is_block e \<longrightarrow> tok_kind (hd (ps_cursor s1)) = TK_l_brace) \<and>
        (rs = [] \<longrightarrow> good (lookup_precedence_for_associativity op) e ts s' \<and>
           \<not> lookup_precedence_for_associativity op < next_precedence s'))
      (parse_expression n (lookup_precedence_for_associativity op) s1)"
    using assms(6)[unfolded expression_spec_def, rule_format, OF advances_ok[OF adv ok]] .
next
  assume "5 * remaining s \<le> Suc n"
  with advances_remaining[OF adv] us(2) show "5 * remaining s1 + 1 \<le> n" by (cases us) auto
next
  fix right s2 vs qs
  assume a: "advances vs qs s1 s2"
    and post: "vs \<noteq> [] \<and> (is_block right \<longrightarrow> tok_kind (hd (ps_cursor s1)) = TK_l_brace) \<and>
      (qs = [] \<longrightarrow> good (lookup_precedence_for_associativity op) right vs s2 \<and>
         \<not> lookup_precedence_for_associativity op < next_precedence s2)"
  show "outcome (5 * remaining s \<le> Suc n) s2
      (\<lambda>e' s' ws ps. us @ vs @ ws \<noteq> [] \<and> \<not> is_block e' \<and>
         ([] @ qs @ ps = [] \<longrightarrow> (\<forall>p ts0. p < next_precedence s \<longrightarrow> good p e ts0 s \<longrightarrow> good p e' (ts0 @ us @ vs @ ws) s')))
      (Done (AstBinaryExpr (node_offset (token_offset e)) op e right) s2)"
    using post us(2) advances_ok[OF a advances_ok[OF adv ok]] good_binary[OF _ adv us(1) q]
    by (intro outcome_return) (auto simp: is_block_def)
qed

lemma tail_postfix:
  assumes ok: "ps_ok s" and c: "ps_cursor s = t # r" and t: "unary_token op = (tok_kind t, False)"
    and neof: "tok_kind t \<noteq> TK_end_of_file" and q: "next_precedence s = Prec_postfix"
  shows "outcome b s
      (\<lambda>e' s' ts rs. ts \<noteq> [] \<and> \<not> is_block e' \<and>
         (rs = [] \<longrightarrow> (\<forall>p ts0. p < next_precedence s \<longrightarrow> good p e ts0 s \<longrightarrow> good p e' (ts0 @ ts) s')))
      (on_postfix_operator op e s)"
  using t q neof c
  by (simp add: on_postfix_operator_def cursor_ops[OF c], intro outcome_Done[OF advances_pop[OF ok c neof]])
    (auto simp: is_block_def good_def intro!: spells_appendI)

lemma tail_call:
  assumes ok: "ps_ok s" and c: "ps_cursor s = t # r" and t: "tok_kind t = TK_l_paren"
    and q: "next_precedence s = Prec_postfix" and "list_spec n"
  shows "outcome (5 * remaining s \<le> Suc n) s
      (\<lambda>e' s' ts rs. ts \<noteq> [] \<and> \<not> is_block e' \<and>
         (rs = [] \<longrightarrow> (\<forall>p ts0. p < next_precedence s \<longrightarrow> good p e ts0 s \<longrightarrow> good p e' (ts0 @ ts) s')))
      (run_tail (Suc n) On_infix_left_paren e s)"
proof -
  let ?E = "\<lambda>e' s' ts rs. ts \<noteq> [] \<and> \<not> is_block e' \<and>
    (rs = [] \<longrightarrow> (\<forall>p ts0. p < next_precedence s \<longrightarrow> good p e ts0 s \<longrightarrow> good p e' (ts0 @ ts) s'))"
  have neof: "tok_kind t \<noteq> TK_end_of_file" using t by simp
  note adv = advances_pop[OF ok c neof]
  note ok1 = advances_ok[OF adv ok]
  obtain u r' where c1: "ps_cursor (p_pop s) = u # r'" using ok1 by (rule ps_ok_cursor)
  note IH = assms(5)[unfolded list_spec_def, rule_format, OF ok1, of "[]"]
  let ?call = "\<lambda>args s. Done (AstCallExpr (node_offset (token_offset e)) e args) s"
  have args: "outcome (5 * remaining s \<le> Suc n) (p_pop s) (\<lambda>e' s' us qs. ?E e' s' ([t] @ us) ([] @ qs))
      (pbind (parse_expression_list n [] (p_pop s)) (\<lambda>args s.
        pbind (expect TK_r_paren expect_closing_paren_in_call s) (\<lambda>_ s. ?call args s)))"
  proof (rule outcome_bind[OF IH])
    assume "5 * remaining s \<le> Suc n"
    then show "5 * remaining (p_pop s) + 2 \<le> n" using c by simp
  next
    fix es s2 us qs
    assume a: "advances us qs (p_pop s) s2" and post: "us \<noteq> [] \<and> (\<exists>es1. es1 \<noteq> [] \<and> es = [] @ es1 \<and>
        (qs = [] \<longrightarrow> spells us (comma_separated (map expr_symbols es1)) \<and>
           (\<forall>e \<in> set es1. well_formed Prec_statement e) \<and> separable es1 \<and>
           next_precedence s2 = Prec_statement \<and> tok_kind (hd (ps_cursor s2)) \<noteq> TK_comma))"
    note ok2 = advances_ok[OF a ok1]
    show "outcome (5 * remaining s \<le> Suc n) s2 (\<lambda>e' s' vs ps. ?E e' s' ([t] @ us @ vs) ([] @ qs @ ps))
        (pbind (expect TK_r_paren expect_closing_paren_in_call s2) (\<lambda>_ s. ?call es s))"
    proof (rule outcome_bind[OF outcome_expect[OF ok2]])
      fix x s3 vs ps assume b: "advances vs ps s2 s3" and v: "\<exists>t. vs = [t] \<and> tok_kind t = TK_r_paren \<and> ps = []"
      show "outcome (5 * remaining s \<le> Suc n) s3 (\<lambda>e' s' ws os. ?E e' s' ([t] @ us @ vs @ ws) ([] @ qs @ ps @ os)) (?call es s3)"
        using post v q t advances_ok[OF b ok2]
        by (intro outcome_return) (auto simp: is_block_def good_def list_all2_append intro!: spells_appendI)
    qed simp_all
  qed
  have empty: "outcome (5 * remaining s \<le> Suc n) (p_pop s) (\<lambda>e' s' us qs. ?E e' s' ([t] @ us) ([] @ qs)) (?call [] (p_pop (p_pop s)))"
    if "tok_kind u = TK_r_paren"
  proof -
    have neof1: "tok_kind u \<noteq> TK_end_of_file" using that by simp
    show ?thesis
      using q t that by (intro outcome_Done[OF advances_pop[OF ok1 c1 neof1]])
        (auto simp: is_block_def good_def intro!: spells_appendI)
  qed
  have "outcome (5 * remaining s \<le> Suc n) (p_pop s) (\<lambda>e' s' us qs. ?E e' s' ([t] @ us) ([] @ qs))
      (pbind (p_move (tc_match TK_r_paren) (p_pop s)) (\<lambda>closed s.
        if \<not> closed then
          pbind (parse_expression_list n [] s) (\<lambda>args s.
          pbind (expect TK_r_paren expect_closing_paren_in_call s) (\<lambda>_ s. ?call args s))
        else ?call [] s))"
    using args empty by (simp add: cursor_ops[OF c1] del: p_pop_sel)
  from outcome_after[OF adv this] neof show ?thesis by (simp add: cursor_ops[OF c])
qed

lemma tail_step:
  assumes "expression_spec n" "list_spec n"
  shows "tail_spec (Suc n)"
  unfolding tail_spec_def
proof (intro allI impI)
  fix f e s assume ok: "ps_ok s" and f: "rule_fn (next_rule s) = Some f"
  from ok obtain t r where c: "ps_cursor s = t # r" by (rule ps_ok_cursor)
  let ?post = "\<lambda>e' s' ts rs. ts \<noteq> [] \<and> \<not> is_block e' \<and>
    (rs = [] \<longrightarrow> (\<forall>p ts0. p < next_precedence s \<longrightarrow> good p e ts0 s \<longrightarrow> good p e' (ts0 @ ts) s'))"
  show "outcome (5 * remaining s \<le> Suc n) s ?post (run_tail (Suc n) f e s)"
    using ok c
  proof (cases rule: next_rule_cases)
    case none
    with f show ?thesis by simp
  next
    case (entry q g)
    with f have g: "g = f" and q: "next_precedence s = q" by simp_all
    note neof = entry(3)
    show ?thesis
    proof (cases f)
      case (On_binary_operator op)
      with entry(2) g q tail_binary[OF ok advances_pop[OF ok c neof], of op n e] assms(1) neof show ?thesis
        by (simp add: cursor_ops[OF c])
    next
      case (On_postfix_operator op)
      with entry(2) g q tail_postfix[OF ok c _ neof] show ?thesis by simp
    next
      case On_infix_left_paren
      with entry(2) g q tail_call[OF ok c _ _ assms(2)] show ?thesis by simp
    qed
  next
    case (shr u r')
    have neof: "tok_kind t \<noteq> TK_end_of_file" "tok_kind u \<noteq> TK_end_of_file"
      using shr by (simp_all add: angles_def)
    note adv1 = advances_pop[OF ok c neof(1)]
    have c1: "ps_cursor (p_pop s) = u # r'" using c shr by simp
    note adv = advances_trans[OF adv1 advances_pop[OF advances_ok[OF adv1 ok] c1 neof(2)]]
    have "f = On_binary_operator op_shr" using f shr(1) by simp
    moreover have "outcome (5 * remaining s \<le> Suc n) s ?post
        (pbind (parse_expression n (lookup_precedence_for_associativity op_shr) (p_pop (p_pop s)))
          (\<lambda>right s. Done (AstBinaryExpr (node_offset (token_offset e)) op_shr e right) s))"
      using tail_binary[OF ok adv[simplified], of op_shr n e] assms(1) shr
      by (simp add: lookup_precedence_for_associativity_def)
    ultimately show ?thesis
      using neof by (simp add: cursor_ops[OF c] cursor_ops[OF c1] del: p_pop_sel)
  qed
qed

section \<open>Lists, statements and blocks\<close>

lemma comma_separated_Cons:
  "xs \<noteq> [] \<Longrightarrow> comma_separated (x # xs) = x @ plain TK_comma # comma_separated xs"
  by (cases xs) simp_all

lemma next_comma:
  assumes "ps_ok s" "ps_cursor s = t # r" "tok_kind t = TK_comma"
  shows "next_precedence s = Prec_statement"
  using assms by (simp add: next_rule_def lookup_tail_parse_rule_def tail_parse_table_def)

abbreviation list_post ::
    "ast_expression list \<Rightarrow> ast_expression list \<Rightarrow> parser \<Rightarrow> token list \<Rightarrow> report_call list \<Rightarrow> bool" where
  "list_post es es' s' ts rs \<equiv> ts \<noteq> [] \<and> (\<exists>es1. es1 \<noteq> [] \<and> es' = es @ es1 \<and>
     (rs = [] \<longrightarrow> spells ts (comma_separated (map expr_symbols es1)) \<and>
        (\<forall>e \<in> set es1. well_formed Prec_statement e) \<and> separable es1 \<and>
        next_precedence s' = Prec_statement \<and> tok_kind (hd (ps_cursor s')) \<noteq> TK_comma))"

lemma list_post_Cons:
  assumes e: "ts \<noteq> []" "rs = [] \<longrightarrow> good Prec_statement e ts s1" and c1: "ps_cursor s1 = u # r" "tok_kind u = TK_comma"
    and "list_post (es @ [e]) es' s' us qs"
  shows "list_post es es' s' (ts @ [u] @ us) (rs @ [] @ qs)"
proof -
  from assms(5) obtain es1 where es1: "us \<noteq> []" "es1 \<noteq> []" "es' = es @ (e # es1)"
    "qs = [] \<longrightarrow> spells us (comma_separated (map expr_symbols es1)) \<and>
       (\<forall>e \<in> set es1. well_formed Prec_statement e) \<and> separable es1 \<and>
       next_precedence s' = Prec_statement \<and> tok_kind (hd (ps_cursor s')) \<noteq> TK_comma" by auto
  have "spells (ts @ [u] @ us) (comma_separated (map expr_symbols (e # es1)))" if "rs = []" "qs = []"
    using e es1 that c1(2) by (auto simp: good_def comma_separated_Cons intro!: spells_appendI)
  with es1 e c1 show ?thesis by (intro conjI exI[of _ "e # es1"]) (auto simp: good_def)
qed

lemma list_step:
  assumes "expression_spec n" "list_spec n"
  shows "list_spec (Suc n)"
  unfolding list_spec_def
proof (intro allI impI)
  fix es s assume ok: "ps_ok s"
  let ?post = "list_post es"
  note IH = assms(1)[unfolded expression_spec_def, rule_format, OF ok, of Prec_statement]
  have "outcome (5 * remaining s + 2 \<le> Suc n) s ?post
      (pbind (parse_expression n Prec_statement s) (\<lambda>expr s.
       pbind (p_move (tc_match TK_comma) s) (\<lambda>comma s.
         if comma then parse_expression_list n (es @ [expr]) s else Done (es @ [expr]) s)))"
  proof (rule outcome_bind[OF IH])
    fix e s1 ts rs
    assume adv: "advances ts rs s s1" and post: "ts \<noteq> [] \<and> (is_block e \<longrightarrow> tok_kind (hd (ps_cursor s)) = TK_l_brace) \<and>
      (rs = [] \<longrightarrow> good Prec_statement e ts s1 \<and> \<not> Prec_statement < next_precedence s1)"
    note ok1 = advances_ok[OF adv ok]
    then obtain u r where c1: "ps_cursor s1 = u # r" by (rule ps_ok_cursor)
    let ?P = "\<lambda>es' s' us qs. ?post es' s' (ts @ us) (rs @ qs)"
    have last: "next_precedence s1 = Prec_statement" if "rs = []"
      using post that by (simp add: not_less order.antisym)
    have stop: "outcome (5 * remaining s + 2 \<le> Suc n) s1 ?P (Done (es @ [e]) s1)"
      if "tok_kind u \<noteq> TK_comma"
      using post last c1 that by (intro outcome_return[OF ok1]) (auto simp: good_def)
    have more: "outcome (5 * remaining s + 2 \<le> Suc n) s1 ?P (parse_expression_list n (es @ [e]) (p_pop s1))"
      if u: "tok_kind u = TK_comma"
    proof (rule outcome_after)
      have neof: "tok_kind u \<noteq> TK_end_of_file" using u by simp
      show adv1: "advances [u] [] s1 (p_pop s1)" by (rule advances_pop[OF ok1 c1 neof])
      show "outcome (5 * remaining s + 2 \<le> Suc n) (p_pop s1) (\<lambda>a s' us qs. ?P a s' ([u] @ us) ([] @ qs))
          (parse_expression_list n (es @ [e]) (p_pop s1))"
        using assms(2)[unfolded list_spec_def, rule_format, OF advances_ok[OF adv1 ok1], of "es @ [e]"]
      proof (rule outcome_weaken)
        assume "5 * remaining s + 2 \<le> Suc n"
        with advances_remaining[OF adv] c1 post show "5 * remaining (p_pop s1) + 2 \<le> n" by (cases ts) auto
      qed (rule list_post_Cons[OF _ _ c1 u], use post in auto)
    qed
    show "outcome (5 * remaining s + 2 \<le> Suc n) s1 ?P
        (pbind (p_move (tc_match TK_comma) s1) (\<lambda>comma s.
          if comma then parse_expression_list n (es @ [e]) s else Done (es @ [e]) s))"
      using stop more by (simp add: cursor_ops[OF c1])
  qed simp
  then show "outcome (5 * remaining s + 2 \<le> Suc n) s ?post (parse_expression_list (Suc n) es s)" by simp
qed

lemma starts_with_brace:
  "starts_with_block e \<Longrightarrow> \<exists>off xs. expr_symbols e = at_offset TK_l_brace off # xs"
  by (induction e rule: starts_with_block.induct) auto

lemma may_be_statement_first:
  assumes "spells ts (expr_symbols e)" "tok_kind (hd ts) \<noteq> TK_l_brace"
  shows "may_be_statement e"
  using assms starts_with_brace[of e] by (auto simp: may_be_statement_def spells_Sym)

lemma statement_step:
  assumes "head_spec n" "expression_spec n"
  shows "statement_spec (Suc n)"
  unfolding statement_spec_def
proof (intro allI impI)
  fix s assume ok: "ps_ok s"
  then obtain t r where c: "ps_cursor s = t # r" by (rule ps_ok_cursor)
  let ?post = "\<lambda>e s' ts rs. ts \<noteq> [] \<and>
    (rs = [] \<longrightarrow> spells ts (terminated e (expr_symbols e)) \<and> statement_well_formed e)"
  show "outcome (5 * remaining s + 2 \<le> Suc n) s ?post (parse_statement (Suc n) s)"
  proof (cases "tok_kind t = TK_l_brace")
    case True
    with c have lk: "lookup_head_parse_fn (tok_kind (hd (ps_cursor s))) = Some On_prefix_left_brace"
      by (simp add: lookup_head_parse_fn_def head_parse_table_def)
    have "outcome (5 * remaining s + 2 \<le> Suc n) s ?post
        (pbind (run_head n On_prefix_left_brace s) (\<lambda>e s. Done e s))"
    proof (rule outcome_bind[OF assms(1)[unfolded head_spec_def, rule_format, OF ok lk]])
      fix e s1 ts rs
      assume adv: "advances ts rs s s1" and "ts \<noteq> [] \<and> (rs = [] \<longrightarrow> (\<forall>p. good p e ts s1)) \<and>
        (On_prefix_left_brace = On_prefix_left_brace \<longleftrightarrow> is_block e)"
      then show "outcome (5 * remaining s + 2 \<le> Suc n) s1 (\<lambda>e s' us qs. ?post e s' (ts @ us) (rs @ qs)) (Done e s1)"
        by (intro outcome_return[OF advances_ok[OF adv ok]])
          (auto simp: good_def terminated_def statement_well_formed_def may_be_statement_def)
    qed simp
    with True show ?thesis by (simp add: lookup_statement_rule_def cursor_ops[OF c])
  next
    case False
    have "outcome (5 * remaining s + 2 \<le> Suc n) s ?post
        (pbind (parse_expression n Prec_statement s) (\<lambda>e s.
          pbind (expect TK_semicolon expect_semicolon s) (\<lambda>_ s. Done e s)))"
    proof (rule outcome_bind[OF assms(2)[unfolded expression_spec_def, rule_format, OF ok]])
      fix e s1 ts rs
      assume adv: "advances ts rs s s1" and post: "ts \<noteq> [] \<and>
        (is_block e \<longrightarrow> tok_kind (hd (ps_cursor s)) = TK_l_brace) \<and>
        (rs = [] \<longrightarrow> good Prec_statement e ts s1 \<and> \<not> Prec_statement < next_precedence s1)"
      note ok1 = advances_ok[OF adv ok]
      show "outcome (5 * remaining s + 2 \<le> Suc n) s1 (\<lambda>e s' us qs. ?post e s' (ts @ us) (rs @ qs))
          (pbind (expect TK_semicolon expect_semicolon s1) (\<lambda>_ s. Done e s))"
      proof (rule outcome_bind[OF outcome_expect[OF ok1]])
        fix x s2 us qs
        assume b: "advances us qs s1 s2" and "\<exists>t. us = [t] \<and> tok_kind t = TK_semicolon \<and> qs = []"
        moreover have "hd ts = t" using adv c post by (cases ts) (auto simp: advances_def)
        ultimately show "outcome (5 * remaining s + 2 \<le> Suc n) s2
            (\<lambda>e s' vs ps. ?post e s' (ts @ us @ vs) (rs @ qs @ ps)) (Done e s2)"
          using post False c may_be_statement_first[of ts e] by (intro outcome_return[OF advances_ok[OF b ok1]])
            (auto simp: good_def terminated_def statement_well_formed_def intro!: spells_appendI)
      qed simp_all
    qed simp
    with False show ?thesis by (simp add: lookup_statement_rule_def cursor_ops[OF c])
  qed
qed

text \<open>Recovery in a block: it ends at the end of the file, behind a semicolon or at a brace.\<close>

lemma recover_statement:
  "ends_with_eof ts \<Longrightarrow>
   \<exists>at_end us ws. recover_at_statement_loop ts = Inr (at_end, ws) \<and> ts = us @ ws \<and> ws \<noteq> [] \<and>
     (us = [] \<longrightarrow> \<not> at_end \<longrightarrow> tok_kind (hd ts) = TK_r_brace)"
proof (induction ts rule: recover_at_statement_loop.induct)
  case (2 t ts)
  then have ne: "ts \<noteq> []" if "tok_kind t \<noteq> TK_end_of_file" using that by (auto simp: ends_with_eof_Cons)
  consider (eof) "tok_kind t = TK_end_of_file" | (semi) "tok_kind t = TK_semicolon" | (brace) "tok_kind t = TK_r_brace"
    | (other) "tok_kind t \<noteq> TK_end_of_file" "tok_kind t \<noteq> TK_semicolon" "tok_kind t \<noteq> TK_r_brace" by blast
  then show ?case
  proof cases
    case semi
    with ne show ?thesis by - (rule exI[of _ False], rule exI[of _ "[t]"], auto)
  next
    case other
    with 2 obtain at_end us ws where "recover_at_statement_loop ts = Inr (at_end, ws)" "ts = us @ ws" "ws \<noteq> []"
      by (auto simp: ends_with_eof_Cons)
    with other show ?thesis by - (rule exI[of _ at_end], rule exI[of _ "t # us"], auto)
  qed auto
qed simp

abbreviation statements_post ::
    "ast_expression list \<Rightarrow> ast_expression list \<Rightarrow> parser \<Rightarrow> token list \<Rightarrow> report_call list \<Rightarrow> bool" where
  "statements_post es es' s' ts rs \<equiv> rs = [] \<longrightarrow> (\<exists>es1. es' = es @ es1 \<and>
     spells ts (concat (map (\<lambda>e. terminated e (expr_symbols e)) es1) @ [plain TK_r_brace]) \<and>
     (\<forall>e \<in> set es1. statement_well_formed e))"

lemma statements_post_Cons:
  assumes "rs = [] \<longrightarrow> spells ts (terminated e (expr_symbols e)) \<and> statement_well_formed e"
    and "statements_post (es @ [e]) es' s' us qs"
  shows "statements_post es es' s' (ts @ us) (rs @ qs)"
proof
  assume "rs @ qs = []"
  with assms obtain es1 where "es' = es @ (e # es1)" "spells ts (terminated e (expr_symbols e))"
    "spells us (concat (map (\<lambda>e. terminated e (expr_symbols e)) es1) @ [plain TK_r_brace])"
    "\<forall>e \<in> set (e # es1). statement_well_formed e" by auto
  then show "\<exists>es1. es' = es @ es1 \<and>
      spells (ts @ us) (concat (map (\<lambda>e. terminated e (expr_symbols e)) es1) @ [plain TK_r_brace]) \<and>
      (\<forall>e \<in> set es1. statement_well_formed e)"
    by (intro exI[of _ "e # es1"]) (auto intro!: spells_appendI)
qed

lemma statements_after_statement:
  assumes "statements_spec n" "ps_ok s" and adv: "advances ts rs s s1" and "ts \<noteq> []"
    and e: "rs = [] \<longrightarrow> spells ts (terminated e (expr_symbols e)) \<and> statement_well_formed e"
  shows "outcome (5 * remaining s + 3 \<le> Suc n) s (statements_post es) (parse_statements n (es @ [e]) s1)"
proof -
  have "outcome (5 * remaining s + 3 \<le> Suc n) s1 (\<lambda>es' s' us qs. statements_post es es' s' (ts @ us) (rs @ qs))
      (parse_statements n (es @ [e]) s1)"
    using assms(1)[unfolded statements_spec_def, rule_format, OF advances_ok[OF adv assms(2)], of "es @ [e]"]
  proof (rule outcome_weaken)
    assume "5 * remaining s + 3 \<le> Suc n"
    with advances_remaining[OF adv] assms(4) show "5 * remaining s1 + 3 \<le> n" by (cases ts) auto
  qed (rule statements_post_Cons[OF e])
  from outcome_after[OF adv this] show ?thesis .
qed

text \<open>Behind a statement that threw, recovery stops at the end of the file or consumes a token.\<close>

lemma statements_after_recovery:
  assumes "statements_spec n" "ps_ok s" and adv: "advances ts rs s s1" and "rs \<noteq> []"
    and "tok_kind (hd (ps_cursor s)) \<noteq> TK_r_brace"
  obtains at_end s2 where "recover_at_statement_level s1 = Done at_end s2"
    "outcome (5 * remaining s + 3 \<le> Suc n) s (statements_post es) (if at_end then Done es s2 else parse_statements n es s2)"
proof -
  let ?b = "5 * remaining s + 3 \<le> Suc n"
  note ok1 = advances_ok[OF adv assms(2)]
  obtain at_end us ws where rec: "recover_at_statement_loop (ps_cursor s1) = Inr (at_end, ws)"
    "ps_cursor s1 = us @ ws" "ws \<noteq> []" "us = [] \<longrightarrow> \<not> at_end \<longrightarrow> tok_kind (hd (ps_cursor s1)) = TK_r_brace"
    using recover_statement[of "ps_cursor s1"] ok1[unfolded ps_ok_def] by metis
  define s2 where "s2 = s1\<lparr>ps_cursor := ws\<rparr>"
  have adv2: "advances us [] s1 s2" using rec by (simp add: advances_def s2_def)
  note adv12 = advances_trans[OF adv adv2]
  let ?post = "\<lambda>es' s' vs qs. statements_post es es' s' ((ts @ us) @ vs) ((rs @ []) @ qs)"
  have "outcome ?b s2 ?post (Done es s2)"
    using assms(4) by (intro outcome_return[OF advances_ok[OF adv12 assms(2)]]) simp
  moreover have "outcome ?b s2 ?post (parse_statements n es s2)" if "\<not> at_end"
    using assms(1)[unfolded statements_spec_def, rule_format, OF advances_ok[OF adv12 assms(2)], of es]
  proof (rule outcome_weaken)
    assume b: ?b
    have "ts @ us \<noteq> []" using adv rec(4) that assms(5) by (auto simp: advances_def)
    with advances_remaining[OF adv12] b show "5 * remaining s2 + 3 \<le> n" by (cases "ts @ us") auto
  qed (use assms(4) in simp)
  ultimately have "outcome ?b s2 ?post (if at_end then Done es s2 else parse_statements n es s2)" by presburger
  from that[OF _ outcome_after[OF adv12 this]] show thesis
    using rec(1) by (simp add: recover_at_statement_level_def p_move_def s2_def)
qed

lemma statements_step:
  assumes "statement_spec n" "statements_spec n"
  shows "statements_spec (Suc n)"
  unfolding statements_spec_def
proof (intro allI impI)
  fix es s assume ok: "ps_ok s"
  then obtain t r where c: "ps_cursor s = t # r" by (rule ps_ok_cursor)
  let ?b = "5 * remaining s + 3 \<le> Suc n"
  show "outcome ?b s (statements_post es) (parse_statements (Suc n) es s)"
  proof (cases "tok_kind t = TK_r_brace")
    case True
    then have neof: "tok_kind t \<noteq> TK_end_of_file" by simp
    show ?thesis
      using True outcome_Done[OF advances_pop[OF ok c neof], of "statements_post es" es ?b] by (simp add: cursor_ops[OF c])
  next
    case False
    note st = assms(1)[unfolded statement_spec_def, rule_format, OF ok]
    show ?thesis
    proof (cases "parse_statement n s")
      case (Done e s1)
      with st obtain ts rs where "advances ts rs s s1" "ts \<noteq> []"
        "rs = [] \<longrightarrow> spells ts (terminated e (expr_symbols e)) \<and> statement_well_formed e"
        by (auto simp: outcome_def)
      from statements_after_statement[OF assms(2) ok this, of es] Done False show ?thesis by (simp add: cursor_ops[OF c])
    next
      case (Thrown s1)
      with st obtain ts rs where adv: "advances ts rs s s1" "rs \<noteq> []" by (auto simp: outcome_def)
      have "tok_kind (hd (ps_cursor s)) \<noteq> TK_r_brace" using c False by simp
      with statements_after_recovery[OF assms(2) ok adv] obtain at_end s2 where
        "recover_at_statement_level s1 = Done at_end s2"
        "outcome ?b s (statements_post es) (if at_end then Done es s2 else parse_statements n es s2)" by blast
      with Thrown False show ?thesis by (simp add: cursor_ops[OF c])
    next
      case (Faulted f)
      with st show ?thesis by (simp add: outcome_def)
    next
      case Out_of_fuel
      with st False show ?thesis by (auto simp: outcome_def cursor_ops[OF c])
    qed
  qed
qed

lemma parser_specs_all:
  "expression_spec n \<and> tails_spec n \<and> head_spec n \<and> tail_spec n \<and> list_spec n \<and> statement_spec n \<and> statements_spec n"
  by (induction n)
    (simp_all add: specs_0 expression_step tails_step head_step tail_step list_step statement_step statements_step)

lemmas expression_ok = parser_specs_all[THEN conjunct1, unfolded expression_spec_def, rule_format]
lemmas statements_ok =
  parser_specs_all[THEN conjunct2, THEN conjunct2, THEN conjunct2, THEN conjunct2, THEN conjunct2,
    THEN conjunct2, unfolded statements_spec_def, rule_format]

end
