(* ===== verification/Parser_Program.thy ===== *)
theory Parser_Program
  imports Parser_Correct
begin

text \<open>
  The contract holds for the parsers of signatures and definitions, and for the main loop with its
  recovery; the locale \<open>token_stream\<close> states what \<open>run_parser\<close> needs of a token list and what it
  then guarantees.
\<close>

section \<open>Definitions\<close>

lemma outcome_type:
  assumes ok: "ps_ok s" and "names_token m"
  shows "outcome b s (\<lambda>e s' ts rs. ts \<noteq> [] \<and> rs = [] \<and> spells ts (expr_symbols e) \<and> is_type e \<and>
      token_offset e = node_offset (tok_offset (hd (ps_cursor s)))) (parse_type m s)"
proof -
  from ok obtain t r where c: "ps_cursor s = t # r" by (rule ps_ok_cursor)
  show ?thesis
  proof (cases "tok_kind t = TK_identifier")
    case True
    then have neof: "tok_kind t \<noteq> TK_end_of_file" by simp
    with True tok_offset_small[OF ok c] show ?thesis
      by (simp add: parse_type_def on_identifier_def cursor_ops[OF c])
        (intro outcome_Done[OF advances_pop[OF ok c neof]], simp add: is_type_def c)
  next
    case False
    then show ?thesis
      using assms by (simp add: parse_type_def cursor_ops[OF c] outcome_report_and_throw)
  qed
qed

lemma token_name:
  assumes "ps_ok s" "ps_cursor s = t # r" "tok_kind t = TK_identifier"
  shows "p_name_from t s' = Done \<lparr>name_offset = tok_offset t, name_length = variable_length t\<rparr> s'"
    and "variable_length t \<noteq> 0"
  using assms by (auto simp: p_name_from_def ast_name_from_def ps_ok_def tok_ok_def)

text \<open>An empty name comes with a report, and so does the error that the caller throws for it.\<close>

lemma outcome_identifier:
  assumes ok: "ps_ok s" and "names_token m"
  shows "outcome b s
      (\<lambda>name s' ts rs. (ast_name_is_empty name \<longrightarrow> rs \<noteq> []) \<and>
         (\<not> ast_name_is_empty name \<longrightarrow> rs = [] \<and> spells ts [name_symbol name])) (expect_identifier m s)"
proof -
  from ok obtain t r where c: "ps_cursor s = t # r" by (rule ps_ok_cursor)
  show ?thesis
  proof (cases "tok_kind t = TK_identifier")
    case True
    then have neof: "tok_kind t \<noteq> TK_end_of_file" by simp
    with True token_name[OF ok c True] show ?thesis
      by (simp add: expect_identifier_def cursor_ops[OF c])
        (intro outcome_Done[OF advances_pop[OF ok c neof]], simp add: ast_name_is_empty_def name_symbol_def)
  next
    case False
    have "outcome b s
        (\<lambda>name s' ts rs. (ast_name_is_empty name \<longrightarrow> rs \<noteq> []) \<and>
           (\<not> ast_name_is_empty name \<longrightarrow> rs = [] \<and> spells ts [name_symbol name]))
        (pbind (report_expected m s) (\<lambda>_ s. Done ast_name_empty s))"
    proof (rule outcome_bind[OF outcome_report_expected[OF assms]])
      fix x s1 ts rs
      assume "advances ts rs s s1" "ts = [] \<and> rs \<noteq> []"
      then show "outcome b s1
          (\<lambda>name s' us qs. (ast_name_is_empty name \<longrightarrow> rs @ qs \<noteq> []) \<and>
             (\<not> ast_name_is_empty name \<longrightarrow> rs @ qs = [] \<and> spells (ts @ us) [name_symbol name]))
          (Done ast_name_empty s1)"
        by (intro outcome_return) (auto simp: ast_name_is_empty_def ast_name_empty_def advances_ok[OF _ ok])
    qed simp
    with False show ?thesis by (simp add: expect_identifier_def cursor_ops[OF c])
  qed
qed

lemma outcome_parameter:
  assumes ok: "ps_ok s"
  shows "outcome b s (\<lambda>p s' ts rs. ts \<noteq> [] \<and> rs = [] \<and> spells ts (parameter_symbols p) \<and> parameter_well_formed p)
      (parse_function_definition_parameter s)"
proof -
  from ok obtain t r where c: "ps_cursor s = t # r" by (rule ps_ok_cursor)
  let ?post = "\<lambda>p s' ts rs. ts \<noteq> [] \<and> rs = [] \<and> spells ts (parameter_symbols p) \<and> parameter_well_formed p"
  have "outcome b s ?post
      (pbind (parse_type expect_parameter_type s) (\<lambda>type s.
       pbind (expect_identifier expect_parameter_name s) (\<lambda>name s.
         if ast_name_is_empty name then Thrown s
         else Done \<lparr>param_offset = node_offset (tok_offset t), param_type = type, param_name = name\<rparr> s)))"
  proof (rule outcome_bind[OF outcome_type[OF ok]])
    fix type s1 ts rs
    assume adv: "advances ts rs s s1" and ty: "ts \<noteq> [] \<and> rs = [] \<and> spells ts (expr_symbols type) \<and> is_type type \<and>
      token_offset type = node_offset (tok_offset (hd (ps_cursor s)))"
    note ok1 = advances_ok[OF adv ok]
    show "outcome b s1 (\<lambda>p s' us qs. ?post p s' (ts @ us) (rs @ qs))
        (pbind (expect_identifier expect_parameter_name s1) (\<lambda>name s.
           if ast_name_is_empty name then Thrown s
           else Done \<lparr>param_offset = node_offset (tok_offset t), param_type = type, param_name = name\<rparr> s))"
    proof (cases "expect_identifier expect_parameter_name s1")
      case (Done name s2)
      with outcome_identifier[OF ok1, of expect_parameter_name b] obtain us qs where
        a: "advances us qs s1 s2" "ast_name_is_empty name \<longrightarrow> qs \<noteq> []"
          "\<not> ast_name_is_empty name \<longrightarrow> qs = [] \<and> spells us [name_symbol name]"
        by (auto simp: outcome_def)
      then show ?thesis
        using ty Done c by (auto simp: outcome_def parameter_symbols_def parameter_well_formed_def intro!: exI[of _ us] spells_appendI)
    qed (use outcome_identifier[OF ok1, of expect_parameter_name b] in \<open>auto simp: outcome_def\<close>)
  qed simp_all
  then show ?thesis by (simp add: parse_function_definition_parameter_def cursor_ops[OF c])
qed

lemma outcome_output:
  assumes ok: "ps_ok s"
  shows "outcome b s (\<lambda>out s' ts rs. ts \<noteq> [] \<and> rs = [] \<and> spells ts (output_symbols out) \<and> output_well_formed out)
      (parse_function_definition_output s)"
proof -
  from ok obtain t r where c: "ps_cursor s = t # r" by (rule ps_ok_cursor)
  have "outcome b s (\<lambda>out s' ts rs. ts \<noteq> [] \<and> rs = [] \<and> spells ts (output_symbols out) \<and> output_well_formed out)
      (pbind (parse_type expect_return_type s) (\<lambda>type s.
         Done \<lparr>output_offset = node_offset (tok_offset t), output_type = type, output_name = ast_name_empty\<rparr> s))"
  proof (rule outcome_bind[OF outcome_type[OF ok]])
    fix type s1 ts rs
    assume adv: "advances ts rs s s1" and ty: "ts \<noteq> [] \<and> rs = [] \<and> spells ts (expr_symbols type) \<and> is_type type \<and>
      token_offset type = node_offset (tok_offset (hd (ps_cursor s)))"
    with c show "outcome b s1 (\<lambda>out s' us qs. ts @ us \<noteq> [] \<and> rs @ qs = [] \<and> spells (ts @ us) (output_symbols out) \<and> output_well_formed out)
        (Done \<lparr>output_offset = node_offset (tok_offset t), output_type = type, output_name = ast_name_empty\<rparr> s1)"
      by (intro outcome_return[OF advances_ok[OF adv ok]]) (auto simp: output_symbols_def output_well_formed_def)
  qed simp_all
  then show ?thesis by (simp add: parse_function_definition_output_def cursor_ops[OF c])
qed

text \<open>The two comma-separated lists of a signature, as one rule for any element parser.\<close>

lemma outcome_separated:
  assumes item: "\<And>s b. ps_ok s \<Longrightarrow> outcome b s (\<lambda>x s' ts rs. ts \<noteq> [] \<and> rs = [] \<and> spells ts (symbols x) \<and> ok x) (item s)"
    and step: "\<And>n xs s. parse (Suc n) xs s =
      pbind (item s) (\<lambda>x s. pbind (p_move (tc_match TK_comma) s) (\<lambda>comma s.
        if comma then parse n (xs @ [x]) s else Done (xs @ [x]) s))"
    and zero: "\<And>xs s. parse 0 xs s = Out_of_fuel"
  shows "ps_ok s \<Longrightarrow> outcome (remaining s \<le> n) s
      (\<lambda>ys s' ts rs. \<exists>ys1. ys1 \<noteq> [] \<and> ys = xs @ ys1 \<and> ts \<noteq> [] \<and> rs = [] \<and> spells ts (comma_separated (map symbols ys1)) \<and> list_all ok ys1)
      (parse n xs s)"
proof (induction n arbitrary: xs s)
  case 0
  then show ?case using remaining_pos[of s] by (simp add: zero outcome_Out_of_fuel)
next
  case (Suc n)
  let ?post = "\<lambda>xs ys (s' :: parser) ts rs. \<exists>ys1. ys1 \<noteq> [] \<and> ys = xs @ ys1 \<and> ts \<noteq> [] \<and> rs = ([] :: report_call list) \<and>
    spells ts (comma_separated (map symbols ys1)) \<and> list_all ok ys1"
  show ?case unfolding step
  proof (rule outcome_bind[OF item[OF Suc.prems]])
    fix x s1 ts rs
    assume adv: "advances ts rs s s1" and x: "ts \<noteq> [] \<and> rs = [] \<and> spells ts (symbols x) \<and> ok x"
    note ok1 = advances_ok[OF adv Suc.prems]
    then obtain u r where c1: "ps_cursor s1 = u # r" by (rule ps_ok_cursor)
    let ?P = "\<lambda>ys s' us qs. ?post xs ys s' (ts @ us) (rs @ qs)"
    have stop: "outcome (remaining s \<le> Suc n) s1 ?P (Done (xs @ [x]) s1)"
      using x by (intro outcome_return[OF ok1]) auto
    have more: "outcome (remaining s \<le> Suc n) s1 ?P (parse n (xs @ [x]) (p_pop s1))"
      if u: "tok_kind u = TK_comma"
    proof (rule outcome_after)
      have neof: "tok_kind u \<noteq> TK_end_of_file" using u by simp
      show adv1: "advances [u] [] s1 (p_pop s1)" by (rule advances_pop[OF ok1 c1 neof])
      show "outcome (remaining s \<le> Suc n) (p_pop s1) (\<lambda>a s' us qs. ?P a s' ([u] @ us) ([] @ qs))
          (parse n (xs @ [x]) (p_pop s1))"
        using Suc.IH[OF advances_ok[OF adv1 ok1], of "xs @ [x]"]
      proof (rule outcome_weaken)
        assume "remaining s \<le> Suc n"
        with advances_remaining[OF adv] c1 x show "remaining (p_pop s1) \<le> n" by (cases ts) auto
      next
        fix ys and s' :: parser and us and qs :: "report_call list"
        assume "\<exists>ys1. ys1 \<noteq> [] \<and> ys = (xs @ [x]) @ ys1 \<and> us \<noteq> [] \<and> qs = [] \<and> spells us (comma_separated (map symbols ys1)) \<and> list_all ok ys1"
        then obtain ys1 where ys1: "ys1 \<noteq> []" "ys = xs @ (x # ys1)" "us \<noteq> []" "qs = []"
          "spells us (comma_separated (map symbols ys1))" "list_all ok ys1" by auto
        then have "spells (ts @ [u] @ us) (comma_separated (map symbols (x # ys1)))"
          using x u by (auto simp: comma_separated_Cons intro!: spells_appendI)
        with ys1 x show "?P ys s' ([u] @ us) ([] @ qs)" by (intro exI[of _ "x # ys1"]) auto
      qed
    qed
    show "outcome (remaining s \<le> Suc n) s1 ?P
        (pbind (p_move (tc_match TK_comma) s1) (\<lambda>comma s. if comma then parse n (xs @ [x]) s else Done (xs @ [x]) s))"
      using stop more by (simp add: cursor_ops[OF c1])
  qed simp
qed

lemma outcome_parameter_list:
  "ps_ok s \<Longrightarrow> outcome (remaining s \<le> n) s
     (\<lambda>ys s' ts rs. \<exists>ys1. ys1 \<noteq> [] \<and> ys = xs @ ys1 \<and> ts \<noteq> [] \<and> rs = [] \<and>
        spells ts (comma_separated (map parameter_symbols ys1)) \<and> list_all parameter_well_formed ys1)
     (parse_parameter_list n xs s)"
  by (rule outcome_separated[OF outcome_parameter]) simp_all

lemma outcome_output_list:
  "ps_ok s \<Longrightarrow> outcome (remaining s \<le> n) s
     (\<lambda>ys s' ts rs. \<exists>ys1. ys1 \<noteq> [] \<and> ys = xs @ ys1 \<and> ts \<noteq> [] \<and> rs = [] \<and>
        spells ts (comma_separated (map output_symbols ys1)) \<and> list_all output_well_formed ys1)
     (parse_output_list n xs s)"
  by (rule outcome_separated[OF outcome_output]) simp_all

lemma outcome_parameters:
  assumes ok: "ps_ok s"
  shows "outcome (remaining s \<le> n) s
      (\<lambda>ps s' ts rs. rs = [] \<and> spells ts (comma_separated (map parameter_symbols ps) @ [plain TK_r_paren]) \<and>
         list_all parameter_well_formed ps)
      (parse_function_definition_parameters n s)"
proof -
  from ok obtain t r where c: "ps_cursor s = t # r" by (rule ps_ok_cursor)
  let ?post = "\<lambda>ps s' ts rs. rs = [] \<and> spells ts (comma_separated (map parameter_symbols ps) @ [plain TK_r_paren]) \<and>
         list_all parameter_well_formed ps"
  show ?thesis
  proof (cases "tok_kind t = TK_r_paren")
    case True
    then have neof: "tok_kind t \<noteq> TK_end_of_file" by simp
    with True show ?thesis
      by (simp add: parse_function_definition_parameters_def cursor_ops[OF c])
        (intro outcome_Done[OF advances_pop[OF ok c neof]], simp)
  next
    case False
    have "outcome (remaining s \<le> n) s ?post
        (pbind (parse_parameter_list n [] s) (\<lambda>parameters s.
         pbind (expect TK_r_paren expect_paren_after_parameters s) (\<lambda>_ s. Done parameters s)))"
    proof (rule outcome_bind[OF outcome_parameter_list[OF ok]])
      fix ps s1 ts rs
      assume adv: "advances ts rs s s1" and ps: "\<exists>ps1. ps1 \<noteq> [] \<and> ps = [] @ ps1 \<and> ts \<noteq> [] \<and> rs = [] \<and>
        spells ts (comma_separated (map parameter_symbols ps1)) \<and> list_all parameter_well_formed ps1"
      note ok1 = advances_ok[OF adv ok]
      show "outcome (remaining s \<le> n) s1 (\<lambda>ps s' us qs. ?post ps s' (ts @ us) (rs @ qs))
          (pbind (expect TK_r_paren expect_paren_after_parameters s1) (\<lambda>_ s. Done ps s))"
      proof (rule outcome_bind[OF outcome_expect[OF ok1]])
        fix x s2 us qs
        assume b: "advances us qs s1 s2" and "\<exists>t. us = [t] \<and> tok_kind t = TK_r_paren \<and> qs = []"
        with ps show "outcome (remaining s \<le> n) s2 (\<lambda>ps s' vs os. ?post ps s' (ts @ us @ vs) (rs @ qs @ os)) (Done ps s2)"
          by (intro outcome_return[OF advances_ok[OF b ok1]]) (auto intro!: spells_appendI)
      qed simp_all
    qed simp
    with False show ?thesis by (simp add: parse_function_definition_parameters_def cursor_ops[OF c])
  qed
qed

lemma outcome_outputs:
  assumes ok: "ps_ok s"
  shows "outcome (remaining s \<le> n) s
      (\<lambda>outs s' ts rs. rs = [] \<and>
         spells ts (if outs = [] then [] else plain TK_thin_arrow # comma_separated (map output_symbols outs)) \<and>
         list_all output_well_formed outs)
      (parse_function_definition_outputs n s)"
proof -
  from ok obtain t r where c: "ps_cursor s = t # r" by (rule ps_ok_cursor)
  show ?thesis
  proof (cases "tok_kind t = TK_thin_arrow")
    case False
    then show ?thesis
      by (simp add: parse_function_definition_outputs_def cursor_ops[OF c])
        (intro outcome_return[OF ok], simp)
  next
    case True
    then have neof: "tok_kind t \<noteq> TK_end_of_file" by simp
    note adv = advances_pop[OF ok c neof]
    have "outcome (remaining s \<le> n) (p_pop s)
        (\<lambda>outs s' us qs. [] @ qs = [] \<and> spells ([t] @ us)
           (if outs = [] then [] else plain TK_thin_arrow # comma_separated (map output_symbols outs)) \<and>
           list_all output_well_formed outs)
        (parse_output_list n [] (p_pop s))"
      using outcome_output_list[OF advances_ok[OF adv ok], of n "[]"]
    proof (rule outcome_weaken)
      assume "remaining s \<le> n"
      then show "remaining (p_pop s) \<le> n" using c by simp
    qed (use True in auto)
    from outcome_after[OF adv this] True show ?thesis
      by (simp add: parse_function_definition_outputs_def cursor_ops[OF c])
  qed
qed

lemma outcome_body:
  assumes ok: "ps_ok s"
  shows "outcome (5 * remaining s + 3 \<le> n) s
      (\<lambda>d s' ts rs. rs = [] \<longrightarrow> (\<exists>es. d = mk es \<and>
         spells ts (plain TK_l_brace # concat (map (\<lambda>e. terminated e (expr_symbols e)) es) @ [plain TK_r_brace]) \<and>
         (\<forall>e \<in> set es. statement_well_formed e)))
      (pbind (expect TK_l_brace expect_brace_before_function_body s) (\<lambda>_ s.
       pbind (parse_block n s) (\<lambda>statements s. Done (mk statements) s)))"
proof (rule outcome_bind[OF outcome_expect[OF ok]])
  fix x s1 ts rs
  assume adv: "advances ts rs s s1" and t: "\<exists>t. ts = [t] \<and> tok_kind t = TK_l_brace \<and> rs = []"
  note ok1 = advances_ok[OF adv ok]
  show "outcome (5 * remaining s + 3 \<le> n) s1
      (\<lambda>d s' us qs. rs @ qs = [] \<longrightarrow> (\<exists>es. d = mk es \<and>
         spells (ts @ us) (plain TK_l_brace # concat (map (\<lambda>e. terminated e (expr_symbols e)) es) @ [plain TK_r_brace]) \<and>
         (\<forall>e \<in> set es. statement_well_formed e)))
      (pbind (parse_block n s1) (\<lambda>statements s. Done (mk statements) s))"
    unfolding parse_block_def
  proof (rule outcome_bind[OF statements_ok[OF ok1]])
    assume "5 * remaining s + 3 \<le> n"
    with advances_remaining[OF adv] show "5 * remaining s1 + 3 \<le> n" by simp
  next
    fix es s2 us qs
    assume a: "advances us qs s1 s2" and "qs = [] \<longrightarrow> (\<exists>es1. es = [] @ es1 \<and>
      spells us (concat (map (\<lambda>e. terminated e (expr_symbols e)) es1) @ [plain TK_r_brace]) \<and>
      (\<forall>e \<in> set es1. statement_well_formed e))"
    with t show "outcome (5 * remaining s + 3 \<le> n) s2
        (\<lambda>d s' vs ps. rs @ qs @ ps = [] \<longrightarrow> (\<exists>es. d = mk es \<and>
           spells (ts @ us @ vs) (plain TK_l_brace # concat (map (\<lambda>e. terminated e (expr_symbols e)) es) @ [plain TK_r_brace]) \<and>
           (\<forall>e \<in> set es. statement_well_formed e)))
        (Done (mk es) s2)"
      by (intro outcome_return[OF advances_ok[OF a ok1]]) auto
  qed
qed simp_all

text \<open>The tokens of the parts of a function definition together spell the definition.\<close>

lemma function_spelled:
  assumes "\<exists>t. ts1 = [t] \<and> tok_kind t = TK_l_paren"
    and "spells ts2 (comma_separated (map parameter_symbols (fn_parameters d)) @ [plain TK_r_paren])"
    and "spells ts3 (if fn_outputs d = [] then [] else plain TK_thin_arrow # comma_separated (map output_symbols (fn_outputs d)))"
    and "spells ts4 (plain TK_l_brace # concat (map (\<lambda>e. terminated e (expr_symbols e)) (fn_statements d)) @ [plain TK_r_brace])"
  shows "spells (ts1 @ ts2 @ ts3 @ ts4) (function_symbols d)"
proof -
  have "spells ts1 [plain TK_l_paren]" using assms(1) by auto
  from spells_appendI[OF this spells_appendI[OF assms(2) spells_appendI[OF assms(3,4)]]] show ?thesis
    unfolding function_symbols_def .
qed

lemma outcome_function_definition:
  assumes ok: "ps_ok s" and t: "tok_kind t = TK_identifier"
  shows "outcome (5 * remaining s + 3 \<le> n) s
      (\<lambda>d s' ts rs. rs = [] \<longrightarrow>
         fn_access_modifier d = access \<and> fn_name d = \<lparr>name_offset = tok_offset t, name_length = variable_length t\<rparr> \<and>
         spells ts (function_symbols d) \<and> fn_offset d = node_offset off \<and>
         ((access = access_none \<longrightarrow> node_offset off = tok_offset t) \<longrightarrow> definition_well_formed d))
      (parse_function_definition n off access t s)"
proof -
  let ?name = "\<lparr>name_offset = tok_offset t, name_length = variable_length t\<rparr>"
  let ?post = "\<lambda>d s' ts rs. rs = [] \<longrightarrow> fn_access_modifier d = access \<and> fn_name d = ?name \<and>
    spells ts (function_symbols d) \<and> fn_offset d = node_offset off \<and>
    ((access = access_none \<longrightarrow> node_offset off = tok_offset t) \<longrightarrow> definition_well_formed d)"
  let ?mk = "\<lambda>ps outs es. \<lparr>fn_offset = node_offset off, fn_access_modifier = access, fn_name = ?name,
    fn_parameters = ps, fn_outputs = outs, fn_statements = es\<rparr>"
  let ?b = "5 * remaining s + 3 \<le> n"
  have "outcome ?b s ?post
      (pbind (expect TK_l_paren expect_paren_after_function_name s) (\<lambda>_ s.
       pbind (parse_function_definition_parameters n s) (\<lambda>ps s.
       pbind (parse_function_definition_outputs n s) (\<lambda>outs s.
       pbind (expect TK_l_brace expect_brace_before_function_body s) (\<lambda>_ s.
       pbind (parse_block n s) (\<lambda>es s. Done (?mk ps outs es) s))))))"
  proof (rule outcome_bind[OF outcome_expect[OF ok]])
    fix x s1 ts1 rs1
    assume adv1: "advances ts1 rs1 s s1" and p1: "\<exists>t. ts1 = [t] \<and> tok_kind t = TK_l_paren \<and> rs1 = []"
    note ok1 = advances_ok[OF adv1 ok]
    show "outcome ?b s1 (\<lambda>d s' us qs. ?post d s' (ts1 @ us) (rs1 @ qs))
        (pbind (parse_function_definition_parameters n s1) (\<lambda>ps s.
         pbind (parse_function_definition_outputs n s) (\<lambda>outs s.
         pbind (expect TK_l_brace expect_brace_before_function_body s) (\<lambda>_ s.
         pbind (parse_block n s) (\<lambda>es s. Done (?mk ps outs es) s)))))"
    proof (rule outcome_bind[OF outcome_parameters[OF ok1]])
      assume ?b
      with advances_remaining[OF adv1] show "remaining s1 \<le> n" by simp
    next
      fix ps s2 ts2 rs2
      assume adv2: "advances ts2 rs2 s1 s2" and p2: "rs2 = [] \<and>
        spells ts2 (comma_separated (map parameter_symbols ps) @ [plain TK_r_paren]) \<and>
        list_all parameter_well_formed ps"
      note ok2 = advances_ok[OF adv2 ok1]
      show "outcome ?b s2 (\<lambda>d s' us qs. ?post d s' (ts1 @ ts2 @ us) (rs1 @ rs2 @ qs))
          (pbind (parse_function_definition_outputs n s2) (\<lambda>outs s.
           pbind (expect TK_l_brace expect_brace_before_function_body s) (\<lambda>_ s.
           pbind (parse_block n s) (\<lambda>es s. Done (?mk ps outs es) s))))"
      proof (rule outcome_bind[OF outcome_outputs[OF ok2]])
        assume ?b
        with advances_remaining[OF adv1] advances_remaining[OF adv2] show "remaining s2 \<le> n" by simp
      next
        fix outs s3 ts3 rs3
        assume adv3: "advances ts3 rs3 s2 s3" and p3: "rs3 = [] \<and>
          spells ts3 (if outs = [] then [] else plain TK_thin_arrow # comma_separated (map output_symbols outs)) \<and>
          list_all output_well_formed outs"
        show "outcome ?b s3 (\<lambda>d s' us qs. ?post d s' (ts1 @ ts2 @ ts3 @ us) (rs1 @ rs2 @ rs3 @ qs))
            (pbind (expect TK_l_brace expect_brace_before_function_body s3) (\<lambda>_ s.
             pbind (parse_block n s) (\<lambda>es s. Done (?mk ps outs es) s)))"
          using outcome_body[OF advances_ok[OF adv3 ok2], of n "?mk ps outs"]
        proof (rule outcome_weaken)
          assume ?b
          with advances_remaining[OF adv1] advances_remaining[OF adv2] advances_remaining[OF adv3]
          show "5 * remaining s3 + 3 \<le> n" by simp
        next
          fix d s' ts4 and rs4 :: "report_call list"
          assume p4: "rs4 = [] \<longrightarrow> (\<exists>es. d = ?mk ps outs es \<and>
            spells ts4 (plain TK_l_brace # concat (map (\<lambda>e. terminated e (expr_symbols e)) es) @ [plain TK_r_brace]) \<and>
            (\<forall>e \<in> set es. statement_well_formed e))"
          show "?post d s' (ts1 @ ts2 @ ts3 @ ts4) (rs1 @ rs2 @ rs3 @ rs4)"
          proof
            assume "rs1 @ rs2 @ rs3 @ rs4 = []"
            with p4 obtain es where d: "d = ?mk ps outs es"
              and e: "spells ts4 (plain TK_l_brace # concat (map (\<lambda>e. terminated e (expr_symbols e)) es) @ [plain TK_r_brace])"
              and wf: "\<forall>e \<in> set es. statement_well_formed e" by auto
            have "spells (ts1 @ ts2 @ ts3 @ ts4) (function_symbols d)"
              using p1 p2 p3 e d by (intro function_spelled) auto
            with d wf p2 p3 show "fn_access_modifier d = access \<and> fn_name d = ?name \<and>
                spells (ts1 @ ts2 @ ts3 @ ts4) (function_symbols d) \<and> fn_offset d = node_offset off \<and>
                ((access = access_none \<longrightarrow> node_offset off = tok_offset t) \<longrightarrow> definition_well_formed d)"
              by (simp add: definition_well_formed_def list_all_iff)
          qed
        qed
      qed
    qed
  qed simp_all
  then show ?thesis
    using t by (simp add: parse_function_definition_def p_name_from_def ast_name_from_def)
qed

lemma outcome_access_modifier:
  assumes ok: "ps_ok s"
  shows "outcome b s (\<lambda>a s' ts rs. rs = [] \<and>
      spells ts (access_symbols a (tok_offset (hd (ps_cursor s)))) \<and> (a = access_none \<longrightarrow> ts = [])) (parse_access_modifier s)"
proof -
  from ok obtain t r where c: "ps_cursor s = t # r" by (rule ps_ok_cursor)
  consider "tok_kind t = TK_kw_private" | "tok_kind t = TK_kw_public"
    | "tok_kind t \<noteq> TK_kw_private" "tok_kind t \<noteq> TK_kw_public" by blast
  then show ?thesis
  proof cases
    case 3
    then show ?thesis
      by (simp add: parse_access_modifier_def cursor_ops[OF c]) (intro outcome_return[OF ok], simp)
  qed (use advances_pop[OF ok c] tok_fixed_length[OF ok c] c in \<open>auto simp: parse_access_modifier_def cursor_ops[OF c] intro!: outcome_Done\<close>)
qed

lemma outcome_definition:
  assumes ok: "ps_ok s"
  shows "outcome (5 * remaining s + 3 \<le> n) s
      (\<lambda>d s' ts rs. ts \<noteq> [] \<and> (rs = [] \<longrightarrow> spells ts (definition_symbols d) \<and> definition_well_formed d))
      (parse_definition n s)"
proof -
  from ok obtain t r where c: "ps_cursor s = t # r" by (rule ps_ok_cursor)
  let ?post = "\<lambda>d s' ts rs. ts \<noteq> [] \<and> (rs = [] \<longrightarrow> spells ts (definition_symbols d) \<and> definition_well_formed d)"
  let ?b = "5 * remaining s + 3 \<le> n"
  have "outcome ?b s ?post
      (pbind (parse_access_modifier s) (\<lambda>access s.
       pbind (p_move (tc_match_token TK_identifier) s) (\<lambda>tok s.
         case tok of
           Some t' \<Rightarrow> parse_function_definition n (tok_offset t) access t' s
         | None \<Rightarrow> report_and_throw expect_function_struct_or_enum s)))"
  proof (rule outcome_bind[OF outcome_access_modifier[OF ok]])
    fix access s1 ts rs
    assume adv: "advances ts rs s s1" and acc: "rs = [] \<and>
      spells ts (access_symbols access (tok_offset (hd (ps_cursor s)))) \<and> (access = access_none \<longrightarrow> ts = [])"
    note ok1 = advances_ok[OF adv ok]
    then obtain u r' where c1: "ps_cursor s1 = u # r'" by (rule ps_ok_cursor)
    let ?P = "\<lambda>d s' us qs. ?post d s' (ts @ us) (rs @ qs)"
    have "outcome ?b s1 ?P (parse_function_definition n (tok_offset t) access u (p_pop s1))"
      if u: "tok_kind u = TK_identifier"
    proof (rule outcome_after)
      have neof: "tok_kind u \<noteq> TK_end_of_file" using u by simp
      have at: "u = t" if "access = access_none" using acc that adv c c1 by (simp add: advances_def)
      show adv1: "advances [u] [] s1 (p_pop s1)" by (rule advances_pop[OF ok1 c1 neof])
      show "outcome ?b (p_pop s1) (\<lambda>d s' us qs. ?P d s' ([u] @ us) ([] @ qs))
          (parse_function_definition n (tok_offset t) access u (p_pop s1))"
        using outcome_function_definition[OF advances_ok[OF adv1 ok1] u, of n access "tok_offset t"]
      proof (rule outcome_weaken)
        assume ?b
        moreover have "remaining (p_pop s1) \<le> remaining s" using c1 advances_remaining[OF adv] by simp
        ultimately show "5 * remaining (p_pop s1) + 3 \<le> n" by linarith
      qed (use acc u at c tok_offset_small[OF ok c] in
          \<open>auto simp: definition_symbols_def name_symbol_def intro!: spells_appendI\<close>)
    qed
    then show "outcome ?b s1 ?P
        (pbind (p_move (tc_match_token TK_identifier) s1) (\<lambda>tok s.
           case tok of
             Some t' \<Rightarrow> parse_function_definition n (tok_offset t) access t' s
           | None \<Rightarrow> report_and_throw expect_function_struct_or_enum s))"
      by (simp add: cursor_ops[OF c1] outcome_report_and_throw[OF ok1])
  qed simp
  then show ?thesis by (simp add: parse_definition_def cursor_ops[OF c])
qed

section \<open>The whole run\<close>

lemma recover_definition:
  "ends_with_eof ts \<Longrightarrow>
   \<exists>us ws. recover_at_definition_loop ts = Inr ws \<and> ts = us @ ws \<and> ws \<noteq> [] \<and>
     (us = [] \<longrightarrow> tok_kind (hd ts) = TK_end_of_file)"
proof (induction ts rule: recover_at_definition_loop.induct)
  case (2 t ts)
  show ?case
  proof (cases "tok_kind t = TK_end_of_file")
    case True
    then show ?thesis by auto
  next
    case False
    with 2 obtain u us where ts: "ts = u # us" by (cases ts) (auto simp: ends_with_eof_Cons)
    show ?thesis
    proof (cases "tok_kind u \<in> set recovery_tokens")
      case True
      with False ts show ?thesis by (auto intro!: exI[of _ "[t]"])
    next
      case not: False
      have "ends_with_eof ts" using 2(2) False by (simp add: ends_with_eof_Cons)
      from 2(1)[OF False ts not this] obtain vs ws where "recover_at_definition_loop ts = Inr ws" "ts = vs @ ws" "ws \<noteq> []"
        by blast
      with False not ts show ?thesis by (auto intro!: exI[of _ "t # vs"])
    qed
  qed
qed simp

lemma match_end_of_file:
  "ps_cursor s = t # r \<Longrightarrow>
   p_move (tc_match TK_end_of_file) s = Done (tok_kind t = TK_end_of_file) s"
  by (simp add: p_move_def tc_defs)

abbreviation run_post ::
    "ast_definition list \<Rightarrow> ast_definition list \<Rightarrow> parser \<Rightarrow> token list \<Rightarrow> report_call list \<Rightarrow> bool" where
  "run_post ds ds' s' ts rs \<equiv> tok_kind (hd (ps_cursor s')) = TK_end_of_file \<and> (rs = [] \<longrightarrow> (\<exists>ds1. ds' = ds @ ds1 \<and>
     spells ts (concat (map definition_symbols ds1)) \<and> list_all definition_well_formed ds1))"

lemma run_post_Cons:
  assumes "rs = [] \<longrightarrow> spells ts (definition_symbols d) \<and> definition_well_formed d"
    and "run_post (ds @ [d]) ds' s' us qs"
  shows "run_post ds ds' s' (ts @ us) (rs @ qs)"
proof (intro conjI impI)
  assume "rs @ qs = []"
  with assms obtain ds1 where "ds' = ds @ (d # ds1)" "spells us (concat (map definition_symbols ds1))"
    "list_all definition_well_formed (d # ds1)" "spells ts (definition_symbols d)" by auto
  then show "\<exists>ds1. ds' = ds @ ds1 \<and> spells (ts @ us) (concat (map definition_symbols ds1)) \<and>
      list_all definition_well_formed ds1"
    by (intro exI[of _ "d # ds1"]) (auto intro!: spells_appendI)
qed (use assms(2) in simp)

text \<open>Behind a definition that threw, recovery is at the end of the file or consumes a token.\<close>

lemma recover_at_definition_advances:
  assumes "ps_ok s" "advances ts rs s s1" "tok_kind (hd (ps_cursor s)) \<noteq> TK_end_of_file"
  obtains us s2 where "recover_at_definition_level s1 = Done () s2" "advances (ts @ us) (rs @ []) s s2" "ts @ us \<noteq> []"
proof -
  note ok1 = advances_ok[OF assms(2,1)]
  obtain us ws where rec: "recover_at_definition_loop (ps_cursor s1) = Inr ws" "ps_cursor s1 = us @ ws" "ws \<noteq> []"
    "us = [] \<longrightarrow> tok_kind (hd (ps_cursor s1)) = TK_end_of_file"
    using recover_definition[of "ps_cursor s1"] ok1[unfolded ps_ok_def] by metis
  have "advances us [] s1 (s1\<lparr>ps_cursor := ws\<rparr>)" using rec by (simp add: advances_def)
  note adv = advances_trans[OF assms(2) this]
  moreover have "ts @ us \<noteq> []" using assms(2,3) rec(4) by (auto simp: advances_def)
  moreover have "recover_at_definition_level s1 = Done () (s1\<lparr>ps_cursor := ws\<rparr>)"
    using rec(1) by (simp add: recover_at_definition_level_def)
  ultimately show thesis using that by blast
qed

lemma outcome_run:
  assumes "ps_ok s"
  shows "outcome (5 * remaining s + 4 \<le> n) s (run_post ds) (parser_run n ds s)"
  using assms
proof (induction n arbitrary: ds s)
  case 0
  then show ?case by (simp add: outcome_Out_of_fuel)
next
  case (Suc n)
  note ok = Suc.prems
  then obtain t r where c: "ps_cursor s = t # r" by (rule ps_ok_cursor)
  let ?b = "5 * remaining s + 4 \<le> Suc n"
  show ?case
  proof (cases "tok_kind t = TK_end_of_file")
    case True
    with outcome_return[OF ok, of "run_post ds" ds ?b] c show ?thesis by (simp add: match_end_of_file[OF c])
  next
    case False
    note def = outcome_definition[OF ok, of n]
    have fuel: "5 * remaining s' + 4 \<le> n" if "advances ts rs s s'" "ts \<noteq> []" ?b for ts rs s'
      using advances_remaining[OF that(1)] that(2,3) by (cases ts) auto
    show ?thesis
    proof (cases "parse_definition n s")
      case (Done d s1)
      with def obtain ts rs where adv: "advances ts rs s s1" and d: "ts \<noteq> []"
        "rs = [] \<longrightarrow> spells ts (definition_symbols d) \<and> definition_well_formed d" by (auto simp: outcome_def)
      have "outcome ?b s1 (\<lambda>ds' s' us qs. run_post ds ds' s' (ts @ us) (rs @ qs)) (parser_run n (ds @ [d]) s1)"
        using Suc.IH[OF advances_ok[OF adv ok], of "ds @ [d]"]
        by (rule outcome_weaken) (use fuel[OF adv d(1)] run_post_Cons[OF d(2)] in blast)+
      from outcome_after[OF adv this] Done False show ?thesis by (simp add: match_end_of_file[OF c])
    next
      case (Thrown s1)
      with def obtain ts rs where adv: "advances ts rs s s1" "rs \<noteq> []" by (auto simp: outcome_def)
      have "tok_kind (hd (ps_cursor s)) \<noteq> TK_end_of_file" using c False by simp
      from recover_at_definition_advances[OF ok adv(1) this] obtain us s2 where
        rec: "recover_at_definition_level s1 = Done () s2" and adv2: "advances (ts @ us) (rs @ []) s s2" "ts @ us \<noteq> []" .
      have "outcome ?b s2 (\<lambda>ds' s' vs qs. run_post ds ds' s' ((ts @ us) @ vs) ((rs @ []) @ qs)) (parser_run n ds s2)"
        using Suc.IH[OF advances_ok[OF adv2(1) ok], of ds]
        by (rule outcome_weaken) (use fuel[OF adv2] adv(2) in auto)
      from outcome_after[OF adv2(1) this] rec Thrown False show ?thesis by (simp add: match_end_of_file[OF c])
    next
      case (Faulted f)
      with def show ?thesis by (simp add: outcome_def)
    next
      case Out_of_fuel
      with def False show ?thesis by (auto simp: outcome_def match_end_of_file[OF c])
    qed
  qed
qed

section \<open>Token streams\<close>

text \<open>No exception leaves the loop over the definitions.\<close>

lemma parser_run_not_thrown: "parser_run n ds s \<noteq> Thrown s'"
proof (induction n arbitrary: ds s)
  case (Suc n)
  have move: "p_move f s \<noteq> Thrown s2" for f :: "token_cursor \<Rightarrow> fault + bool \<times> token_cursor" and s s2
    by (auto simp: p_move_def split: sum.splits)
  have rec: "recover_at_definition_level s \<noteq> Thrown s2" for s s2
    by (auto simp: recover_at_definition_level_def split: sum.splits)
  show ?case
  proof (cases "p_move (tc_match TK_end_of_file) s")
    case (Done at_end s1)
    show ?thesis
    proof (cases "parse_definition n s1")
      case (Thrown s2)
      with Done Suc.IH rec[of s2] show ?thesis by (cases "recover_at_definition_level s2") auto
    qed (use Done Suc.IH in auto)
  qed (use move in auto)
qed simp

text \<open>
  What the parser relies on: the list ends with its only end-of-file token, and every token has its
  text in the source and an offset of 24 bits.
\<close>

locale token_stream =
  fixes tokens :: token_list and v :: source_view
  assumes ends: "ends_with_eof tokens"
    and texts: "list_all (\<lambda>t. tok_ok (get_text v) t \<and> tok_start t < 2 ^ 24) tokens"
begin

lemma init_ok: "ps_ok (parser_init tokens v reporter tab_size)"
  using ends texts by (simp add: ps_ok_def parser_init_def tc_init_def get_array_def)

text \<open>Parsing returns, with valid reports; if there are none, the tokens spell the tree.\<close>

lemma run_parser_result:
  obtains defs rs where
    "run_parser tokens v reporter tab_size = Inr (\<lparr>root_definitions = defs\<rparr>, reporter @ rs)"
    "list_all report_valid rs"
    "rs = [] \<Longrightarrow> spells tokens (program_symbols defs) \<and> list_all definition_well_formed defs"
proof -
  let ?s = "parser_init tokens v reporter tab_size"
  have len: "remaining ?s = length tokens" by (simp add: parser_init_def tc_init_def get_array_def)
  have "outcome True ?s (run_post []) (parser_run (parser_fuel tokens) [] ?s)"
    using outcome_run[OF init_ok, of reporter tab_size "parser_fuel tokens" "[]"]
    unfolding len by (simp add: parser_fuel_def)
  then obtain ds s' ts rs where run: "parser_run (parser_fuel tokens) [] ?s = Done ds s' \<and> advances ts rs ?s s' \<and>
      tok_kind (hd (ps_cursor s')) = TK_end_of_file \<and>
      (rs = [] \<longrightarrow> spells ts (concat (map definition_symbols ds)) \<and> list_all definition_well_formed ds)
    \<or> (\<exists>s'. parser_run (parser_fuel tokens) [] ?s = Thrown s')"
    unfolding outcome_def by (auto split: presult.splits)
  with parser_run_not_thrown have run: "parser_run (parser_fuel tokens) [] ?s = Done ds s'" and adv: "advances ts rs ?s s'"
    and eof: "tok_kind (hd (ps_cursor s')) = TK_end_of_file"
    and post: "rs = [] \<longrightarrow> spells ts (concat (map definition_symbols ds)) \<and> list_all definition_well_formed ds"
    by auto
  show thesis
  proof (rule that)
    show "run_parser tokens v reporter tab_size = Inr (\<lparr>root_definitions = ds\<rparr>, reporter @ rs)"
      using run adv by (simp add: run_parser_def advances_def parser_init_def)
    show "list_all report_valid rs" using adv by (simp add: advances_def)
    assume "rs = []"
    obtain t r where t: "ps_cursor s' = t # r" using advances_ok[OF adv init_ok] by (rule ps_ok_cursor)
    then have "ps_cursor s' = [t]" using advances_ok[OF adv init_ok] eof
      by (simp add: ps_ok_def ends_with_eof_Cons)
    then have "tokens = ts @ [t]" using adv by (simp add: advances_def parser_init_def tc_init_def get_array_def)
    moreover have "spells (ts @ [t]) (program_symbols ds)"
      unfolding program_symbols_def using post \<open>rs = []\<close> eof t by (intro spells_appendI) simp_all
    ultimately show "spells tokens (program_symbols ds) \<and> list_all definition_well_formed ds"
      using post \<open>rs = []\<close> by simp
  qed
qed

end

end
