(* ===== verification/Parser_Complete.thy ===== *)
theory Parser_Complete
  imports Parser_Program
begin

text \<open>
  The converse of the contract: tokens that spell a well-formed tree are parsed to this tree,
  without a report. With enough fuel, a parser function settles on a result; by monotonicity in the
  fuel it is the result of every run that does not lack fuel.
\<close>

section \<open>Settling\<close>

definition settles :: "(nat \<Rightarrow> 'a presult) \<Rightarrow> 'a presult \<Rightarrow> bool" where
  "settles f r \<longleftrightarrow> (\<exists>N. \<forall>n\<ge>N. f n = r)"

lemma settles_const [simp]: "settles (\<lambda>n. r) r"
  by (auto simp: settles_def)

lemma settles_Suc: "settles (\<lambda>n. f (Suc n)) r \<Longrightarrow> settles f r"
  unfolding settles_def by (metis Suc_le_D Suc_le_mono)

lemma settles_apply:
  assumes "settles f x" "settles (\<lambda>n. h n x) r"
  shows "settles (\<lambda>n. h n (f n)) r"
proof -
  from assms obtain N M where "\<forall>n\<ge>N. f n = x" "\<forall>n\<ge>M. h n x = r" by (auto simp: settles_def)
  then have "\<forall>n\<ge>max N M. h n (f n) = r" by simp
  then show ?thesis unfolding settles_def by blast
qed

lemma settles_bind:
  assumes "settles f (Done a s)" "settles (\<lambda>n. g n a s) r"
  shows "settles (\<lambda>n. pbind (f n) (g n)) r"
  using settles_apply[OF assms(1), of "\<lambda>n x. pbind x (g n)" r] assms(2) by simp

section \<open>Streams at a position\<close>

abbreviation at_tokens :: "parser \<Rightarrow> token list \<Rightarrow> parser" where
  "at_tokens s ts \<equiv> s\<lparr>ps_cursor := ts\<rparr>"

abbreviation stream :: "parser \<Rightarrow> token list \<Rightarrow> bool" where
  "stream s ts \<equiv> ps_ok (at_tokens s ts)"

lemma stream_suffix: "stream s (ts @ us) \<Longrightarrow> us \<noteq> [] \<Longrightarrow> stream s us"
  by (auto simp: ps_ok_def dest: ends_with_eof_append)

lemma stream_tl: "stream s (t # ts) \<Longrightarrow> tok_kind t \<noteq> TK_end_of_file \<Longrightarrow> stream s ts"
  by (auto simp: ps_ok_def ends_with_eof_Cons)

lemma p_pop_at [simp]: "p_pop (at_tokens s (t # ts)) = at_tokens s ts"
  by (simp add: p_pop_def)

lemmas at_ops = cursor_ops[of "at_tokens s (t # ts)" t ts for s t ts, simplified]

lemma stream_offset: "stream s (t # ts) \<Longrightarrow> node_offset (tok_offset t) = tok_offset t"
  by (rule tok_offset_small) auto

section \<open>First tokens\<close>

lemma starts_expression_simps [simp]:
  "starts_expression TK_identifier" "starts_expression (literal_token l)" "starts_expression TK_l_brace"
  "starts_expression TK_kw_return" "snd (unary_token op) \<Longrightarrow> starts_expression (fst (unary_token op))"
  by (simp add: starts_expression_def, cases l, simp_all add: starts_expression_def, cases op,
      simp_all add: starts_expression_def)

lemma not_brace [simp]: "literal_token l \<noteq> TK_l_brace" "fst (unary_token op) \<noteq> TK_l_brace"
  by (cases l, simp_all, cases op, simp_all)

lemma starts_not [simp]:
  "\<not> starts_expression TK_semicolon" "\<not> starts_expression TK_comma" "\<not> starts_expression TK_r_paren"
  "\<not> starts_expression TK_r_brace" "\<not> starts_expression TK_l_paren" "\<not> starts_expression TK_r_angle"
  "\<not> starts_expression TK_end_of_file" "\<not> starts_expression TK_caret"
  by (simp_all add: starts_expression_def)

lemma head_symbol:
  "\<exists>k x xs. expr_symbols e = Sym k x # xs \<and> starts_expression k \<and> (k = TK_l_brace \<longleftrightarrow> starts_with_block e)"
  by (induction e) auto

lemma first_token:
  assumes "spells ts (expr_symbols e)"
  obtains t us where "ts = t # us" "starts_expression (tok_kind t)" "tok_kind t = TK_l_brace \<longleftrightarrow> starts_with_block e"
  using assms head_symbol[of e] by (auto simp: spells_Sym)

lemma token_offset_first:
  "well_formed p e \<Longrightarrow> spells ts (expr_symbols e) \<Longrightarrow> token_offset e = tok_offset (hd ts)"
proof (induction e arbitrary: p ts)
  case (AstUnaryExpr off op operand)
  show ?case
  proof (cases "snd (unary_token op)")
    case False
    with AstUnaryExpr.prems obtain us vs where "ts = us @ vs" "spells us (expr_symbols operand)" "well_formed p operand"
      "off = token_offset operand" by (auto simp: spells_append)
    with AstUnaryExpr.IH show ?thesis by (auto elim!: first_token)
  qed (use AstUnaryExpr.prems in \<open>auto simp: spells_Sym\<close>)
next
  case (AstBinaryExpr off op left right)
  then obtain us vs where "ts = us @ vs" "spells us (expr_symbols left)" "well_formed p left" "off = token_offset left"
    by (auto simp: spells_append Let_def)
  with AstBinaryExpr.IH(1) show ?case by (auto elim!: first_token)
next
  case (AstCallExpr off callee args)
  then obtain us vs where "ts = us @ vs" "spells us (expr_symbols callee)" "well_formed p callee" "off = token_offset callee"
    by (auto simp: spells_append)
  with AstCallExpr.IH(1) show ?case by (auto elim!: first_token)
qed (auto simp: spells_Sym)

lemma token_offset_small:
  assumes "well_formed p e" "spells ts (expr_symbols e)" "stream s (ts @ c)"
  shows "node_offset (token_offset e) = token_offset e"
  using assms token_offset_first[OF assms(1,2)] by (auto elim!: first_token dest: stream_offset)

section \<open>Operators\<close>

lemma next_rule_binary:
  assumes "spells us [binary_symbol op]" "stream s (us @ t # c)" "starts_expression (tok_kind t)"
  shows "next_rule (at_tokens s (us @ t # c)) =
    \<lparr>rule_precedence = lookup_precedence_for_associativity op, rule_fn = Some (On_binary_operator op)\<rparr>"
proof (cases "binary_symbol op")
  case (Sym k x)
  with assms(1) obtain u where us: "us = [u]" "tok_kind u = k" by (auto simp: spells_Sym)
  have t: "tok_kind t \<noteq> TK_r_angle" using assms(3) by auto
  show ?thesis
    using Sym us t
    by (cases op) (simp_all add: next_rule_def lookup_tail_parse_rule_def tail_parse_table_def
        lookup_precedence_for_associativity_def p_read_def tc_peek_ahead_def)
next
  case Double_angle
  then have op: "op = op_shr" by (cases op) simp_all
  from assms(1) Double_angle obtain u v where "us = [u, v]" "angles u v" by (auto simp: spells_Double)
  then show ?thesis
    using op by (simp add: next_rule_def lookup_tail_parse_rule_def angles_def
        lookup_precedence_for_associativity_def p_read_def tc_peek_ahead_def)
qed

lemma next_rule_lookup:
  "tok_kind t \<noteq> TK_r_angle \<Longrightarrow> map_of tail_parse_table (tok_kind t) = Some (q, f) \<Longrightarrow>
     next_rule (at_tokens s (t # c)) = \<lparr>rule_precedence = q, rule_fn = Some f\<rparr>"
  "tok_kind t \<noteq> TK_r_angle \<Longrightarrow> map_of tail_parse_table (tok_kind t) = None \<Longrightarrow>
     next_rule (at_tokens s (t # c)) = \<lparr>rule_precedence = Prec_statement, rule_fn = None\<rparr>"
  by (simp_all add: next_rule_def lookup_tail_parse_rule_def)

lemma tail_lookups:
  "map_of tail_parse_table TK_caret = Some (Prec_postfix, On_postfix_operator deref)"
  "map_of tail_parse_table TK_plus_plus = Some (Prec_postfix, On_postfix_operator post_increment)"
  "map_of tail_parse_table TK_minus_minus = Some (Prec_postfix, On_postfix_operator post_decrement)"
  "map_of tail_parse_table TK_l_paren = Some (Prec_postfix, On_infix_left_paren)"
  "map_of tail_parse_table TK_semicolon = None"
  "map_of tail_parse_table TK_comma = None"
  "map_of tail_parse_table TK_r_paren = None"
  "map_of tail_parse_table TK_r_brace = None"
  by code_simp+

lemma next_rule_postfix:
  assumes "unary_token op = (tok_kind t, False)"
  shows "next_rule (at_tokens s (t # c)) = \<lparr>rule_precedence = Prec_postfix, rule_fn = Some (On_postfix_operator op)\<rparr>"
  using assms by (intro next_rule_lookup; cases op) (auto simp: tail_lookups dest!: sym[of _ "tok_kind t"])

lemma next_rule_call:
  assumes "tok_kind t = TK_l_paren"
  shows "next_rule (at_tokens s (t # c)) = \<lparr>rule_precedence = Prec_postfix, rule_fn = Some On_infix_left_paren\<rparr>"
  using assms by (intro next_rule_lookup) (simp_all add: tail_lookups)

lemma next_rule_none:
  assumes "tok_kind t \<in> {TK_semicolon, TK_comma, TK_r_paren, TK_r_brace}"
  shows "next_rule (at_tokens s (t # c)) = \<lparr>rule_precedence = Prec_statement, rule_fn = None\<rparr>"
  using assms by (intro next_rule_lookup) (auto simp: tail_lookups)

lemma lookup_head_unary:
  "unary_token op = (k, True) \<Longrightarrow> lookup_head_parse_fn k = Some (On_prefix_operator op)"
  by (cases op) (auto simp: lookup_head_parse_fn_def head_parse_table_def)

lemma lookup_head_literal: "lookup_head_parse_fn (literal_token l) = Some (On_literal l)"
  by (cases l) (simp_all add: lookup_head_parse_fn_def head_parse_table_def)

lemma lookup_head_other:
  "lookup_head_parse_fn TK_identifier = Some On_identifier"
  "lookup_head_parse_fn TK_l_brace = Some On_prefix_left_brace"
  "lookup_head_parse_fn TK_kw_return = Some On_kw_return"
  by (simp_all add: lookup_head_parse_fn_def head_parse_table_def)

section \<open>Expressions\<close>

text \<open>What may follow an expression so that none of it is taken for a part of the expression.\<close>

definition may_end :: "parser \<Rightarrow> ast_expression \<Rightarrow> token list \<Rightarrow> bool" where
  "may_end s e c \<longleftrightarrow>
     next_precedence (at_tokens s c) \<le> right_edge e \<and>
     may_follow e (tok_kind (hd c)) \<and>
     (starts_expression (tok_kind (hd c)) \<longrightarrow> right_edge e \<noteq> Prec_statement)"

text \<open>The parser reads the expression, and goes on with the operators behind it.\<close>

definition parses :: "parser \<Rightarrow> ast_expression \<Rightarrow> bool" where
  "parses s e \<longleftrightarrow> (\<forall>p ts c r. well_formed p e \<longrightarrow> spells ts (expr_symbols e) \<longrightarrow> stream s (ts @ c) \<longrightarrow> c \<noteq> [] \<longrightarrow>
     may_end s e c \<longrightarrow> settles (\<lambda>n. parse_tails n p e (at_tokens s c)) r \<longrightarrow>
     settles (\<lambda>n. parse_expression n p (at_tokens s (ts @ c))) r)"

lemma parsesD:
  assumes "parses s e" "well_formed p e" "spells ts (expr_symbols e)" "stream s (ts @ c)" "c \<noteq> []" "may_end s e c"
    "settles (\<lambda>n. parse_tails n p e (at_tokens s c)) r"
  shows "settles (\<lambda>n. parse_expression n p (at_tokens s (ts @ c))) r"
  using assms unfolding parses_def by blast

lemma tails_stop:
  assumes "stream s c" "next_precedence (at_tokens s c) \<le> p"
  shows "settles (\<lambda>n. parse_tails n p e (at_tokens s c)) (Done e (at_tokens s c))"
  by (rule settles_Suc) (use assms(2) in \<open>simp add: get_next_tail[OF assms(1)] not_less[symmetric]\<close>)

lemma parses_stop:
  assumes "parses s e" "well_formed p e" "spells ts (expr_symbols e)" "stream s (ts @ c)" "c \<noteq> []" "may_end s e c"
    "next_precedence (at_tokens s c) \<le> p"
  shows "settles (\<lambda>n. parse_expression n p (at_tokens s (ts @ c))) (Done e (at_tokens s c))"
  by (rule parsesD[OF assms(1-6) tails_stop[OF stream_suffix[OF assms(4,5)] assms(7)]])

lemma tails_step_on:
  assumes "stream s c" "next_rule (at_tokens s c) = \<lparr>rule_precedence = q, rule_fn = Some f\<rparr>" "p < q"
    "settles (\<lambda>n. run_tail n f e (at_tokens s c)) (Done e' (at_tokens s c'))"
    "settles (\<lambda>n. parse_tails n p e' (at_tokens s c')) r"
  shows "settles (\<lambda>n. parse_tails n p e (at_tokens s c)) r"
proof (rule settles_Suc)
  have "settles (\<lambda>n. pbind (run_tail n f e (at_tokens s c)) (\<lambda>e s. parse_tails n p e s)) r"
    by (rule settles_bind[OF assms(4)]) (rule assms(5))
  then show "settles (\<lambda>n. parse_tails (Suc n) p e (at_tokens s c)) r"
    using assms(2,3) by (simp add: get_next_tail[OF assms(1)])
qed

lemma head_on:
  assumes "lookup_head_parse_fn (tok_kind t) = Some f"
    "settles (\<lambda>n. run_head n f (at_tokens s (t # ts))) (Done e (at_tokens s c))"
    "settles (\<lambda>n. parse_tails n p e (at_tokens s c)) r"
  shows "settles (\<lambda>n. parse_expression n p (at_tokens s (t # ts))) r"
proof (rule settles_Suc)
  have "settles (\<lambda>n. pbind (run_head n f (at_tokens s (t # ts))) (\<lambda>e s. parse_tails n p e s)) r"
    by (rule settles_bind[OF assms(2)]) (rule assms(3))
  then show "settles (\<lambda>n. parse_expression (Suc n) p (at_tokens s (t # ts))) r"
    using assms(1) by (simp add: at_ops)
qed

text \<open>Leaves and prefix operators.\<close>

lemma parses_ident: "parses s (AstIdentExpr off len)"
  unfolding parses_def
proof (intro allI impI)
  fix p ts c r
  assume "spells ts (expr_symbols (AstIdentExpr off len))" and st: "stream s (ts @ c)"
    and k: "settles (\<lambda>n. parse_tails n p (AstIdentExpr off len) (at_tokens s c)) r"
  then obtain t where t: "ts = [t]" "tok_kind t = TK_identifier" "tok_offset t = off" "variable_length t = len"
    by (auto simp: spells_Sym)
  with st have "node_offset off = off" using stream_offset by fastforce
  with t have "settles (\<lambda>n. run_head n On_identifier (at_tokens s (t # c))) (Done (AstIdentExpr off len) (at_tokens s c))"
    by - (rule settles_Suc, simp add: on_identifier_def at_ops)
  with k t show "settles (\<lambda>n. parse_expression n p (at_tokens s (ts @ c))) r"
    using head_on[OF _ _ k] by (simp add: lookup_head_other)
qed

lemma parses_literal: "parses s (AstLiteralExpr off kind len)"
  unfolding parses_def
proof (intro allI impI)
  fix p ts c r
  assume "spells ts (expr_symbols (AstLiteralExpr off kind len))" and st: "stream s (ts @ c)"
    and k: "settles (\<lambda>n. parse_tails n p (AstLiteralExpr off kind len) (at_tokens s c)) r"
  then obtain t where t: "ts = [t]" "tok_kind t = literal_token kind" "tok_offset t = off" "variable_length t = len"
    by (auto simp: spells_Sym)
  with st have "node_offset off = off" using stream_offset by fastforce
  moreover have "literal_token kind \<noteq> TK_end_of_file" by (cases kind) simp_all
  ultimately have "settles (\<lambda>n. run_head n (On_literal kind) (at_tokens s (t # c))) (Done (AstLiteralExpr off kind len) (at_tokens s c))"
    using t by - (rule settles_Suc, simp add: on_literal_def at_ops)
  with k t show "settles (\<lambda>n. parse_expression n p (at_tokens s (ts @ c))) r"
    using head_on[OF _ _ k] by (simp add: lookup_head_literal)
qed

lemma parses_prefix:
  assumes IH: "parses s operand" and op: "unary_token op = (k, True)"
  shows "parses s (AstUnaryExpr off op operand)"
  unfolding parses_def
proof (intro allI impI)
  fix p ts c r
  assume wf: "well_formed p (AstUnaryExpr off op operand)"
    and sp: "spells ts (expr_symbols (AstUnaryExpr off op operand))" and st: "stream s (ts @ c)" and c: "c \<noteq> []"
    and me: "may_end s (AstUnaryExpr off op operand) c"
    and kont: "settles (\<lambda>n. parse_tails n p (AstUnaryExpr off op operand) (at_tokens s c)) r"
  from sp op obtain t us where t: "ts = t # us" "tok_kind t = k" "tok_offset t = off" "spells us (expr_symbols operand)"
    by (auto simp: spells_Sym)
  have neof: "tok_kind t \<noteq> TK_end_of_file" using op t by (cases op) auto
  have off: "node_offset off = off" using st t stream_offset by fastforce
  have st1: "stream s (us @ c)" using st t neof by (auto dest: stream_tl)
  have me1: "may_end s operand c" using me op by (auto simp: may_end_def)
  have "next_precedence (at_tokens s c) \<le> Prec_prefix" using me op by (auto simp: may_end_def)
  with IH wf op t st1 c me1
  have "settles (\<lambda>n. parse_expression n Prec_prefix (at_tokens s (us @ c))) (Done operand (at_tokens s c))"
    by (intro parses_stop) auto
  from settles_bind[OF this settles_const]
  have "settles (\<lambda>n. run_head n (On_prefix_operator op) (at_tokens s (t # us @ c)))
      (Done (AstUnaryExpr off op operand) (at_tokens s c))"
    using t neof off by - (rule settles_Suc, simp add: at_ops)
  then show "settles (\<lambda>n. parse_expression n p (at_tokens s (ts @ c))) r"
    using head_on[OF _ _ kont] op t lookup_head_unary[of op k] by simp
qed

text \<open>Operators behind an operand.\<close>

lemma parses_binary:
  assumes IH: "parses s left" "parses s right"
  shows "parses s (AstBinaryExpr off op left right)"
  unfolding parses_def
proof (intro allI impI)
  let ?e = "AstBinaryExpr off op left right" and ?q = "lookup_precedence_for_associativity op"
  fix p ts c r
  assume wf: "well_formed p ?e" and sp: "spells ts (expr_symbols ?e)" and st: "stream s (ts @ c)" and c: "c \<noteq> []"
    and me: "may_end s ?e c" and kont: "settles (\<lambda>n. parse_tails n p ?e (at_tokens s c)) r"
  from sp obtain us os vs where ts: "ts = us @ os @ vs" "spells us (expr_symbols left)"
      "spells os [binary_symbol op]" "spells vs (expr_symbols right)"
    using spells_append[of _ "[binary_symbol op]" "expr_symbols right"] by (auto simp: spells_append)
  from ts(4) obtain t vs' where t: "vs = t # vs'" "starts_expression (tok_kind t)" by (rule first_token)
  have st1: "stream s (us @ os @ vs @ c)" using st ts(1) by simp
  have st2: "stream s (os @ vs @ c)" using stream_suffix[OF st1] c by simp
  have st3: "stream s (vs @ c)" using stream_suffix[OF st2] c by simp
  note rule = next_rule_binary[OF ts(3) st2[unfolded t(1) append_Cons] t(2), folded append_Cons, folded t(1)]
  have q: "p < ?q" "?q \<le> right_edge left" "well_formed p left" "well_formed ?q right" "off = token_offset left"
    "may_follow left (symbol_kind (binary_symbol op))" using wf by (simp_all add: Let_def)
  have off: "node_offset off = off" using token_offset_small[OF q(3) ts(2) st1] q(5) by simp
  have right: "settles (\<lambda>n. parse_expression n ?q (at_tokens s (vs @ c))) (Done right (at_tokens s c))"
    using me by (intro parses_stop[OF IH(2) q(4) ts(4) st3 c]) (auto simp: may_end_def min_def split: if_splits)
  have tail: "settles (\<lambda>n. run_tail n (On_binary_operator op) left (at_tokens s (os @ vs @ c))) (Done ?e (at_tokens s c))"
  proof (rule settles_Suc)
    have "settles (\<lambda>n. pbind (parse_expression n ?q (at_tokens s (vs @ c)))
        (\<lambda>right s. Done (AstBinaryExpr (node_offset (token_offset left)) op left right) s)) (Done ?e (at_tokens s c))"
      by (rule settles_bind[OF right]) (simp add: off q(5)[symmetric])
    with ts(3) show "settles (\<lambda>n. run_tail (Suc n) (On_binary_operator op) left (at_tokens s (os @ vs @ c))) (Done ?e (at_tokens s c))"
      by (cases op) (auto simp: spells_Sym spells_Double angles_def at_ops)
  qed
  have "symbol_kind (binary_symbol op) = tok_kind (hd (os @ vs @ c))"
    using ts(3) by (cases "binary_symbol op") (auto simp: spells_Sym spells_Double angles_def)
  then have "may_end s left (os @ vs @ c)"
    using q by (auto simp: may_end_def rule)
  then show "settles (\<lambda>n. parse_expression n p (at_tokens s (ts @ c))) r"
    using parsesD[OF IH(1) q(3) ts(2) st1 _ _ tails_step_on[OF st2 rule q(1) tail kont]] c ts(1) by simp
qed

lemma parses_postfix:
  assumes IH: "parses s operand" and op: "unary_token op = (k, False)"
  shows "parses s (AstUnaryExpr off op operand)"
  unfolding parses_def
proof (intro allI impI)
  let ?e = "AstUnaryExpr off op operand"
  fix p ts c r
  assume wf: "well_formed p ?e" and sp: "spells ts (expr_symbols ?e)" and st: "stream s (ts @ c)" and c: "c \<noteq> []"
    and kont: "settles (\<lambda>n. parse_tails n p ?e (at_tokens s c)) r"
  from sp op obtain us t where ts: "ts = us @ [t]" "spells us (expr_symbols operand)" "tok_kind t = k"
    by (auto simp: spells_append spells_Sym)
  have neof: "tok_kind t \<noteq> TK_end_of_file" using op ts by (cases op) auto
  have st1: "stream s (us @ t # c)" using st ts(1) by simp
  have st2: "stream s (t # c)" using stream_suffix[OF st1] by simp
  have rule: "next_rule (at_tokens s (t # c)) = \<lparr>rule_precedence = Prec_postfix, rule_fn = Some (On_postfix_operator op)\<rparr>"
    using op ts(3) by (intro next_rule_postfix) simp
  have q: "p < Prec_postfix" "Prec_postfix \<le> right_edge operand" "well_formed p operand" "off = token_offset operand"
    "may_follow operand k" using wf op by simp_all
  have "node_offset off = off" using token_offset_small[OF q(3) ts(2) st1] q(4) by simp
  then have tail: "settles (\<lambda>n. run_tail n (On_postfix_operator op) operand (at_tokens s (t # c))) (Done ?e (at_tokens s c))"
    using neof q(4) by - (rule settles_Suc, simp add: on_postfix_operator_def at_ops)
  have "may_end s operand (t # c)" using q ts(3) by (auto simp: may_end_def rule)
  then show "settles (\<lambda>n. parse_expression n p (at_tokens s (ts @ c))) r"
    using parsesD[OF IH(1) q(3) ts(2) st1 _ _ tails_step_on[OF st2 rule q(1) tail kont]] ts(1) by simp
qed

section \<open>Lists of expressions\<close>

lemma move_match:
  "k \<noteq> TK_end_of_file \<Longrightarrow> tok_kind t = k \<Longrightarrow> p_move (tc_match k) (at_tokens s (t # c)) = Done True (at_tokens s c)"
  "k \<noteq> TK_end_of_file \<Longrightarrow> c \<noteq> [] \<Longrightarrow> tok_kind (hd c) \<noteq> k \<Longrightarrow>
     p_move (tc_match k) (at_tokens s c) = Done False (at_tokens s c)"
  by (simp_all add: at_ops) (cases c; simp add: at_ops)

lemma expect_match:
  "k \<noteq> TK_end_of_file \<Longrightarrow> tok_kind t = k \<Longrightarrow> expect k m (at_tokens s (t # c)) = Done () (at_tokens s c)"
  by (simp add: expect_def move_match)

definition all_parse :: "parser \<Rightarrow> ast_expression list \<Rightarrow> bool" where
  "all_parse s es \<longleftrightarrow> (\<forall>e \<in> set es. parses s e)"

lemma parses_list:
  assumes "es \<noteq> []" "all_parse s es" "\<forall>e \<in> set es. well_formed Prec_statement e" "separable es"
    "spells ts (comma_separated (map expr_symbols es))" "stream s (ts @ c)" "c \<noteq> []"
    "next_precedence (at_tokens s c) = Prec_statement" "\<not> starts_expression (tok_kind (hd c))" "tok_kind (hd c) \<noteq> TK_comma"
  shows "settles (\<lambda>n. parse_expression_list n acc (at_tokens s (ts @ c))) (Done (acc @ es) (at_tokens s c))"
  using assms
proof (induction es arbitrary: acc ts)
  case (Cons e es)
  have e: "parses s e" "well_formed Prec_statement e" using Cons.prems by (auto simp: all_parse_def)
  show ?case
  proof (rule settles_Suc, cases "es = []")
    case True
    have "settles (\<lambda>n. parse_expression n Prec_statement (at_tokens s (ts @ c))) (Done e (at_tokens s c))"
      using Cons.prems True by (intro parses_stop[OF e]) (auto simp: may_end_def may_follow_def)
    then show "settles (\<lambda>n. parse_expression_list (Suc n) acc (at_tokens s (ts @ c))) (Done (acc @ e # es) (at_tokens s c))"
      unfolding parse_expression_list.simps
      by (rule settles_bind) (use Cons.prems True in \<open>simp add: move_match\<close>)
  next
    case False
    with Cons.prems(5) obtain us t vs where ts: "ts = us @ t # vs" "spells us (expr_symbols e)"
      "tok_kind t = TK_comma" "spells vs (comma_separated (map expr_symbols es))"
      by (auto simp: comma_separated_Cons spells_append spells_Sym)
    have st: "stream s (us @ t # vs @ c)" using Cons.prems(6) ts(1) by simp
    have st1: "stream s (t # vs @ c)" using stream_suffix[OF st] by simp
    have st2: "stream s (vs @ c)" using stream_tl[OF st1] ts(3) by simp
    have follow: "may_follow e TK_comma" using Cons.prems(4) False by simp
    have "settles (\<lambda>n. parse_expression n Prec_statement (at_tokens s (us @ t # vs @ c))) (Done e (at_tokens s (t # vs @ c)))"
      using ts(3) follow by (intro parses_stop[OF e ts(2) st]) (auto simp: may_end_def next_rule_none)
    then show "settles (\<lambda>n. parse_expression_list (Suc n) acc (at_tokens s (ts @ c))) (Done (acc @ e # es) (at_tokens s c))"
      unfolding parse_expression_list.simps ts(1) append_assoc append_Cons
    proof (rule settles_bind)
      have "settles (\<lambda>n. parse_expression_list n (acc @ [e]) (at_tokens s (vs @ c))) (Done ((acc @ [e]) @ es) (at_tokens s c))"
        using Cons.prems False by (intro Cons.IH[OF False _ _ _ ts(4) st2]) (auto simp: all_parse_def)
      then show "settles (\<lambda>n. pbind (p_move (tc_match TK_comma) (at_tokens s (t # vs @ c)))
          (\<lambda>comma s. if comma then parse_expression_list n (acc @ [e]) s else Done (acc @ [e]) s))
          (Done (acc @ e # es) (at_tokens s c))"
        using ts(3) by (simp add: move_match)
    qed
  qed
qed simp

lemma first_of_list:
  assumes "es \<noteq> []" "spells ts (comma_separated (map expr_symbols es))"
  obtains t us where "ts = t # us" "starts_expression (tok_kind t)"
proof -
  obtain e es' where es: "es = e # es'" using assms(1) by (cases es) auto
  have "\<exists>us vs. ts = us @ vs \<and> spells us (expr_symbols e)"
    using assms(2) es by (cases "es' = []") (auto simp: comma_separated_Cons spells_append)
  with that show thesis by (auto elim!: first_token)
qed

lemma parses_return:
  assumes IH: "all_parse s es"
  shows "parses s (AstReturnExpr off es)"
  unfolding parses_def
proof (intro allI impI)
  let ?e = "AstReturnExpr off es"
  fix p ts c r
  assume wf: "well_formed p ?e" and sp: "spells ts (expr_symbols ?e)" and st: "stream s (ts @ c)" and c: "c \<noteq> []"
    and me: "may_end s ?e c" and kont: "settles (\<lambda>n. parse_tails n p ?e (at_tokens s c)) r"
  from sp obtain t us where ts: "ts = t # us" "tok_kind t = TK_kw_return" "tok_offset t = off"
      "spells us (comma_separated (map expr_symbols es))" by (auto simp: spells_Sym)
  have off: "node_offset off = off" using st ts stream_offset by fastforce
  have st1: "stream s (us @ c)" using st ts by (auto dest: stream_tl)
  have "settles (\<lambda>n. run_head n On_kw_return (at_tokens s (t # us @ c))) (Done ?e (at_tokens s c))"
  proof (rule settles_Suc, cases "es = []")
    case True
    with ts(4) have us: "us = []" by simp
    have "\<not> starts_expression (tok_kind (hd c))" using me True by (simp add: may_end_def may_follow_def)
    with c us ts(2,3) off True show "settles (\<lambda>n. run_head (Suc n) On_kw_return (at_tokens s (t # us @ c))) (Done ?e (at_tokens s c))"
      by (cases c) (simp_all add: at_ops is_expression_next_def lookup_head_starts)
  next
    case False
    obtain u us' where u: "us = u # us'" "starts_expression (tok_kind u)" using first_of_list[OF False ts(4)] .
    have "settles (\<lambda>n. parse_expression_list n [] (at_tokens s (us @ c))) (Done ([] @ es) (at_tokens s c))"
      using me wf False by (intro parses_list[OF False IH _ _ ts(4) st1 c]) (auto simp: may_end_def may_follow_def)
    then have "settles (\<lambda>n. pbind (parse_expression_list n [] (at_tokens s (us @ c)))
        (\<lambda>ret_values s. Done (AstReturnExpr (node_offset off) ret_values) s)) (Done ?e (at_tokens s c))"
      by (rule settles_bind) (simp add: off)
    then show "settles (\<lambda>n. run_head (Suc n) On_kw_return (at_tokens s (t # us @ c))) (Done ?e (at_tokens s c))"
      using ts(2,3) u by (simp add: at_ops is_expression_next_def lookup_head_starts)
  qed
  with kont ts(1,2) show "settles (\<lambda>n. parse_expression n p (at_tokens s (ts @ c))) r"
    using head_on[OF _ _ kont] by (simp add: lookup_head_other)
qed

lemma parses_call:
  assumes IH: "parses s callee" "all_parse s args"
  shows "parses s (AstCallExpr off callee args)"
  unfolding parses_def
proof (intro allI impI)
  let ?e = "AstCallExpr off callee args"
  fix p ts c r
  assume wf: "well_formed p ?e" and sp: "spells ts (expr_symbols ?e)" and st: "stream s (ts @ c)" and c: "c \<noteq> []"
    and kont: "settles (\<lambda>n. parse_tails n p ?e (at_tokens s c)) r"
  from sp obtain us t vs u where ts: "ts = us @ t # vs @ [u]" "spells us (expr_symbols callee)" "tok_kind t = TK_l_paren"
    "spells vs (comma_separated (map expr_symbols args))" "tok_kind u = TK_r_paren"
    by (auto simp: spells_append spells_Sym)
  have st1: "stream s (us @ t # vs @ u # c)" using st ts(1) by simp
  have st2: "stream s (t # vs @ u # c)" using stream_suffix[OF st1] by simp
  have st3: "stream s (vs @ u # c)" using stream_tl[OF st2] ts(3) by simp
  note rule = next_rule_call[OF ts(3), of "vs @ u # c" s]
  have q: "p < Prec_postfix" "Prec_postfix \<le> right_edge callee" "well_formed p callee" "off = token_offset callee"
    "\<forall>e \<in> set args. well_formed Prec_statement e" "separable args" using wf by simp_all
  have off: "node_offset off = off" using token_offset_small[OF q(3) ts(2) st1] q(4) by simp
  have tail: "settles (\<lambda>n. run_tail n On_infix_left_paren callee (at_tokens s (t # vs @ u # c))) (Done ?e (at_tokens s c))"
  proof (rule settles_Suc, cases "args = []")
    case True
    with ts off q(4) show "settles (\<lambda>n. run_tail (Suc n) On_infix_left_paren callee (at_tokens s (t # vs @ u # c))) (Done ?e (at_tokens s c))"
      by (simp add: at_ops)
  next
    case False
    obtain v vs' where v: "vs = v # vs'" "starts_expression (tok_kind v)" using first_of_list[OF False ts(4)] .
    then have "tok_kind v \<noteq> TK_r_paren" by auto
    moreover have "settles (\<lambda>n. parse_expression_list n [] (at_tokens s (vs @ u # c))) (Done ([] @ args) (at_tokens s (u # c)))"
      using q(5,6) ts(5) by (intro parses_list[OF False IH(2) _ _ ts(4) st3]) (auto simp: next_rule_none)
    then have "settles (\<lambda>n. pbind (parse_expression_list n [] (at_tokens s (vs @ u # c))) (\<lambda>args s.
        pbind (expect TK_r_paren expect_closing_paren_in_call s) (\<lambda>_ s.
          Done (AstCallExpr (node_offset (token_offset callee)) callee args) s))) (Done ?e (at_tokens s c))"
      by (rule settles_bind) (use ts(5) off q(4) in \<open>simp add: expect_match\<close>)
    ultimately show "settles (\<lambda>n. run_tail (Suc n) On_infix_left_paren callee (at_tokens s (t # vs @ u # c))) (Done ?e (at_tokens s c))"
      using ts(3) v(1) by (simp add: at_ops)
  qed
  have "may_end s callee (t # vs @ u # c)" using q ts(3) by (auto simp: may_end_def may_follow_def rule)
  then show "settles (\<lambda>n. parse_expression n p (at_tokens s (ts @ c))) r"
    using parsesD[OF IH(1) q(3) ts(2) st1 _ _ tails_step_on[OF st2 rule q(1) tail kont]] ts(1) by simp
qed

section \<open>Statements and blocks\<close>

abbreviation statement_symbols :: "ast_expression list \<Rightarrow> symbol list" where
  "statement_symbols es \<equiv> concat (map (\<lambda>e. terminated e (expr_symbols e)) es)"

definition statement_parses :: "parser \<Rightarrow> ast_expression \<Rightarrow> bool" where
  "statement_parses s e \<longleftrightarrow> (\<forall>ts c. statement_well_formed e \<longrightarrow> spells ts (terminated e (expr_symbols e)) \<longrightarrow>
     stream s (ts @ c) \<longrightarrow> c \<noteq> [] \<longrightarrow>
     settles (\<lambda>n. parse_statement n (at_tokens s (ts @ c))) (Done e (at_tokens s c)))"

lemma first_of_statement:
  assumes "spells ts (terminated e (expr_symbols e))"
  obtains t us where "ts = t # us" "starts_expression (tok_kind t)" "tok_kind t = TK_l_brace \<longleftrightarrow> starts_with_block e"
  using assms that by (auto simp: terminated_def spells_append elim!: first_token split: if_splits)

lemma statements_step_on:
  assumes "stream s (t # ts)" "tok_kind t \<noteq> TK_r_brace" "settles (\<lambda>n. parse_statement n (at_tokens s (t # ts))) x"
    and "settles (\<lambda>n. case x of
        Done statement s \<Rightarrow> parse_statements n (acc @ [statement]) s
      | Thrown s \<Rightarrow> pbind (recover_at_statement_level s) (\<lambda>at_end s.
            if at_end then Done acc s else parse_statements n acc s)
      | Faulted f \<Rightarrow> Faulted f
      | Out_of_fuel \<Rightarrow> Out_of_fuel) r"
  shows "settles (\<lambda>n. parse_statements n acc (at_tokens s (t # ts))) r"
proof (rule settles_Suc)
  from settles_apply[OF assms(3), of "\<lambda>n x. case x of
        Done statement s \<Rightarrow> parse_statements n (acc @ [statement]) s
      | Thrown s \<Rightarrow> pbind (recover_at_statement_level s) (\<lambda>at_end s.
            if at_end then Done acc s else parse_statements n acc s)
      | Faulted f \<Rightarrow> Faulted f
      | Out_of_fuel \<Rightarrow> Out_of_fuel"] assms(4)
  show "settles (\<lambda>n. parse_statements (Suc n) acc (at_tokens s (t # ts))) r"
    using assms(2) by (simp add: at_ops)
qed

lemma statements_on:
  assumes "\<forall>e \<in> set es. statement_parses s e \<and> statement_well_formed e"
    "spells ts (statement_symbols es @ [plain TK_r_brace])" "stream s (ts @ c)" "c \<noteq> []"
  shows "settles (\<lambda>n. parse_statements n acc (at_tokens s (ts @ c))) (Done (acc @ es) (at_tokens s c))"
  using assms
proof (induction es arbitrary: acc ts)
  case Nil
  then obtain t where "ts = [t]" "tok_kind t = TK_r_brace" by (auto simp: spells_Sym)
  then show ?case by - (rule settles_Suc, simp add: at_ops)
next
  case (Cons e es)
  from Cons.prems(2) obtain us vs where ts: "ts = us @ vs" "spells us (terminated e (expr_symbols e))"
    "spells vs (statement_symbols es @ [plain TK_r_brace])" by (auto simp: spells_append)
  from ts(2) obtain t us' where t: "us = t # us'" "starts_expression (tok_kind t)" by (rule first_of_statement)
  then have brace: "tok_kind t \<noteq> TK_r_brace" by auto
  have st: "stream s (us @ vs @ c)" using Cons.prems(3) ts(1) by simp
  have st1: "stream s (vs @ c)" using stream_suffix[OF st] Cons.prems(4) by simp
  have e: "settles (\<lambda>n. parse_statement n (at_tokens s (us @ vs @ c))) (Done e (at_tokens s (vs @ c)))"
    using Cons.prems ts st by (auto simp: statement_parses_def)
  have rest: "settles (\<lambda>n. parse_statements n (acc @ [e]) (at_tokens s (vs @ c))) (Done (acc @ e # es) (at_tokens s c))"
    using Cons.IH[OF _ ts(3) st1 Cons.prems(4), of "acc @ [e]"] Cons.prems(1) by simp
  have "settles (\<lambda>n. parse_statements n acc (at_tokens s (t # us' @ vs @ c))) (Done (acc @ e # es) (at_tokens s c))"
    using st t(1) brace e rest by (intro statements_step_on[where x = "Done e (at_tokens s (vs @ c))"]) auto
  with ts(1) t(1) show ?case by simp
qed

lemma block_on:
  assumes "\<forall>e \<in> set es. statement_parses s e" "well_formed p (AstBlockExpr off es)"
    "spells ts (expr_symbols (AstBlockExpr off es))" "stream s (ts @ c)" "c \<noteq> []"
  shows "settles (\<lambda>n. run_head n On_prefix_left_brace (at_tokens s (ts @ c))) (Done (AstBlockExpr off es) (at_tokens s c))"
proof (rule settles_Suc)
  from assms(3) obtain t us where ts: "ts = t # us" "tok_kind t = TK_l_brace" "tok_offset t = off"
    "spells us (statement_symbols es @ [plain TK_r_brace])" by (auto simp: spells_Sym)
  have off: "node_offset off = off" using assms(4) ts stream_offset by fastforce
  have st: "stream s (us @ c)" using assms(4) ts by (auto dest: stream_tl)
  have "settles (\<lambda>n. parse_statements n [] (at_tokens s (us @ c))) (Done ([] @ es) (at_tokens s c))"
    using assms(1,2) by (intro statements_on[OF _ ts(4) st assms(5)]) (auto simp: statement_well_formed_def)
  then have "settles (\<lambda>n. pbind (parse_statements n [] (at_tokens s (us @ c)))
      (\<lambda>statements s. Done (AstBlockExpr (node_offset off) statements) s)) (Done (AstBlockExpr off es) (at_tokens s c))"
    by (rule settles_bind) (simp add: off)
  then show "settles (\<lambda>n. run_head (Suc n) On_prefix_left_brace (at_tokens s (ts @ c))) (Done (AstBlockExpr off es) (at_tokens s c))"
    using ts(1-3) by (simp add: at_ops)
qed

lemma block_parses:
  assumes "\<forall>e \<in> set es. statement_parses s e"
  shows "parses s (AstBlockExpr off es)"
  unfolding parses_def
proof (intro allI impI)
  fix p ts c r
  assume wf: "well_formed p (AstBlockExpr off es)" and sp: "spells ts (expr_symbols (AstBlockExpr off es))"
    and st: "stream s (ts @ c)" and c: "c \<noteq> []" and kont: "settles (\<lambda>n. parse_tails n p (AstBlockExpr off es) (at_tokens s c)) r"
  from sp obtain t us where ts: "ts = t # us" "tok_kind t = TK_l_brace" by (auto simp: spells_Sym)
  show "settles (\<lambda>n. parse_expression n p (at_tokens s (ts @ c))) r"
    using head_on[OF _ _ kont, of t On_prefix_left_brace "us @ c"] block_on[OF assms wf sp st c] ts
    by (simp add: lookup_head_other)
qed

lemma block_statement_parses:
  assumes "\<forall>e \<in> set es. statement_parses s e"
  shows "statement_parses s (AstBlockExpr off es)"
  unfolding statement_parses_def
proof (intro allI impI)
  fix ts c
  assume wf: "statement_well_formed (AstBlockExpr off es)" and st: "stream s (ts @ c)" and c: "c \<noteq> []"
    and "spells ts (terminated (AstBlockExpr off es) (expr_symbols (AstBlockExpr off es)))"
  then have sp: "spells ts (expr_symbols (AstBlockExpr off es))" by (simp add: terminated_def is_block_def)
  then obtain t us where ts: "ts = t # us" "tok_kind t = TK_l_brace" by (auto simp: spells_Sym)
  have "settles (\<lambda>n. run_head n On_prefix_left_brace (at_tokens s (ts @ c))) (Done (AstBlockExpr off es) (at_tokens s c))"
    using block_on[OF assms _ sp st c] wf by (simp add: statement_well_formed_def)
  from settles_bind[OF this settles_const]
  show "settles (\<lambda>n. parse_statement n (at_tokens s (ts @ c))) (Done (AstBlockExpr off es) (at_tokens s c))"
    using ts by - (rule settles_Suc, simp add: lookup_statement_rule_def at_ops)
qed

lemma expression_statement_parses:
  assumes "parses s e" "\<not> is_block e"
  shows "statement_parses s e"
  unfolding statement_parses_def
proof (intro allI impI)
  fix ts c
  assume wf: "statement_well_formed e" and st: "stream s (ts @ c)"
    and sp: "spells ts (terminated e (expr_symbols e))"
  with assms(2) obtain us u where ts: "ts = us @ [u]" "spells us (expr_symbols e)" "tok_kind u = TK_semicolon"
    by (auto simp: terminated_def spells_append spells_Sym)
  from ts(2) obtain t us' where t: "us = t # us'" "tok_kind t = TK_l_brace \<longleftrightarrow> starts_with_block e" by (rule first_token)
  have nb: "tok_kind t \<noteq> TK_l_brace" using t(2) wf assms(2) by (simp add: statement_well_formed_def may_be_statement_def)
  have wf1: "well_formed Prec_statement e" using wf by (simp add: statement_well_formed_def)
  have st1: "stream s (us @ u # c)" using st ts(1) by simp
  have "settles (\<lambda>n. parse_expression n Prec_statement (at_tokens s (us @ u # c))) (Done e (at_tokens s (u # c)))"
    using ts(3) by (intro parses_stop[OF assms(1) wf1 ts(2) st1]) (auto simp: may_end_def may_follow_def next_rule_none)
  then have "settles (\<lambda>n. pbind (parse_expression n Prec_statement (at_tokens s (us @ u # c))) (\<lambda>e s.
      pbind (expect TK_semicolon expect_semicolon s) (\<lambda>_ s. Done e s))) (Done e (at_tokens s c))"
    by (rule settles_bind) (use ts(3) in \<open>simp add: expect_match\<close>)
  then show "settles (\<lambda>n. parse_statement n (at_tokens s (ts @ c))) (Done e (at_tokens s c))"
    using ts(1) t(1) nb by - (rule settles_Suc, simp add: lookup_statement_rule_def at_ops)
qed

lemma parses_all: "parses s e \<and> statement_parses s e"
proof (induction e)
  case (AstUnaryExpr off op operand)
  obtain k pre where "unary_token op = (k, pre)" by (cases "unary_token op")
  then have "parses s (AstUnaryExpr off op operand)"
    using AstUnaryExpr parses_prefix parses_postfix by (cases pre) auto
  then show ?case by (simp add: expression_statement_parses is_block_def)
qed (simp_all add: block_parses block_statement_parses expression_statement_parses is_block_def
    parses_ident parses_literal parses_return parses_binary parses_call all_parse_def)

end
