(* ===== verification/Parser_Exact.thy ===== *)
theory Parser_Exact
  imports Parser_Complete
begin

text \<open>
  Definitions and whole token lists: the parser returns the tree that the tokens spell. Together
  with \<open>Parser_Program\<close>, the parser accepts exactly the token lists that spell well-formed trees.
\<close>

section \<open>Signatures\<close>

lemma name_on:
  assumes "tok_kind t = TK_identifier" "stream s (t # c)" "name_symbol n = Sym TK_identifier (Some (tok_offset t, variable_length t))"
  shows "p_name_from t s' = Done n s'" "\<not> ast_name_is_empty n"
proof -
  have n: "n = \<lparr>name_offset = tok_offset t, name_length = variable_length t\<rparr>"
    using assms(3) by (simp add: name_symbol_def)
  show "p_name_from t s' = Done n s'" unfolding n by (rule token_name(1)) (use assms(1,2) in auto)
  have "variable_length t \<noteq> 0" by (rule token_name(2)) (use assms(1,2) in auto)
  then show "\<not> ast_name_is_empty n" by (simp add: n ast_name_is_empty_def)
qed

lemma spells_name:
  "spells ts [name_symbol n] \<longleftrightarrow>
     (\<exists>t. ts = [t] \<and> tok_kind t = TK_identifier \<and> name_symbol n = Sym TK_identifier (Some (tok_offset t, variable_length t)))"
  by (auto simp: name_symbol_def spells_Sym)

lemma type_on:
  assumes "is_type e" "spells ts (expr_symbols e)" "stream s (ts @ c)"
  shows "parse_type m (at_tokens s (ts @ c)) = Done e (at_tokens s c)"
    "\<exists>t. ts = [t] \<and> node_offset (tok_offset t) = token_offset e"
proof -
  obtain off len where e: "e = AstIdentExpr off len" using assms(1) by (cases e) (auto simp: is_type_def)
  with assms(2) obtain t where t: "ts = [t]" "tok_kind t = TK_identifier" "tok_offset t = off" "variable_length t = len"
    by (auto simp: spells_Sym)
  have "node_offset off = off" using assms(3) t stream_offset by fastforce
  with t e show "parse_type m (at_tokens s (ts @ c)) = Done e (at_tokens s c)"
    "\<exists>t. ts = [t] \<and> node_offset (tok_offset t) = token_offset e"
    by (simp_all add: parse_type_def on_identifier_def at_ops)
qed

lemma parameter_on:
  assumes "parameter_well_formed p" "spells ts (parameter_symbols p)" "stream s (ts @ c)"
  shows "parse_function_definition_parameter (at_tokens s (ts @ c)) = Done p (at_tokens s c)"
proof -
  from assms(2) obtain us t where ts: "ts = us @ [t]" "spells us (expr_symbols (param_type p))"
    "tok_kind t = TK_identifier" "name_symbol (param_name p) = Sym TK_identifier (Some (tok_offset t, variable_length t))"
    by (auto simp: parameter_symbols_def spells_append spells_name)
  have st: "stream s (us @ t # c)" using assms(3) ts(1) by simp
  have st1: "stream s (t # c)" using stream_suffix[OF st] by simp
  note type = type_on[OF _ ts(2) st]
  obtain u where u: "us = [u]" "node_offset (tok_offset u) = token_offset (param_type p)"
    using type(2) assms(1) by (auto simp: parameter_well_formed_def)
  show ?thesis
    using ts(1,3) u name_on[OF ts(3) st1 ts(4)] type(1) assms(1)
    by (simp add: parse_function_definition_parameter_def expect_identifier_def at_ops parameter_well_formed_def)
qed

lemma output_on:
  assumes "output_well_formed out" "spells ts (output_symbols out)" "stream s (ts @ c)"
  shows "parse_function_definition_output (at_tokens s (ts @ c)) = Done out (at_tokens s c)"
proof -
  have sp: "spells ts (expr_symbols (output_type out))" using assms(2) by (simp add: output_symbols_def)
  note type = type_on[OF _ sp assms(3)]
  obtain u where "ts = [u]" "node_offset (tok_offset u) = token_offset (output_type out)"
    using type(2) assms(1) by (auto simp: output_well_formed_def)
  then show ?thesis
    using type(1) assms(1) by (simp add: parse_function_definition_output_def at_ops output_well_formed_def)
qed

text \<open>The two comma-separated lists, for any element parser.\<close>

lemma separated_on:
  assumes item: "\<And>x ts c. ok x \<Longrightarrow> spells ts (symbols x) \<Longrightarrow> stream s (ts @ c) \<Longrightarrow>
      item (at_tokens s (ts @ c)) = Done x (at_tokens s c)"
    and step: "\<And>n xs s. parse (Suc n) xs s =
      pbind (item s) (\<lambda>x s. pbind (p_move (tc_match TK_comma) s) (\<lambda>comma s.
        if comma then parse n (xs @ [x]) s else Done (xs @ [x]) s))"
  shows "xs \<noteq> [] \<Longrightarrow> list_all ok xs \<Longrightarrow> spells ts (comma_separated (map symbols xs)) \<Longrightarrow> stream s (ts @ c) \<Longrightarrow>
    c \<noteq> [] \<Longrightarrow> tok_kind (hd c) \<noteq> TK_comma \<Longrightarrow>
    settles (\<lambda>n. parse n acc (at_tokens s (ts @ c))) (Done (acc @ xs) (at_tokens s c))"
proof (induction xs arbitrary: acc ts)
  case (Cons x xs)
  show ?case
  proof (rule settles_Suc, cases "xs = []")
    case True
    with Cons.prems show "settles (\<lambda>n. parse (Suc n) acc (at_tokens s (ts @ c))) (Done (acc @ x # xs) (at_tokens s c))"
      by (simp add: step item move_match)
  next
    case False
    with Cons.prems(3) obtain us t vs where ts: "ts = us @ t # vs" "spells us (symbols x)" "tok_kind t = TK_comma"
      "spells vs (comma_separated (map symbols xs))" by (auto simp: comma_separated_Cons spells_append spells_Sym)
    have st: "stream s (us @ t # vs @ c)" using Cons.prems(4) ts(1) by simp
    have st1: "stream s (vs @ c)" using stream_tl[OF stream_suffix[OF st]] ts(3) by simp
    have "settles (\<lambda>n. parse n (acc @ [x]) (at_tokens s (vs @ c))) (Done ((acc @ [x]) @ xs) (at_tokens s c))"
      using Cons.prems by (intro Cons.IH[OF False _ ts(4) st1]) auto
    then show "settles (\<lambda>n. parse (Suc n) acc (at_tokens s (ts @ c))) (Done (acc @ x # xs) (at_tokens s c))"
      using Cons.prems(2) ts item[OF _ ts(2) st] by (simp add: step move_match)
  qed
qed simp

lemma parameters_on:
  assumes "list_all parameter_well_formed ps" "spells ts (comma_separated (map parameter_symbols ps) @ [plain TK_r_paren])"
    "stream s (ts @ c)"
  shows "settles (\<lambda>n. parse_function_definition_parameters n (at_tokens s (ts @ c))) (Done ps (at_tokens s c))"
proof -
  from assms(2) obtain us u where ts: "ts = us @ [u]" "spells us (comma_separated (map parameter_symbols ps))"
    "tok_kind u = TK_r_paren" by (auto simp: spells_append spells_Sym)
  have st: "stream s (us @ u # c)" using assms(3) ts(1) by simp
  show ?thesis
  proof (cases ps)
    case Nil
    with ts show ?thesis by (simp add: parse_function_definition_parameters_def move_match)
  next
    case (Cons p qs)
    then have ne: "ps \<noteq> []" by simp
    have "\<exists>vs ws. us = vs @ ws \<and> spells vs (parameter_symbols p)"
      using ts(2) Cons by (cases "qs = []") (auto simp: comma_separated_Cons spells_append)
    then obtain v vs where v: "us = v # vs" "tok_kind v = TK_identifier"
      using assms(1) Cons by (cases "param_type p")
        (auto simp: parameter_symbols_def parameter_well_formed_def is_type_def spells_Sym)
    have "settles (\<lambda>n. parse_parameter_list n [] (at_tokens s (us @ u # c))) (Done ([] @ ps) (at_tokens s (u # c)))"
      by (rule separated_on[OF parameter_on _ ne assms(1) ts(2) st]) (use ts(3) in simp_all)
    then have "settles (\<lambda>n. pbind (parse_parameter_list n [] (at_tokens s (us @ u # c))) (\<lambda>parameters s.
        pbind (expect TK_r_paren expect_paren_after_parameters s) (\<lambda>_ s. Done parameters s))) (Done ps (at_tokens s c))"
      by (rule settles_bind) (use ts(3) in \<open>simp add: expect_match\<close>)
    then show ?thesis
      using ts(1) v by (simp add: parse_function_definition_parameters_def at_ops)
  qed
qed

lemma outputs_on:
  assumes "list_all output_well_formed outs"
    "spells ts (if outs = [] then [] else plain TK_thin_arrow # comma_separated (map output_symbols outs))"
    "stream s (ts @ c)" "c \<noteq> []" "tok_kind (hd c) = TK_l_brace"
  shows "settles (\<lambda>n. parse_function_definition_outputs n (at_tokens s (ts @ c))) (Done outs (at_tokens s c))"
proof (cases "outs = []")
  case True
  with assms show ?thesis by (simp add: parse_function_definition_outputs_def move_match)
next
  case False
  with assms(2) obtain t us where ts: "ts = t # us" "tok_kind t = TK_thin_arrow"
    "spells us (comma_separated (map output_symbols outs))" by (auto simp: spells_Sym)
  have st: "stream s (us @ c)" using assms(3) ts by (auto dest: stream_tl)
  have "settles (\<lambda>n. parse_output_list n [] (at_tokens s (us @ c))) (Done ([] @ outs) (at_tokens s c))"
    by (rule separated_on[OF output_on _ False assms(1) ts(3) st assms(4)]) (use assms(5) in simp_all)
  then show ?thesis using ts by (simp add: parse_function_definition_outputs_def move_match)
qed

section \<open>Definitions\<close>

text \<open>The symbols of a definition up to the opening brace of its body.\<close>

definition signature_symbols :: "ast_definition \<Rightarrow> symbol list" where
  "signature_symbols d =
     [plain TK_l_paren] @ (comma_separated (map parameter_symbols (fn_parameters d)) @ [plain TK_r_paren]) @
     (if fn_outputs d = [] then []
      else plain TK_thin_arrow # comma_separated (map output_symbols (fn_outputs d))) @
     [plain TK_l_brace]"

definition header_symbols :: "ast_definition \<Rightarrow> symbol list" where
  "header_symbols d =
     access_symbols (fn_access_modifier d) (fn_offset d) @ name_symbol (fn_name d) # signature_symbols d"

lemma definition_symbols_header:
  "definition_symbols d = header_symbols d @ statement_symbols (fn_statements d) @ [plain TK_r_brace]"
  by (simp add: definition_symbols_def function_symbols_def header_symbols_def signature_symbols_def)

text \<open>A header, followed by a body from which the parser gets the statements, whatever its reports.\<close>

lemma function_definition_then:
  assumes wf: "definition_well_formed d" and sp: "spells ts (signature_symbols d)" and st: "stream s (ts @ c)" and c: "c \<noteq> []"
    and name: "\<And>s'. p_name_from t s' = Done (fn_name d) s'" and off: "node_offset off = fn_offset d"
    and block: "settles (\<lambda>n. parse_block n (at_tokens s c)) (Done (fn_statements d) s')"
  shows "settles (\<lambda>n. parse_function_definition n off (fn_access_modifier d) t (at_tokens s (ts @ c))) (Done d s')"
proof -
  from sp obtain u ps os b where ts: "ts = u # ps @ os @ [b]" "tok_kind u = TK_l_paren"
    "spells ps (comma_separated (map parameter_symbols (fn_parameters d)) @ [plain TK_r_paren])"
    "spells os (if fn_outputs d = [] then [] else plain TK_thin_arrow # comma_separated (map output_symbols (fn_outputs d)))"
    "tok_kind b = TK_l_brace"
    unfolding signature_symbols_def spells_append[of _ "comma_separated x @ [y]" for x y]
      spells_append[of _ "if x then y else z" for x y z] append_Cons append_Nil spells_Sym
    by auto
  have st1: "stream s (u # ps @ os @ b # c)" using st ts(1) by simp
  have st2: "stream s (ps @ os @ b # c)" using stream_tl[OF st1] ts(2) by simp
  have st3: "stream s (os @ b # c)" using stream_suffix[OF st2] by simp
  have params: "settles (\<lambda>n. parse_function_definition_parameters n (at_tokens s (ps @ os @ b # c)))
      (Done (fn_parameters d) (at_tokens s (os @ b # c)))"
    using wf by (intro parameters_on[OF _ ts(3) st2]) (simp add: definition_well_formed_def)
  have outs: "settles (\<lambda>n. parse_function_definition_outputs n (at_tokens s (os @ b # c)))
      (Done (fn_outputs d) (at_tokens s (b # c)))"
    using wf ts(5) by (intro outputs_on[OF _ ts(4) st3]) (simp_all add: definition_well_formed_def)
  let ?mk = "\<lambda>ps os es. \<lparr>fn_offset = node_offset off, fn_access_modifier = fn_access_modifier d, fn_name = fn_name d,
    fn_parameters = ps, fn_outputs = os, fn_statements = es\<rparr>"
  have mk: "?mk (fn_parameters d) (fn_outputs d) (fn_statements d) = d" using off by (cases d) simp
  have "settles (\<lambda>n. pbind (parse_block n (at_tokens s c)) (\<lambda>es s. Done (?mk (fn_parameters d) (fn_outputs d) es) s)) (Done d s')"
    by (rule settles_bind[OF block]) (simp only: mk settles_const)
  then have "settles (\<lambda>n. pbind (expect TK_l_brace expect_brace_before_function_body (at_tokens s (b # c))) (\<lambda>_ s.
      pbind (parse_block n s) (\<lambda>es s. Done (?mk (fn_parameters d) (fn_outputs d) es) s))) (Done d s')"
    using ts(5) by (simp add: expect_match)
  then have "settles (\<lambda>n. pbind (parse_function_definition_outputs n (at_tokens s (os @ b # c))) (\<lambda>outs s.
      pbind (expect TK_l_brace expect_brace_before_function_body s) (\<lambda>_ s.
      pbind (parse_block n s) (\<lambda>es s. Done (?mk (fn_parameters d) outs es) s)))) (Done d s')"
    by (rule settles_bind[OF outs])
  then have "settles (\<lambda>n. pbind (parse_function_definition_parameters n (at_tokens s (ps @ os @ b # c))) (\<lambda>params s.
      pbind (parse_function_definition_outputs n s) (\<lambda>outs s.
      pbind (expect TK_l_brace expect_brace_before_function_body s) (\<lambda>_ s.
      pbind (parse_block n s) (\<lambda>es s. Done (?mk params outs es) s))))) (Done d s')"
    by (rule settles_bind[OF params])
  then show ?thesis
    using ts(1,2) name by (simp add: parse_function_definition_def expect_match)
qed

lemma access_on:
  assumes "spells ts (access_symbols a off)" "tok_kind u = TK_identifier" "stream s (ts @ u # c)"
    "a = access_none \<longrightarrow> off = tok_offset u"
  shows "parse_access_modifier (at_tokens s (ts @ u # c)) = Done a (at_tokens s (u # c))"
    "\<exists>t r. ts @ u # c = t # r \<and> node_offset (tok_offset t) = off"
proof -
  show "parse_access_modifier (at_tokens s (ts @ u # c)) = Done a (at_tokens s (u # c))"
    using assms(1,2) by (cases a) (auto simp: spells_Sym parse_access_modifier_def at_ops)
  show "\<exists>t r. ts @ u # c = t # r \<and> node_offset (tok_offset t) = off"
    using assms(1,3,4) by (cases a) (auto simp: spells_Sym dest: stream_offset)
qed

lemma definition_then:
  assumes "definition_well_formed d" "spells ts (header_symbols d)" "stream s (ts @ c)" "c \<noteq> []"
    and block: "settles (\<lambda>n. parse_block n (at_tokens s c)) (Done (fn_statements d) s')"
  shows "settles (\<lambda>n. parse_definition n (at_tokens s (ts @ c))) (Done d s')"
    "ts \<noteq> [] \<and> tok_kind (hd ts) \<noteq> TK_end_of_file"
proof -
  from assms(2) obtain as u us where ts: "ts = as @ u # us" "spells as (access_symbols (fn_access_modifier d) (fn_offset d))"
    "tok_kind u = TK_identifier" "name_symbol (fn_name d) = Sym TK_identifier (Some (tok_offset u, variable_length u))"
    "spells us (signature_symbols d)"
    unfolding header_symbols_def name_symbol_def spells_append spells_Sym by auto
  have st: "stream s (as @ u # us @ c)" using assms(3) ts(1) by simp
  have st1: "stream s (u # us @ c)" using stream_suffix[OF st] by simp
  have st2: "stream s (us @ c)" using stream_tl[OF st1] ts(3) by simp
  have "fn_access_modifier d = access_none \<longrightarrow> fn_offset d = tok_offset u"
    using assms(1) ts(4) by (simp add: definition_well_formed_def name_symbol_def)
  note access = access_on[OF ts(2,3) st this]
  obtain t r where t: "as @ u # us @ c = t # r" "node_offset (tok_offset t) = fn_offset d" using access(2) by blast
  have "settles (\<lambda>n. parse_function_definition n (tok_offset t) (fn_access_modifier d) u (at_tokens s (us @ c))) (Done d s')"
    by (rule function_definition_then[OF assms(1) ts(5) st2 assms(4) name_on(1)[OF ts(3) st1 ts(4)] t(2) block])
  then show "settles (\<lambda>n. parse_definition n (at_tokens s (ts @ c))) (Done d s')"
    using access(1) ts(1,3) t(1) by (simp add: parse_definition_def at_ops)
  show "ts \<noteq> [] \<and> tok_kind (hd ts) \<noteq> TK_end_of_file"
    using ts(1-3) by (cases "fn_access_modifier d") (auto simp: spells_Sym)
qed

lemma definition_on:
  assumes "definition_well_formed d" "spells ts (definition_symbols d)" "stream s (ts @ c)" "c \<noteq> []"
  shows "settles (\<lambda>n. parse_definition n (at_tokens s (ts @ c))) (Done d (at_tokens s c))"
    "ts \<noteq> [] \<and> tok_kind (hd ts) \<noteq> TK_end_of_file"
proof -
  from assms(2) obtain hs bs where ts: "ts = hs @ bs" "spells hs (header_symbols d)"
    "spells bs (statement_symbols (fn_statements d) @ [plain TK_r_brace])"
    unfolding definition_symbols_header spells_append[of _ "header_symbols d"] by blast
  have st: "stream s (hs @ bs @ c)" using assms(3) ts(1) by simp
  have st1: "stream s (bs @ c)" using stream_suffix[OF st] assms(4) by simp
  have "settles (\<lambda>n. parse_statements n [] (at_tokens s (bs @ c))) (Done ([] @ fn_statements d) (at_tokens s c))"
    using assms(1) parses_all
    by (intro statements_on[OF _ ts(3) st1 assms(4)]) (auto simp: list_all_iff definition_well_formed_def)
  then have "settles (\<lambda>n. parse_block n (at_tokens s (bs @ c))) (Done (fn_statements d) (at_tokens s c))"
    by (simp add: parse_block_def)
  note d = definition_then[OF assms(1) ts(2) st _ this]
  from d ts(1) assms(4) show "settles (\<lambda>n. parse_definition n (at_tokens s (ts @ c))) (Done d (at_tokens s c))"
    "ts \<noteq> [] \<and> tok_kind (hd ts) \<noteq> TK_end_of_file" by auto
qed

lemma run_step_on:
  assumes "stream s (t # ts)" "tok_kind t \<noteq> TK_end_of_file" "settles (\<lambda>n. parse_definition n (at_tokens s (t # ts))) x"
    and "settles (\<lambda>n. case x of
        Done d s \<Rightarrow> parser_run n (acc @ [d]) s
      | Thrown s \<Rightarrow> pbind (recover_at_definition_level s) (\<lambda>_ s. parser_run n acc s)
      | Faulted e \<Rightarrow> Faulted e
      | Out_of_fuel \<Rightarrow> Out_of_fuel) r"
  shows "settles (\<lambda>n. parser_run n acc (at_tokens s (t # ts))) r"
proof (rule settles_Suc)
  from settles_apply[OF assms(3), of "\<lambda>n x. case x of
        Done d s \<Rightarrow> parser_run n (acc @ [d]) s
      | Thrown s \<Rightarrow> pbind (recover_at_definition_level s) (\<lambda>_ s. parser_run n acc s)
      | Faulted e \<Rightarrow> Faulted e
      | Out_of_fuel \<Rightarrow> Out_of_fuel"] assms(4)
  show "settles (\<lambda>n. parser_run (Suc n) acc (at_tokens s (t # ts))) r"
    using assms(2) by (simp add: match_end_of_file[of _ t])
qed

lemma run_on:
  assumes "list_all definition_well_formed ds" "spells ts (concat (map definition_symbols ds))" "stream s (ts @ [u])"
    "tok_kind u = TK_end_of_file"
  shows "settles (\<lambda>n. parser_run n acc (at_tokens s (ts @ [u]))) (Done (acc @ ds) (at_tokens s [u]))"
  using assms
proof (induction ds arbitrary: acc ts)
  case Nil
  then show ?case by - (rule settles_Suc, simp add: match_end_of_file[of _ u "[]"])
next
  case (Cons d ds)
  from Cons.prems(2) obtain us vs where ts: "ts = us @ vs" "spells us (definition_symbols d)"
    "spells vs (concat (map definition_symbols ds))" by (auto simp: spells_append)
  have st: "stream s (us @ vs @ [u])" using Cons.prems(3) ts(1) by simp
  have st1: "stream s (vs @ [u])" using stream_suffix[OF st] by simp
  have wf: "definition_well_formed d" using Cons.prems(1) by simp
  note d = definition_on[OF wf ts(2) st]
  have rest: "settles (\<lambda>n. parser_run n (acc @ [d]) (at_tokens s (vs @ [u]))) (Done (acc @ d # ds) (at_tokens s [u]))"
    using Cons.IH[OF _ ts(3) st1 Cons.prems(4), of "acc @ [d]"] Cons.prems(1) by simp
  obtain t us' where t: "us = t # us'" "tok_kind t \<noteq> TK_end_of_file" using d(2) by (cases us) auto
  have "settles (\<lambda>n. parser_run n acc (at_tokens s (t # us' @ vs @ [u]))) (Done (acc @ d # ds) (at_tokens s [u]))"
    using st t d(1) rest by (intro run_step_on[where x = "Done d (at_tokens s (vs @ [u]))"]) auto
  with ts(1) t(1) show ?case by simp
qed

section \<open>More fuel\<close>

text \<open>A run that does not lack fuel has the same result with more.\<close>

definition fuel_le :: "'a presult \<Rightarrow> 'a presult \<Rightarrow> bool" where
  "fuel_le r r' \<longleftrightarrow> r = Out_of_fuel \<or> r = r'"

lemma fuel_le_refl [simp]: "fuel_le r r" "fuel_le Out_of_fuel r"
  by (simp_all add: fuel_le_def)

lemma fuel_le_bind:
  assumes "fuel_le r r'" "\<And>a s. fuel_le (f a s) (f' a s)"
  shows "fuel_le (pbind r f) (pbind r' f')"
proof (cases "r = Out_of_fuel")
  case False
  with assms(1) have "r' = r" by (simp add: fuel_le_def)
  with assms(2) show ?thesis by (cases r) simp_all
qed simp

lemma fuel_le_if: "fuel_le a a' \<Longrightarrow> fuel_le b b' \<Longrightarrow> fuel_le (if c then a else b) (if c then a' else b')"
  by simp

lemma fuel_le_option:
  "fuel_le a a' \<Longrightarrow> (\<And>x. fuel_le (f x) (f' x)) \<Longrightarrow> fuel_le (case_option a f v) (case_option a' f' v)"
  by (cases v) simp_all

lemma fuel_le_attempt:
  assumes "fuel_le r r'" "\<And>a s. fuel_le (f a s) (f' a s)" "\<And>s. fuel_le (g s) (g' s)"
  shows "fuel_le (case r of Done a s \<Rightarrow> f a s | Thrown s \<Rightarrow> g s | Faulted e \<Rightarrow> Faulted e | Out_of_fuel \<Rightarrow> Out_of_fuel)
    (case r' of Done a s \<Rightarrow> f' a s | Thrown s \<Rightarrow> g' s | Faulted e \<Rightarrow> Faulted e | Out_of_fuel \<Rightarrow> Out_of_fuel)"
proof (cases "r = Out_of_fuel")
  case False
  with assms(1) have "r' = r" by (simp add: fuel_le_def)
  with assms(2,3) show ?thesis by (cases r) simp_all
qed simp

lemma fuel_le_rule:
  "fuel_le a a' \<Longrightarrow> fuel_le b b' \<Longrightarrow>
   fuel_le (case f of Stmt_prefix_left_brace \<Rightarrow> a | Stmt_expression \<Rightarrow> b)
     (case f of Stmt_prefix_left_brace \<Rightarrow> a' | Stmt_expression \<Rightarrow> b')"
  by (cases f) simp_all

lemmas fuel_le_rules = fuel_le_bind fuel_le_if fuel_le_option fuel_le_attempt fuel_le_rule

lemma fuel_le_expressions:
  assumes "n \<le> m"
  shows "fuel_le (parse_expression n p s) (parse_expression m p s)"
    and "fuel_le (parse_tails n p e s) (parse_tails m p e s)"
    and "fuel_le (run_head n h s) (run_head m h s)"
    and "fuel_le (run_tail n t e s) (run_tail m t e s)"
    and "fuel_le (parse_expression_list n es s) (parse_expression_list m es s)"
    and "fuel_le (parse_statement n s) (parse_statement m s)"
    and "fuel_le (parse_statements n es s) (parse_statements m es s)"
  using assms
proof (induction n arbitrary: m p s e h t es)
  case (Suc n)
  {
    case 1
    then obtain k where m: "m = Suc k" and le: "n \<le> k" by (cases m) auto
    show ?case unfolding m parse_expression.simps(2) by (intro fuel_le_rules Suc.IH[OF le] fuel_le_refl)
  next
    case 2
    then obtain k where m: "m = Suc k" and le: "n \<le> k" by (cases m) auto
    show ?case unfolding m parse_tails.simps(2) by (intro fuel_le_rules Suc.IH[OF le] fuel_le_refl)
  next
    case 3
    then obtain k where m: "m = Suc k" and le: "n \<le> k" by (cases m) auto
    show ?case unfolding m run_head.simps(2) by (cases h; simp only: head_parse_function.case; intro fuel_le_rules Suc.IH[OF le] fuel_le_refl)
  next
    case 4
    then obtain k where m: "m = Suc k" and le: "n \<le> k" by (cases m) auto
    show ?case unfolding m run_tail.simps(2) by (cases t; simp only: tail_parse_function.case; intro fuel_le_rules Suc.IH[OF le] fuel_le_refl)
  next
    case 5
    then obtain k where m: "m = Suc k" and le: "n \<le> k" by (cases m) auto
    show ?case unfolding m parse_expression_list.simps(2) by (intro fuel_le_rules Suc.IH[OF le] fuel_le_refl)
  next
    case 6
    then obtain k where m: "m = Suc k" and le: "n \<le> k" by (cases m) auto
    show ?case unfolding m parse_statement.simps(2) by (intro fuel_le_rules Suc.IH[OF le] fuel_le_refl)
  next
    case 7
    then obtain k where m: "m = Suc k" and le: "n \<le> k" by (cases m) auto
    show ?case unfolding m parse_statements.simps(2) by (intro fuel_le_rules Suc.IH[OF le] fuel_le_refl)
  }
qed simp_all

lemma fuel_le_parameters: "n \<le> m \<Longrightarrow> fuel_le (parse_parameter_list n ps s) (parse_parameter_list m ps s)"
proof (induction n arbitrary: m ps s)
  case (Suc n)
  then obtain k where m: "m = Suc k" and le: "n \<le> k" by (cases m) auto
  show ?case unfolding m parse_parameter_list.simps(2) by (intro fuel_le_rules Suc.IH[OF le] fuel_le_refl)
qed simp

lemma fuel_le_outputs: "n \<le> m \<Longrightarrow> fuel_le (parse_output_list n os s) (parse_output_list m os s)"
proof (induction n arbitrary: m os s)
  case (Suc n)
  then obtain k where m: "m = Suc k" and le: "n \<le> k" by (cases m) auto
  show ?case unfolding m parse_output_list.simps(2) by (intro fuel_le_rules Suc.IH[OF le] fuel_le_refl)
qed simp

lemma fuel_le_definition: "n \<le> m \<Longrightarrow> fuel_le (parse_definition n s) (parse_definition m s)"
  unfolding parse_definition_def parse_function_definition_def parse_function_definition_parameters_def
    parse_function_definition_outputs_def parse_block_def
  by (intro fuel_le_rules fuel_le_parameters fuel_le_outputs fuel_le_expressions fuel_le_refl)

lemma fuel_le_run: "n \<le> m \<Longrightarrow> fuel_le (parser_run n ds s) (parser_run m ds s)"
proof (induction n arbitrary: m ds s)
  case (Suc n)
  then obtain k where m: "m = Suc k" and le: "n \<le> k" by (cases m) auto
  show ?case unfolding m parser_run.simps(2) by (intro fuel_le_rules fuel_le_definition[OF le] Suc.IH[OF le] fuel_le_refl)
qed simp

lemma more_fuel: "parser_run n ds s \<noteq> Out_of_fuel \<Longrightarrow> n \<le> m \<Longrightarrow> parser_run m ds s = parser_run n ds s"
  using fuel_le_run[of n m ds s] by (auto simp: fuel_le_def)

lemma settles_fuel:
  assumes "settles (\<lambda>n. parser_run n ds s) r" "parser_run n ds s \<noteq> Out_of_fuel"
  shows "parser_run n ds s = r"
proof -
  from assms(1) obtain N where "\<forall>m\<ge>N. parser_run m ds s = r" by (auto simp: settles_def)
  then have "parser_run (max n N) ds s = r" by simp
  with more_fuel[OF assms(2), of "max n N"] show ?thesis by simp
qed

section \<open>The language of the parser\<close>

context token_stream
begin

text \<open>The fuel of \<^const>\<open>run_parser\<close> is enough, so that it gives the result the loop settles on.\<close>

lemma run_parser_settles:
  assumes "settles (\<lambda>n. parser_run n [] (parser_init tokens v reporter tab_size)) (Done ds s)"
  shows "run_parser tokens v reporter tab_size = Inr (\<lparr>root_definitions = ds\<rparr>, ps_reporter s)"
proof -
  have "parser_run (parser_fuel tokens) [] (parser_init tokens v reporter tab_size) \<noteq> Out_of_fuel"
    using outcome_run[OF init_ok, of reporter tab_size "parser_fuel tokens" "[]"]
    by (auto simp: outcome_def parser_fuel_def parser_init_def tc_init_def get_array_def)
  from settles_fuel[OF assms this] show ?thesis by (simp add: run_parser_def)
qed

lemma run_parser_accepts:
  assumes "spells tokens (program_symbols ds)" "list_all definition_well_formed ds"
  shows "run_parser tokens v reporter tab_size = Inr (\<lparr>root_definitions = ds\<rparr>, reporter)"
proof -
  let ?s = "parser_init tokens v reporter tab_size"
  from assms(1) obtain ts u where ts: "tokens = ts @ [u]" "spells ts (concat (map definition_symbols ds))"
    "tok_kind u = TK_end_of_file" by (auto simp: program_symbols_def spells_append spells_Sym)
  have at: "?s = at_tokens ?s tokens" by (simp add: parser_init_def tc_init_def get_array_def)
  have st: "stream ?s (ts @ [u])" using init_ok[of reporter tab_size] at ts(1) by simp
  have "settles (\<lambda>n. parser_run n [] ?s) (Done ds (at_tokens ?s [u]))"
    using run_on[OF assms(2) ts(2) st ts(3), of "[]"] at ts(1) by simp
  from run_parser_settles[OF this] show ?thesis by (simp add: parser_init_def)
qed

text \<open>Parsing without a report means that the tokens spell the tree, and conversely.\<close>

lemma run_parser_exact:
  "run_parser tokens v reporter tab_size = Inr (\<lparr>root_definitions = ds\<rparr>, reporter) \<longleftrightarrow>
     spells tokens (program_symbols ds) \<and> list_all definition_well_formed ds"
proof
  assume run: "run_parser tokens v reporter tab_size = Inr (\<lparr>root_definitions = ds\<rparr>, reporter)"
  show "spells tokens (program_symbols ds) \<and> list_all definition_well_formed ds"
  proof (rule run_parser_result[of reporter tab_size])
    fix defs rs
    assume "run_parser tokens v reporter tab_size = Inr (\<lparr>root_definitions = defs\<rparr>, reporter @ rs)"
      "rs = [] \<Longrightarrow> spells tokens (program_symbols defs) \<and> list_all definition_well_formed defs"
    with run show ?thesis by simp
  qed
qed (simp add: run_parser_accepts)

lemma tree_unique:
  assumes "spells tokens (program_symbols ds)" "list_all definition_well_formed ds"
    "spells tokens (program_symbols ds')" "list_all definition_well_formed ds'"
  shows "ds = ds'"
  using run_parser_accepts[OF assms(1,2), of "[]" 0] run_parser_accepts[OF assms(3,4), of "[]" 0] by simp

end

end
