(* ===== verification/Front_End.thy ===== *)
theory Front_End
  imports Lexer_Correct Parser_Exact
begin

text \<open>
  Lexer and parser together: the token list of any source satisfies the contract of the parser, so
  that parsing it returns without a fault.
\<close>

section \<open>The lexer provides a token stream\<close>

text \<open>The tokens of a source; \<^const>\<open>run_lexer\<close> always returns some.\<close>

definition lexed :: "source_view \<Rightarrow> report_call list \<Rightarrow> lexer_flags \<Rightarrow> u8 \<Rightarrow> token_list" where
  "lexed v reporter flags tab_size =
     (case run_lexer v reporter flags tab_size of Some (tokens, reports) \<Rightarrow> tokens | None \<Rightarrow> [])"

definition lexer_reports :: "source_view \<Rightarrow> report_call list \<Rightarrow> lexer_flags \<Rightarrow> u8 \<Rightarrow> report_call list" where
  "lexer_reports v reporter flags tab_size =
     (case run_lexer v reporter flags tab_size of Some (tokens, reports) \<Rightarrow> reports | None \<Rightarrow> [])"

lemma eof_token_ok:
  assumes "n \<le> length (get_text v)" "n < 2 ^ 24" "t = mk_token TK_end_of_file (word_of_nat n) 0"
  shows "tok_ok (get_text v) t \<and> tok_start t < 2 ^ 24"
  using assms by (simp add: tok_start_mk_token tok_ok_def tok_end_def tok_length_def)

lemma lexed_token_stream: "token_stream (lexed v reporter flags tab_size) v"
proof (cases "length (get_text v) \<le> unat source_size_max")
  case True
  show ?thesis
  proof (rule run_lexer_result[OF True, of reporter flags tab_size])
    fix ts rs and w r :: string
    let ?eof = "mk_token TK_end_of_file (word_of_nat (length w)) 0"
    assume run: "run_lexer v reporter flags tab_size = Some (ts @ [?eof], reporter @ rs)"
      and res: "lex_result v flags ts rs w r"
    from res obtain strict where tl: "tiles strict r 0 w ts" and v: "get_text v = w @ r"
      by (auto simp: lex_result_def)
    have len: "length w < 2 ^ 24" using True v source_size_max_less[of "length w"] by simp
    have "tok_ok (get_text v) t \<and> tok_start t < 2 ^ 24" if "t \<in> set ts" for t
      using tiles_tok_ok[OF tl that, of "[]"] tiles_bounds[OF tl that] len v by auto
    moreover have "tok_ok (get_text v) ?eof \<and> tok_start ?eof < 2 ^ 24"
      by (rule eof_token_ok[OF _ len refl]) (simp add: v)
    moreover have "ends_with_eof (ts @ [?eof])"
      using tiles_not_eof[OF tl] by (simp add: ends_with_eof_def list_all_iff)
    ultimately show ?thesis
      using run by unfold_locales (auto simp: lexed_def list_all_iff)
  qed
next
  case False
  then have "lexed v reporter flags tab_size = [mk_token TK_end_of_file (word_of_nat 0) 0]"
    using run_lexer_too_large[of v reporter flags tab_size] by (simp add: lexed_def)
  moreover have "tok_ok (get_text v) (mk_token TK_end_of_file (word_of_nat 0) 0) \<and>
      tok_start (mk_token TK_end_of_file (word_of_nat 0) 0) < 2 ^ 24"
    by (rule eof_token_ok[of 0]) simp_all
  ultimately show ?thesis
    by unfold_locales (simp_all add: ends_with_eof_def)
qed

interpretation lexed_stream: token_stream "lexed v reporter flags tab_size" v
  for v reporter flags tab_size
  by (rule lexed_token_stream)

section \<open>A sample program\<close>

definition program_source :: source_view where
  "program_source = \<lparr>sv_file_view = None, sv_text = Some ''f(){a-b*c;}'', sv_path = ''a.ce''\<rparr>"

definition program_tokens :: "token list" where
  "program_tokens =
     [mk_token TK_identifier 0 1, mk_token TK_l_paren 1 0, mk_token TK_r_paren 2 0,
      mk_token TK_l_brace 3 0, mk_token TK_identifier 4 1, mk_token TK_minus 5 0,
      mk_token TK_identifier 6 1, mk_token TK_star 7 0, mk_token TK_identifier 8 1,
      mk_token TK_semicolon 9 0, mk_token TK_r_brace 10 0, mk_token TK_end_of_file 11 0]"

definition program_tree :: ast_definition where
  "program_tree =
     \<lparr>fn_offset = 0, fn_access_modifier = access_none, fn_name = \<lparr>name_offset = 0, name_length = 1\<rparr>,
      fn_parameters = [], fn_outputs = [],
      fn_statements =
        [AstBinaryExpr 4 op_sub (AstIdentExpr 4 1)
           (AstBinaryExpr 6 op_mul (AstIdentExpr 6 1) (AstIdentExpr 8 1))]\<rparr>"

lemma program_text: "get_text program_source = ''f(){a-b*c;}''"
  by code_simp

text \<open>The lexer at a word, and at a character that is a token of its own, of a source in ASCII.\<close>

lemma lex_word_at:
  assumes "length (get_text v) \<le> unat source_size_max" "list_all is_ascii (get_text v)"
    "drop n (get_text v) = c # r" "c \<in> set ''abcdefghijklmnopqrstuvwxyz''"
    and w: "w = c # takeWhile is_ascii_identifier_char r"
  shows "handle_source_loop (lexer_at v flags n ts) = handle_source_loop (lexer_at v flags (n + length w)
    (ts @ [case keyword_kind w of Some k \<Rightarrow> mk_token k (word_of_nat n) 0
           | None \<Rightarrow> mk_token TK_identifier (word_of_nat n) (word_of_nat (length w))]))"
proof -
  let ?s = "lexer_at v flags n ts"
  have wf: "lx_wf ?s" by (rule lexer_at_wf[OF assms(1)])
  have rest: "lx_rest ?s = c # r" using assms(3) by simp
  have "list_all is_ascii (drop n (get_text v))" using assms(2) by (auto simp: list_all_iff dest: in_set_dropD)
  then have ascii: "list_all is_ascii r" using assms(3) by simp
  have "length (get_text v) - n = Suc (length r)" using arg_cong[OF assms(3), of length] by simp
  moreover have "length w \<le> Suc (length r)" unfolding w by (simp add: length_takeWhile_le)
  ultimately have fits: "n \<le> length (get_text v)" "n + length w \<le> length (get_text v)" by simp_all
  have "handle_source_loop ?s = handle_source_loop (handle_next_character c ?s)"
    using assms(4) by (intro handle_source_loop_step(1)[OF rest]) auto
  also have "handle_next_character c ?s = emit_word (word_of_nat n) w (lexer_at v flags (n + length w) ts)"
    using handle_word_ascii[OF wf rest assms(4) ascii] fits w by simp
  finally show ?thesis using fits by (simp add: emit_word_def split: option.splits)
qed

lemma lex_char_at:
  assumes "drop n (get_text v) = c # r" "c \<noteq> nul"
    "handle_next_character c (lexer_at v flags n ts) = lexer_at v flags (n + 1) us"
  shows "handle_source_loop (lexer_at v flags n ts) = handle_source_loop (lexer_at v flags (n + 1) us)"
  using assms by (simp add: handle_source_loop_step(1)[where c = c])

lemma lex_bracket_at:
  assumes "drop n (get_text v) = c # r" "(c, k) \<in> set (zip ''(){};'' [TK_l_paren, TK_r_paren, TK_l_brace, TK_r_brace, TK_semicolon])"
  shows "handle_source_loop (lexer_at v flags n ts) =
    handle_source_loop (lexer_at v flags (n + 1) (ts @ [mk_token k (word_of_nat n) 0]))"
proof (rule lex_char_at[OF assms(1)])
  have n: "n \<le> length (get_text v)" using assms(1) by (cases "n \<le> length (get_text v)") auto
  from assms(2) consider "c = CHR ''(''" "k = TK_l_paren" | "c = CHR '')''" "k = TK_r_paren"
    | "c = CHR ''{''" "k = TK_l_brace" | "c = CHR ''}''" "k = TK_r_brace" | "c = CHR '';''" "k = TK_semicolon" by auto
  then show "handle_next_character c (lexer_at v flags n ts) = lexer_at v flags (n + 1) (ts @ [mk_token k (word_of_nat n) 0])"
    using assms(1) n by cases (simp_all add: handle_next_character_def on_one_char_token_def lx_moves)
qed (use assms(2) in auto)

lemma program_ascii: "list_all is_ascii (get_text program_source)"
  unfolding program_text by code_simp

lemma program_lexed: "run_lexer program_source [] flags 4 = Some (program_tokens, [])"
proof -
  have small: "length (get_text program_source) \<le> unat source_size_max" by (simp add: program_text unat_source_size_max)
  have kw: "keyword_kind [c] = None" for c by (simp add: keyword_kind_def keyword_table_def)
  have word: "handle_source_loop (lexer_at program_source flags n ts) =
      handle_source_loop (lexer_at program_source flags (n + 1) (ts @ [mk_token TK_identifier (word_of_nat n) 1]))"
    if "drop n (get_text program_source) = c # d # r" "c \<in> set ''abcf''" "d \<in> set ''(-*;''" for n c d r ts
  proof -
    have "c \<in> set ''abcdefghijklmnopqrstuvwxyz''" using that(2) by auto
    moreover have "\<not> is_ascii_identifier_char d" using that(3) by (auto simp: is_ascii_identifier_char_def less_eq_char_def)
    ultimately show ?thesis using lex_word_at[OF small program_ascii that(1), of "[c]" flags ts] by (simp add: kw)
  qed
  have operators:
    "handle_source_loop (lexer_at program_source flags 5 ts) = handle_source_loop (lexer_at program_source flags 6 (ts @ [mk_token TK_minus 5 0]))"
    "handle_source_loop (lexer_at program_source flags 7 ts) = handle_source_loop (lexer_at program_source flags 8 (ts @ [mk_token TK_star 7 0]))"
    for ts
    by (simp_all add: handle_source_loop_step(1) handle_next_character_def operator_defs lx_moves program_text)
  have "handle_source_loop (lexer_at program_source flags 0 []) =
      handle_source_loop (lexer_at program_source flags 11 (butlast program_tokens))"
    by (simp add: word lex_bracket_at operators program_text program_tokens_def drop_Cons' del: One_nat_def)
  also have "\<dots> = lexer_at program_source flags 11 (butlast program_tokens)"
    by (rule handle_source_loop_step(2)) (simp add: program_text)
  also have "11 = length (get_text program_source)" by (simp add: program_text)
  finally show ?thesis
    by (subst run_lexer_at[OF _ small]) (simp_all add: program_text program_tokens_def)
qed

lemma program_parsed:
  "run_parser program_tokens program_source [] 4 = Inr (\<lparr>root_definitions = [program_tree]\<rparr>, [])"
  by code_simp

lemma program_is_lexed: "lexed program_source [] flags 4 = program_tokens"
  by (simp add: lexed_def program_lexed)

text \<open>The parser at the start of the sample, and at its first operator.\<close>

definition program_start :: parser where
  "program_start = parser_init program_tokens program_source [] 4"

definition program_minus :: parser where
  "program_minus = program_start\<lparr>ps_cursor := drop 5 program_tokens\<rparr>"

lemma program_start_cursor [simp]: "ps_cursor program_start = program_tokens"
  by (simp add: program_start_def parser_init_def tc_init_def get_array_def)

lemma program_start_ok: "ps_ok program_start"
  using lexed_stream.init_ok[of program_source "[]" flags 4 "[]" 4]
  by (simp add: program_start_def program_is_lexed)

lemma program_suffix_ok:
  assumes "n < length program_tokens"
  shows "ps_ok (program_start\<lparr>ps_cursor := drop n program_tokens\<rparr>)"
proof (rule stream_suffix)
  have "program_start = program_start\<lparr>ps_cursor := take n program_tokens @ drop n program_tokens\<rparr>"
    by (simp add: program_start_def parser_init_def tc_init_def get_array_def)
  then show "ps_ok (program_start\<lparr>ps_cursor := take n program_tokens @ drop n program_tokens\<rparr>)"
    using program_start_ok by metis
qed (use assms in simp)

lemma program_minus_ok: "ps_ok program_minus"
  unfolding program_minus_def by (rule program_suffix_ok) (simp add: program_tokens_def)

section \<open>Source to tree\<close>

text \<open>C5. For every source, whatever its bytes, the parser returns on the token list of the lexer: it
  neither loops, nor reads past the end of the tokens, nor fails an assertion, and each error it reports
  has the arguments its message needs.\<close>
theorem parse_source_returns:
  "\<exists>root reports. run_parser (lexed v reporter flags tab_size) v reporter' tab_size' = Inr (root, reporter' @ reports) \<and>
     list_all report_valid reports"
  by (rule lexed_stream.run_parser_result[of v reporter flags tab_size reporter' tab_size']) blast

text \<open>C1. The parser accepts a source without a report exactly when its tokens spell a well-formed tree,
  and the tree it returns is that one: printed, it gives the tokens back with their offsets and lengths,
  every operator has the operands that precedence and associativity give it, and every node starts at its
  first token.\<close>
theorem parse_source_exact:
  "run_parser (lexed v reporter flags tab_size) v reporter' tab_size' = Inr (\<lparr>root_definitions = ds\<rparr>, reporter') \<longleftrightarrow>
     spells (lexed v reporter flags tab_size) (program_symbols ds) \<and> list_all definition_well_formed ds"
  by (rule lexed_stream.run_parser_exact)

end
