(* ===== verification/Type_Checker.thy ===== *)
theory Type_Checker
  imports Symbol_Table Front_End
begin

text \<open>
  \<open>src/cero/sema/tir_tree.hh\<close>, \<open>tir_tree.cc\<close>, \<open>type_checker.cc\<close> and \<open>semantic_analyzer.cc\<close>: the typed
  intermediate representation, the type checker, which so far enters scopes, looks names up and
  makes one symbol for each function, and the semantic analyzer, which does nothing yet.

  \<open>TypeChecker\<close> derives from the class template \<open>AstVisitor\<close> without naming its argument, as \<open>Evaluator\<close>
  does, which the language does not allow. The visits that it overrides return nothing, so that the
  argument can only be \<open>void\<close>: what is modelled is the class with \<open>AstVisitor<void>\<close> as its base.
\<close>

section \<open>Typed intermediate representation\<close>

datatype tir_node_kind = Tir_function_kind

record tir_node =
  tir_kind :: tir_node_kind
  tir_offset :: source_size

definition tir_node_init :: "tir_node_kind \<Rightarrow> source_size \<Rightarrow> tir_node" where
  "tir_node_init kind offset = \<lparr>tir_kind = kind, tir_offset = offset AND 0xffffff\<rparr>"

type_synonym tir_symbol = tir_node

record tir_root =
  tir_symbols :: "tir_symbol list"

definition tir_function :: "source_size \<Rightarrow> tir_symbol" where
  "tir_function offset = tir_node_init Tir_function_kind offset"

definition tir_init :: tir_root where
  "tir_init = \<lparr>tir_symbols = []\<rparr>"

definition tir_get_root :: "tir_root \<Rightarrow> tir_root" where
  "tir_get_root t = t"

section \<open>The type checker\<close>

record type_checker =
  ck_tir :: tir_root
  ck_sym_table :: symbol_table
  ck_source :: source_view
  ck_source_text :: string
  ck_reporter :: "report_call list"
  ck_tab_size :: u8

definition type_checker_init :: "source_view \<Rightarrow> report_call list \<Rightarrow> u8 \<Rightarrow> type_checker" where
  "type_checker_init v reporter tab_size =
     \<lparr>ck_tir = tir_init, ck_sym_table = [], ck_source = v, ck_source_text = get_text v, ck_reporter = reporter, ck_tab_size = tab_size\<rparr>"

text \<open>A visit changes the state or leaves the program with a fault.\<close>

type_synonym check = "type_checker \<Rightarrow> fault + type_checker"

definition check_then :: "check \<Rightarrow> check \<Rightarrow> check" where
  "check_then f g s = (case f s of Inl e \<Rightarrow> Inl e | Inr s' \<Rightarrow> g s')"

fun check_each :: "('a \<Rightarrow> check) \<Rightarrow> 'a list \<Rightarrow> check" where
  "check_each f [] = Inr"
| "check_each f (x # xs) = check_then (f x) (check_each f xs)"

definition put_name :: "ast_name \<Rightarrow> symbol_kind \<Rightarrow> check" where
  "put_name name kind s =
     (case ast_name_get name (ck_source_text s) of
        None \<Rightarrow> Inl Out_of_range
      | Some text \<Rightarrow>
          (case symbol_table_put text kind (ck_sym_table s) of
             Inl e \<Rightarrow> Inl e
           | Inr t \<Rightarrow> Inr (s\<lparr>ck_sym_table := t\<rparr>)))"

definition check_function_parameter :: "ast_function_parameter \<Rightarrow> check" where
  "check_function_parameter param = put_name (param_name param) symbol_parameter"

definition check_function_output :: "ast_function_output \<Rightarrow> check" where
  "check_function_output output = put_name (output_name output) symbol_output"

text \<open>The symbol that is looked up is not used.\<close>

definition check_ident_expr :: "(string \<Rightarrow> u64) \<Rightarrow> source_size \<Rightarrow> source_size \<Rightarrow> check" where
  "check_ident_expr hash offset len s =
     (case ident_expr_get offset len (ck_source_text s) of
        None \<Rightarrow> Inl Out_of_range
      | Some text \<Rightarrow> (let found = symbol_table_find hash (ck_sym_table s) text in Inr s))"

text \<open>A statement, by its kind: the visits of the other expressions are empty.\<close>

definition check_expression :: "(string \<Rightarrow> u64) \<Rightarrow> ast_expression \<Rightarrow> check" where
  "check_expression hash e =
     (case e of AstIdentExpr offset len \<Rightarrow> check_ident_expr hash offset len | _ \<Rightarrow> Inr)"

definition check_function_definition :: "(string \<Rightarrow> u64) \<Rightarrow> ast_function_definition \<Rightarrow> check" where
  "check_function_definition hash fn_def =
     (let fn = tir_function (fn_offset fn_def)
      in check_then (\<lambda>s. Inr (s\<lparr>ck_sym_table := push_scope (ck_sym_table s)\<rparr>))
           (check_then (check_each check_function_parameter (fn_parameters fn_def))
             (check_then (check_each check_function_output (fn_outputs fn_def))
               (check_then (check_each (check_expression hash) (fn_statements fn_def))
                 (check_then (\<lambda>s. Inr (s\<lparr>ck_tir := \<lparr>tir_symbols = tir_symbols (ck_tir s) @ [fn]\<rparr>\<rparr>))
                   (\<lambda>s. case pop_scope (ck_sym_table s) of Inl e \<Rightarrow> Inl e | Inr t \<Rightarrow> Inr (s\<lparr>ck_sym_table := t\<rparr>)))))))"

text \<open>The virtual functions of the visitor, of an \<open>AstVisitor<void>\<close>.\<close>

definition type_checker_visitor :: "(string \<Rightarrow> u64) \<Rightarrow> check ast_visitor" where
  "type_checker_visitor hash =
     \<lparr>visit_function_definition = (\<lambda>n. case n of Function_definition_node d \<Rightarrow> check_function_definition hash d | _ \<Rightarrow> Inr),
      visit_function_parameter = (\<lambda>n. case n of Function_parameter_node p \<Rightarrow> check_function_parameter p | _ \<Rightarrow> Inr),
      visit_function_output = (\<lambda>n. case n of Function_output_node out \<Rightarrow> check_function_output out | _ \<Rightarrow> Inr),
      visit_ident_expr = (\<lambda>n. case n of Expression_node (AstIdentExpr offset len) \<Rightarrow> check_ident_expr hash offset len | _ \<Rightarrow> Inr),
      visit_literal_expr = (\<lambda>n. Inr), visit_block_expr = (\<lambda>n. Inr), visit_return_expr = (\<lambda>n. Inr),
      visit_unary_expr = (\<lambda>n. Inr), visit_binary_expr = (\<lambda>n. Inr), visit_call_expr = (\<lambda>n. Inr)\<rparr>"

definition type_checker_run :: "(string \<Rightarrow> u64) \<Rightarrow> ast_root \<Rightarrow> check" where
  "type_checker_run hash ast =
     check_each (\<lambda>def. visit (type_checker_visitor hash) (Function_definition_node def)) (root_definitions (get_root ast))"

definition run_type_checker ::
    "(string \<Rightarrow> u64) \<Rightarrow> ast_root \<Rightarrow> source_view \<Rightarrow> report_call list \<Rightarrow> u8 \<Rightarrow> fault + tir_root \<times> report_call list" where
  "run_type_checker hash ast v reporter tab_size =
     (case type_checker_run hash ast (type_checker_init v reporter tab_size) of
        Inl e \<Rightarrow> Inl e
      | Inr s \<Rightarrow> Inr (ck_tir s, ck_reporter s))"

text \<open>Statements are visited by their kind, as \<^const>\<open>check_expression\<close> says.\<close>

lemma visit_expression: "visit (type_checker_visitor hash) (Expression_node e) = check_expression hash e"
  by (cases e) (simp_all add: visit_def type_checker_visitor_def check_expression_def)

section \<open>Semantic analysis\<close>

text \<open>The graph is empty, and the analyzer neither reads the tree nor reports.\<close>

definition run_semantic_analyzer :: "ast_root \<Rightarrow> source_view \<Rightarrow> report_call list \<Rightarrow> u8 \<Rightarrow> unit \<times> report_call list" where
  "run_semantic_analyzer ast v reporter tab_size = ((), reporter)"

section \<open>Names within the source\<close>

definition offset_ok :: "string \<Rightarrow> source_size \<Rightarrow> bool" where
  "offset_ok text off \<longleftrightarrow> unat off \<le> length text"

definition expression_in_text :: "string \<Rightarrow> ast_expression \<Rightarrow> bool" where
  "expression_in_text text e \<longleftrightarrow> (case e of AstIdentExpr off len \<Rightarrow> offset_ok text off | _ \<Rightarrow> True)"

definition definition_in_text :: "string \<Rightarrow> ast_definition \<Rightarrow> bool" where
  "definition_in_text text d \<longleftrightarrow>
     list_all (\<lambda>p. offset_ok text (name_offset (param_name p))) (fn_parameters d) \<and>
     list_all (\<lambda>out. offset_ok text (name_offset (output_name out))) (fn_outputs d) \<and>
     list_all (expression_in_text text) (fn_statements d)"

lemma put_name_ok:
  "offset_ok (ck_source_text s) (name_offset n) \<Longrightarrow> ck_sym_table s \<noteq> [] \<Longrightarrow> put_name n kind s = Inr s"
  by (simp add: put_name_def ast_name_get_def offset_ok_def substr_def symbol_table_put_def)

lemma check_expression_ok: "expression_in_text (ck_source_text s) e \<Longrightarrow> check_expression hash e s = Inr s"
  by (cases e) (simp_all add: check_expression_def check_ident_expr_def expression_in_text_def offset_ok_def
      ident_expr_get_def substr_def)

lemma check_each_same: "(\<And>x. x \<in> set xs \<Longrightarrow> f x s = Inr s) \<Longrightarrow> check_each f xs s = Inr s"
  by (induction xs) (simp_all add: check_then_def)

lemma check_function_definition_ok:
  assumes "definition_in_text (ck_source_text s) d"
  shows "check_function_definition hash d s =
    Inr (s\<lparr>ck_tir := \<lparr>tir_symbols = tir_symbols (ck_tir s) @ [tir_function (fn_offset d)]\<rparr>\<rparr>)"
proof -
  let ?s = "s\<lparr>ck_sym_table := push_scope (ck_sym_table s)\<rparr>"
  have "check_each check_function_parameter (fn_parameters d) ?s = Inr ?s"
    using assms by (intro check_each_same)
      (auto simp: check_function_parameter_def definition_in_text_def list_all_iff push_scope_def intro!: put_name_ok)
  moreover have "check_each check_function_output (fn_outputs d) ?s = Inr ?s"
    using assms by (intro check_each_same)
      (auto simp: check_function_output_def definition_in_text_def list_all_iff push_scope_def intro!: put_name_ok)
  moreover have "check_each (check_expression hash) (fn_statements d) ?s = Inr ?s"
    using assms by (intro check_each_same check_expression_ok) (auto simp: definition_in_text_def list_all_iff)
  ultimately show ?thesis
    by (simp add: check_function_definition_def check_then_def push_scope_def pop_scope_def)
qed

lemma type_checker_run_ok:
  assumes "list_all (definition_in_text (ck_source_text s)) ds"
  shows "type_checker_run hash \<lparr>root_definitions = ds\<rparr> s =
    Inr (s\<lparr>ck_tir := \<lparr>tir_symbols = tir_symbols (ck_tir s) @ map (\<lambda>d. tir_function (fn_offset d)) ds\<rparr>\<rparr>)"
  using assms
proof (induction ds arbitrary: s)
  case (Cons d ds)
  then show ?case
    by (simp add: type_checker_run_def get_root_def check_then_def visit_def type_checker_visitor_def
        check_function_definition_ok)
qed (simp add: type_checker_run_def get_root_def)

text \<open>The symbols with a place, in an expression or a list of symbols.\<close>

lemma spelled_place:
  assumes "spells ts xs" "Sym k (Some (off, len)) \<in> set xs"
  shows "\<exists>t \<in> set ts. tok_offset t = off"
  using assms
proof (induction xs arbitrary: ts)
  case (Cons x xs)
  show ?case
  proof (cases x)
    case (Sym k' p)
    with Cons show ?thesis by (fastforce simp: spells_Sym)
  next
    case Double_angle
    with Cons show ?thesis by (fastforce simp: spells_Double)
  qed
qed simp

lemma comma_separated_set: "x \<in> set xs \<Longrightarrow> set x \<subseteq> set (comma_separated xs)"
  by (induction xs rule: comma_separated.induct) auto

lemma parameter_name_printed: "p \<in> set (fn_parameters d) \<Longrightarrow> name_symbol (param_name p) \<in> set (definition_symbols d)"
  using comma_separated_set[of "parameter_symbols p" "map parameter_symbols (fn_parameters d)"]
  by (auto simp: definition_symbols_def function_symbols_def parameter_symbols_def)

lemma statement_printed:
  assumes "e \<in> set (fn_statements d)"
  shows "set (expr_symbols e) \<subseteq> set (definition_symbols d)"
proof -
  have "set (expr_symbols e) \<subseteq> set (terminated e (expr_symbols e))" by (auto simp: terminated_def)
  also have "\<dots> \<subseteq> set (function_symbols d)" using assms by (auto simp: function_symbols_def)
  also have "\<dots> \<subseteq> set (definition_symbols d)" by (auto simp: definition_symbols_def)
  finally show ?thesis .
qed

lemma definition_in_text_spelled:
  assumes sp: "spells tokens (program_symbols ds)" and d: "d \<in> set ds" and wf: "definition_well_formed d"
    and toks: "\<And>t. t \<in> set tokens \<Longrightarrow> tok_ok text t"
  shows "definition_in_text text d"
proof -
  have place: "offset_ok text off" if "Sym k (Some (off, len)) \<in> set (definition_symbols d)" for k off len
  proof -
    have "Sym k (Some (off, len)) \<in> set (program_symbols ds)" using that d by (auto simp: program_symbols_def)
    from spelled_place[OF sp this] obtain t where "t \<in> set tokens" "tok_offset t = off" by blast
    with toks[of t] show ?thesis by (auto simp: offset_ok_def tok_ok_def tok_end_def tok_length_def)
  qed
  have "expression_in_text text e" if "e \<in> set (fn_statements d)" for e
    using place statement_printed[OF that] by (cases e) (auto simp: expression_in_text_def)
  moreover have "offset_ok text (name_offset (param_name p))" if "p \<in> set (fn_parameters d)" for p
    using place parameter_name_printed[OF that] by (simp add: name_symbol_def)
  moreover have "offset_ok text (name_offset (output_name out))" if "out \<in> set (fn_outputs d)" for out
    using wf that by (auto simp: definition_well_formed_def output_well_formed_def list_all_iff ast_name_empty_def offset_ok_def)
  ultimately show ?thesis by (simp add: definition_in_text_def list_all_iff)
qed

section \<open>Properties\<close>

text \<open>C14. On the tree of a source that is parsed without a report, the type checker returns, without a failed
  assertion and without reading a name outside the source; it reports nothing, and its symbols are
  the functions of the source in order.\<close>
theorem type_checker_correct:
  assumes "run_parser (lexed v reporter flags tab_size) v reporter' tab_size' = Inr (\<lparr>root_definitions = ds\<rparr>, reporter')"
  shows "run_type_checker hash \<lparr>root_definitions = ds\<rparr> v reporter'' tab_size'' =
    Inr (\<lparr>tir_symbols = map (\<lambda>d. \<lparr>tir_kind = Tir_function_kind, tir_offset = fn_offset d AND 0xffffff\<rparr>) ds\<rparr>, reporter'')"
proof -
  let ?tokens = "lexed v reporter flags tab_size"
  have sp: "spells ?tokens (program_symbols ds)" and wf: "list_all definition_well_formed ds"
    using assms lexed_stream.run_parser_exact by blast+
  have toks: "tok_ok (get_text v) t" if "t \<in> set ?tokens" for t
    using lexed_stream.texts that by (auto simp: list_all_iff)
  have "list_all (definition_in_text (get_text v)) ds"
    using definition_in_text_spelled[OF sp _ _ toks] wf by (auto simp: list_all_iff)
  then show ?thesis
    by (simp add: run_type_checker_def type_checker_init_def type_checker_run_ok tir_init_def
        tir_function_def tir_node_init_def)
qed

theorem type_checker_correct_witness:
  "run_type_checker (\<lambda>_. 0) \<lparr>root_definitions = [program_tree]\<rparr> program_source [] 4 =
     Inr (\<lparr>tir_symbols = [\<lparr>tir_kind = Tir_function_kind, tir_offset = 0\<rparr>]\<rparr>, [])"
proof -
  have "run_parser (lexed program_source [] 0 4) program_source [] 4 = Inr (\<lparr>root_definitions = [program_tree]\<rparr>, [])"
    by (simp add: program_is_lexed program_parsed)
  from type_checker_correct[OF this] show ?thesis by (simp add: program_tree_def)
qed

end
