(* ===== verification/Parser_Properties.thy ===== *)
theory Parser_Properties
  imports Front_End
begin

text \<open>
  Properties of the parts of the parser: the cursor stays in its array, the recovery loops stop
  where they should, the two precedence tables agree, and operators associate as the tables say.
\<close>

section \<open>Cursor\<close>

text \<open>C32. On an array that ends with its only end-of-file token, no operation of the token cursor
  leaves the array: \<open>next\<close>, \<open>advance\<close>, \<open>match\<close> and \<open>skip_comments\<close> return, and the cursor they leave is a
  suffix of the array that still ends with the end-of-file token.\<close>
theorem token_cursor_safe:
  assumes "ends_with_eof it"
  shows "\<exists>t a it1 m it2 x it3 it4.
    tc_peek_ahead it = Inr a \<and>
    tc_next it = Inr (t, it1) \<and> ends_with_eof it1 \<and> suffix it1 it \<and> t = hd it \<and>
    tc_match k it = Inr (m, it2) \<and> ends_with_eof it2 \<and> suffix it2 it \<and> m = (tok_kind (hd it) = k) \<and>
    tc_match_token k it = Inr (x, it3) \<and> it3 = it2 \<and>
    tc_skip_comments it = Inr it4 \<and> ends_with_eof it4 \<and> suffix it4 it"
proof -
  obtain t r where it: "it = t # r" using assms by (cases it) auto
  obtain it1 where a: "tc_advance it = Inr it1" "ends_with_eof it1" "suffix it1 it"
    using tc_advance_ok[OF assms] by blast
  obtain it4 where "tc_skip_comments it = Inr it4" "ends_with_eof it4" "suffix it4 it"
    using tc_skip_comments_ok[OF assms] by blast
  moreover have "\<exists>u. tc_peek_ahead it = Inr u"
    using assms it by (cases r) (auto simp: tc_peek_ahead_def ends_with_eof_Cons split: if_splits)
  moreover have "tc_next it = Inr (t, it1)" using a it by (simp add: tc_next_def tc_peek_def)
  moreover have "tc_match k it = Inr (tok_kind t = k, if tok_kind t = k then it1 else it)"
    using a it by (simp add: tc_match_def tc_peek_kind_def)
  moreover have "tc_match_token k it = Inr (if tok_kind t = k then Some t else None, if tok_kind t = k then it1 else it)"
    using a it by (simp add: tc_match_token_def tc_peek_def)
  ultimately show ?thesis using a assms it by auto
qed

theorem token_cursor_safe_witness:
  "\<exists>t it1. tc_next [mk_token TK_identifier 0 1, mk_token TK_end_of_file 1 0] = Inr (t, it1) \<and> ends_with_eof it1"
proof -
  have "ends_with_eof [mk_token TK_identifier 0 1, mk_token TK_end_of_file 1 0]" by code_simp
  from token_cursor_safe[OF this] show ?thesis by blast
qed

section \<open>Recovery\<close>

abbreviation stops_recovery :: "token \<Rightarrow> bool" where
  "stops_recovery t \<equiv> tok_kind t \<in> set recovery_tokens"

lemma recover_at_definition_dropWhile:
  "ends_with_eof (t # ts) \<Longrightarrow> tok_kind t \<noteq> TK_end_of_file \<Longrightarrow>
   recover_at_definition_loop (t # ts) = Inr (dropWhile (\<lambda>u. \<not> stops_recovery u) ts)"
proof (induction ts arbitrary: t)
  case (Cons u us)
  show ?case
  proof (cases "stops_recovery u")
    case False
    then have "tok_kind u \<noteq> TK_end_of_file" by (auto simp: recovery_tokens_def)
    with Cons False show ?thesis by (simp add: ends_with_eof_Cons)
  qed (use Cons in simp)
qed (simp add: ends_with_eof_Cons)

text \<open>C30. Recovery at the level of definitions drops the token where the error was found, whatever it
  is, and then everything up to the next \<open>public\<close>, \<open>private\<close>, \<open>struct\<close>, \<open>enum\<close> or end of file. A definition that
  begins at the offending token is lost.\<close>
theorem recover_at_definition_level_correct:
  assumes "ps_ok s" "ps_cursor s = t # ts" "tok_kind t \<noteq> TK_end_of_file"
  shows "recover_at_definition_level s =
    Done () (s\<lparr>ps_cursor := dropWhile (\<lambda>u. tok_kind u \<notin> set recovery_tokens) ts\<rparr>)"
  using assms recover_at_definition_dropWhile[of t ts]
  by (simp add: recover_at_definition_level_def ps_ok_def)

theorem recover_at_definition_level_witness:
  "recover_at_definition_level program_start = Done () (program_start\<lparr>ps_cursor := [mk_token TK_end_of_file 11 0]\<rparr>)"
proof -
  have "recover_at_definition_level program_start = Done () (program_start\<lparr>ps_cursor :=
      dropWhile (\<lambda>u. tok_kind u \<notin> set recovery_tokens) (tl program_tokens)\<rparr>)"
    by (rule recover_at_definition_level_correct[OF program_start_ok, of "hd program_tokens"])
      (simp_all add: program_tokens_def)
  also have "dropWhile (\<lambda>u. tok_kind u \<notin> set recovery_tokens) (tl program_tokens) = [mk_token TK_end_of_file 11 0]"
    by (simp add: program_tokens_def recovery_tokens_def)
  finally show ?thesis .
qed

text \<open>C31. Recovery at the level of statements goes to the next semicolon, closing brace or end of file:
  behind a semicolon and at a brace the block goes on, at the end of the file it ends.\<close>
theorem recover_at_statement_level_correct:
  assumes "ps_ok s"
  shows "\<exists>u us. dropWhile (\<lambda>t. tok_kind t \<notin> {TK_end_of_file, TK_semicolon, TK_r_brace}) (ps_cursor s) = u # us \<and>
    recover_at_statement_level s =
      (if tok_kind u = TK_end_of_file then Done True (s\<lparr>ps_cursor := [u]\<rparr>)
       else if tok_kind u = TK_semicolon then Done False (s\<lparr>ps_cursor := us\<rparr>)
       else Done False (s\<lparr>ps_cursor := u # us\<rparr>))"
proof -
  have "\<exists>u us. dropWhile (\<lambda>t. tok_kind t \<notin> {TK_end_of_file, TK_semicolon, TK_r_brace}) ts = u # us \<and>
      recover_at_statement_loop ts = Inr (if tok_kind u = TK_end_of_file then (True, [u])
        else if tok_kind u = TK_semicolon then (False, us) else (False, u # us))" if "ends_with_eof ts" for ts
    using that by (induction ts) (auto simp: ends_with_eof_Cons split: if_splits)
  from this[of "ps_cursor s"] assms obtain u us where
    "dropWhile (\<lambda>t. tok_kind t \<notin> {TK_end_of_file, TK_semicolon, TK_r_brace}) (ps_cursor s) = u # us"
    "recover_at_statement_loop (ps_cursor s) = Inr (if tok_kind u = TK_end_of_file then (True, [u])
        else if tok_kind u = TK_semicolon then (False, us) else (False, u # us))"
    by (auto simp only: ps_ok_def)
  then show ?thesis
    by (intro exI[of _ u] exI[of _ us]) (simp add: recover_at_statement_level_def p_move_def)
qed

theorem recover_at_statement_level_witness:
  "recover_at_statement_level program_start =
     Done False (program_start\<lparr>ps_cursor := [mk_token TK_r_brace 10 0, mk_token TK_end_of_file 11 0]\<rparr>)"
  using recover_at_statement_level_correct[OF program_start_ok]
  by (simp add: program_start_cursor program_tokens_def)

section \<open>Precedence\<close>

text \<open>C26. The precedence by which an operator is found behind an expression is the one by which its right
  operand is parsed, for every operator token: the two tables of the parser agree.\<close>
theorem precedence_tables_agree:
  assumes "ps_ok s" "ps_cursor s = t # r" "lookup_tail_parse_rule t s = Done rule s"
    "rule_fn rule = Some (On_binary_operator op)"
  shows "rule_precedence rule = lookup_precedence_for_associativity op"
proof -
  have rule: "next_rule s = rule" using assms(3) lookup_tail_next_rule[OF assms(1,2)] by simp
  from assms(1,2) show ?thesis
    by (cases rule: next_rule_cases) (use rule assms(4) in \<open>auto simp: lookup_precedence_for_associativity_def\<close>)
qed

theorem precedence_tables_agree_witness:
  "\<exists>rule. lookup_tail_parse_rule (mk_token TK_minus 5 0) program_minus = Done rule program_minus \<and>
     rule_fn rule = Some (On_binary_operator op_sub) \<and>
     rule_precedence rule = lookup_precedence_for_associativity op_sub"
proof -
  have c: "ps_cursor program_minus = mk_token TK_minus 5 0 # drop 6 program_tokens"
    by (simp add: program_minus_def program_tokens_def)
  have fn: "rule_fn (next_rule program_minus) = Some (On_binary_operator op_sub)"
    by (simp add: next_rule_def c lookup_tail_parse_rule_def tail_parse_table_def)
  show ?thesis
    using precedence_tables_agree[OF program_minus_ok c lookup_tail_next_rule[OF program_minus_ok c] fn]
      lookup_tail_next_rule[OF program_minus_ok c] fn by blast
qed

definition two_operators :: "binary_operator \<Rightarrow> binary_operator \<Rightarrow> ast_expression \<Rightarrow> ast_expression \<Rightarrow> ast_expression \<Rightarrow> ast_expression" where
  "two_operators op1 op2 a b c =
     (if lookup_precedence_for_associativity op2 \<le> lookup_precedence_for_associativity op1
      then AstBinaryExpr (token_offset a) op2 (AstBinaryExpr (token_offset a) op1 a b) c
      else AstBinaryExpr (token_offset a) op1 a (AstBinaryExpr (token_offset b) op2 b c))"

lemma two_operators_symbols:
  "expr_symbols (two_operators op1 op2 a b c) =
     expr_symbols a @ binary_symbol op1 # expr_symbols b @ binary_symbol op2 # expr_symbols c"
  by (simp add: two_operators_def)

lemma precedence_positive: "Prec_statement < lookup_precedence_for_associativity op"
  using precedence_least(1)[of "lookup_precedence_for_associativity op"]
  by (metis lookup_precedence_not_statement order_le_less)

text \<open>C9. Two operators between identifiers, followed by a semicolon: the expression is grouped to the left
  unless the second operator binds tighter. So operators of one precedence, assignments included,
  associate to the left.\<close>
theorem operators_associate:
  assumes toks: "spells ts (expr_symbols (AstIdentExpr o1 l1) @ binary_symbol op1 # expr_symbols (AstIdentExpr o2 l2) @
      binary_symbol op2 # expr_symbols (AstIdentExpr o3 l3))"
    and st: "ps_ok (s\<lparr>ps_cursor := ts @ t # c\<rparr>)" and semi: "tok_kind t = TK_semicolon"
  shows "\<exists>N. \<forall>n\<ge>N. parse_expression n Prec_statement (s\<lparr>ps_cursor := ts @ t # c\<rparr>) =
    Done (if lookup_precedence_for_associativity op2 \<le> lookup_precedence_for_associativity op1
          then AstBinaryExpr o1 op2 (AstBinaryExpr o1 op1 (AstIdentExpr o1 l1) (AstIdentExpr o2 l2)) (AstIdentExpr o3 l3)
          else AstBinaryExpr o1 op1 (AstIdentExpr o1 l1) (AstBinaryExpr o2 op2 (AstIdentExpr o2 l2) (AstIdentExpr o3 l3)))
      (s\<lparr>ps_cursor := t # c\<rparr>)"
proof -
  let ?e = "two_operators op1 op2 (AstIdentExpr o1 l1) (AstIdentExpr o2 l2) (AstIdentExpr o3 l3)"
  have sp: "spells ts (expr_symbols ?e)" using toks by (simp add: two_operators_symbols)
  have wf: "well_formed Prec_statement ?e"
    by (auto simp: two_operators_def Let_def may_follow_def precedence_positive not_le)
  have me: "may_end s ?e (t # c)"
    using semi by (auto simp: may_end_def may_follow_def next_rule_none two_operators_def)
  have "settles (\<lambda>n. parse_expression n Prec_statement (at_tokens s (ts @ t # c))) (Done ?e (at_tokens s (t # c)))"
    using parses_all semi by (intro parses_stop[OF _ wf sp st _ me]) (auto simp: next_rule_none)
  then show ?thesis unfolding settles_def two_operators_def token_offset.simps .
qed

theorem operators_associate_witness:
  "\<exists>N. \<forall>n\<ge>N. parse_expression n Prec_statement (program_start\<lparr>ps_cursor := drop 4 program_tokens\<rparr>) =
     Done (AstBinaryExpr 4 op_sub (AstIdentExpr 4 1) (AstBinaryExpr 6 op_mul (AstIdentExpr 6 1) (AstIdentExpr 8 1)))
       (program_start\<lparr>ps_cursor := drop 9 program_tokens\<rparr>)"
proof -
  let ?ts = "take 5 (drop 4 program_tokens)" and ?t = "mk_token TK_semicolon 9 0" and ?c = "drop 10 program_tokens"
  have split: "drop 4 program_tokens = ?ts @ ?t # ?c" "drop 9 program_tokens = ?t # ?c"
    by (simp_all add: program_tokens_def)
  have "spells ?ts (expr_symbols (AstIdentExpr 4 1) @ binary_symbol op_sub # expr_symbols (AstIdentExpr 6 1) @
      binary_symbol op_mul # expr_symbols (AstIdentExpr 8 1))" by code_simp
  moreover have "ps_ok (program_start\<lparr>ps_cursor := ?ts @ ?t # ?c\<rparr>)"
    using program_suffix_ok[of 4] split(1) by (simp add: program_tokens_def)
  moreover have "tok_kind ?t = TK_semicolon" by simp
  moreover have "\<not> lookup_precedence_for_associativity op_mul \<le> lookup_precedence_for_associativity op_sub"
    by code_simp
  ultimately show ?thesis
    using operators_associate[of ?ts 4 1 op_sub 6 1 op_mul 8 1 ?t ?c program_start] split by simp
qed

end
