(* ===== verification/Parser_Recovery.thy ===== *)
theory Parser_Recovery
  imports Parser_Properties
begin

text \<open>
  What becomes of a program with errors between its definitions and between the statements of its
  functions. The tokens are cut into chunks: well-formed parts, and stretches that start with a token
  where no definition, or no statement, can start, and that reach up to where recovery stops: in front
  of the next \<open>public\<close>, \<open>private\<close>, \<open>struct\<close> or \<open>enum\<close>, or behind the next semicolon. The parser reports each
  such stretch once, at its first token, and resumes behind it; a function without an access modifier
  behind an error is inside the stretch, and is lost.
\<close>

section \<open>One error\<close>

definition error_at :: "source_view \<Rightarrow> u8 \<Rightarrow> message \<times> token \<Rightarrow> report_call \<Rightarrow> bool" where
  "error_at v tab_size e r \<longleftrightarrow> rep_message r = fst e \<and> locate_in (snd e) v tab_size = Some (rep_location r)"

lemma report_and_throw_on:
  assumes "stream s (t # ts)"
  obtains r where "error_at (ps_source s) (ps_tab_size s) (m, t) r"
    "(report_and_throw m (at_tokens s (t # ts)) :: 'a presult) = Thrown (at_tokens (s\<lparr>ps_reporter := ps_reporter s @ [r]\<rparr>) (t # ts))"
proof -
  have t: "tok_ok (get_text (ps_source s)) t" using assms by (simp add: ps_ok_def)
  obtain l where l: "locate_in t (ps_source s) (ps_tab_size s) = Some l" by (simp add: locate_in_def locate_result)
  obtain x where x: "token_get_text t (ps_source s) = Inr x" using tok_ok_get_text[OF t] by blast
  let ?r = "\<lparr>rep_location = l, rep_message = m, rep_args = [Arg_formatted (get_token_message_format (tok_kind t)) x]\<rparr>"
  have "error_at (ps_source s) (ps_tab_size s) (m, t) ?r" using l by (simp add: error_at_def)
  with l x that[of ?r] show thesis by (simp add: at_ops report_and_throw_def report_expected_def parser_report_def)
qed

section \<open>Statements\<close>

text \<open>A block: statements, and stretches up to a semicolon where no statement starts.\<close>

type_synonym chunk = "token list + ast_expression"

abbreviation stops_statement :: "token \<Rightarrow> bool" where
  "stops_statement t \<equiv> tok_kind t \<in> {TK_end_of_file, TK_semicolon, TK_r_brace}"

definition no_statement :: "token list \<Rightarrow> bool" where
  "no_statement junk \<longleftrightarrow>
     junk \<noteq> [] \<and> lookup_head_parse_fn (tok_kind (hd junk)) = None \<and>
     list_all (\<lambda>t. \<not> stops_statement t) (butlast junk) \<and> tok_kind (last junk) = TK_semicolon"

inductive cut_block :: "token list \<Rightarrow> chunk list \<Rightarrow> bool" where
  Block_end: "tok_kind t = TK_r_brace \<Longrightarrow> cut_block [t] []"
| Block_statement: "spells us (terminated e (expr_symbols e)) \<Longrightarrow> statement_well_formed e \<Longrightarrow> cut_block vs cs \<Longrightarrow>
    cut_block (us @ vs) (Inr e # cs)"
| Block_junk: "no_statement junk \<Longrightarrow> cut_block vs cs \<Longrightarrow> cut_block (junk @ vs) (Inl junk # cs)"

definition chunk_items :: "chunk list \<Rightarrow> ast_expression list" where
  "chunk_items cs = concat (map (\<lambda>c. case c of Inl junk \<Rightarrow> [] | Inr e \<Rightarrow> [e]) cs)"

definition chunk_errors :: "chunk list \<Rightarrow> (message \<times> token) list" where
  "chunk_errors cs = concat (map (\<lambda>c. case c of Inl junk \<Rightarrow> [(expect_expression, hd junk)] | Inr e \<Rightarrow> []) cs)"

lemma chunk_simps [simp]:
  "chunk_items [] = []" "chunk_items (Inl junk # cs) = chunk_items cs" "chunk_items (Inr e # cs) = e # chunk_items cs"
  "chunk_errors [] = []" "chunk_errors (Inl junk # cs) = (expect_expression, hd junk) # chunk_errors cs"
  "chunk_errors (Inr e # cs) = chunk_errors cs"
  by (simp_all add: chunk_items_def chunk_errors_def)

lemma recovery_to_semicolon:
  "list_all (\<lambda>t. \<not> stops_statement t) us \<Longrightarrow> tok_kind t = TK_semicolon \<Longrightarrow>
   recover_at_statement_loop (us @ t # vs) = Inr (False, vs)"
  by (induction us) auto

lemma recovery_skips_statement:
  assumes "no_statement junk"
  shows "recover_at_statement_level (at_tokens s (junk @ vs)) = Done False (at_tokens s vs)"
proof -
  have "junk = butlast junk @ [last junk]" using assms by (simp add: no_statement_def)
  then have eq: "junk @ vs = butlast junk @ last junk # vs" by (metis append.assoc append_Cons append_Nil)
  have "recover_at_statement_loop (junk @ vs) = Inr (False, vs)"
    unfolding eq using assms by (intro recovery_to_semicolon) (simp_all add: no_statement_def)
  then show ?thesis by (simp add: recover_at_statement_level_def p_move_def)
qed

lemma statement_throws:
  assumes "stream s (t # ts)" "lookup_head_parse_fn (tok_kind t) = None"
  obtains r where "error_at (ps_source s) (ps_tab_size s) (expect_expression, t) r"
    "settles (\<lambda>n. parse_statement n (at_tokens s (t # ts))) (Thrown (at_tokens (s\<lparr>ps_reporter := ps_reporter s @ [r]\<rparr>) (t # ts)))"
proof (rule report_and_throw_on[OF assms(1), of expect_expression])
  fix r
  assume r: "error_at (ps_source s) (ps_tab_size s) (expect_expression, t) r"
    and throw: "(report_and_throw expect_expression (at_tokens s (t # ts)) :: ast_expression presult) =
      Thrown (at_tokens (s\<lparr>ps_reporter := ps_reporter s @ [r]\<rparr>) (t # ts))"
  have "tok_kind t \<noteq> TK_l_brace" using assms(2) by (auto simp: lookup_head_parse_fn_def head_parse_table_def)
  then have eq: "parse_statement (Suc (Suc n)) (at_tokens s (t # ts)) =
      Thrown (at_tokens (s\<lparr>ps_reporter := ps_reporter s @ [r]\<rparr>) (t # ts))" for n
    using assms(2) throw by (simp add: lookup_statement_rule_def at_ops)
  have "settles (\<lambda>n. parse_statement (Suc (Suc n)) (at_tokens s (t # ts)))
      (Thrown (at_tokens (s\<lparr>ps_reporter := ps_reporter s @ [r]\<rparr>) (t # ts)))" by (simp only: eq settles_const)
  from settles_Suc[OF settles_Suc[OF this]] show thesis by (rule that[OF r])
qed

lemma run_block:
  assumes "cut_block ts cs" "stream s (ts @ c)" "c \<noteq> []"
  shows "\<exists>rs. list_all2 (error_at (ps_source s) (ps_tab_size s)) (chunk_errors cs) rs \<and>
    settles (\<lambda>n. parse_statements n acc (at_tokens s (ts @ c)))
      (Done (acc @ chunk_items cs) (at_tokens (s\<lparr>ps_reporter := ps_reporter s @ rs\<rparr>) c))"
  using assms
proof (induction arbitrary: acc s rule: cut_block.induct)
  case (Block_end t)
  have "settles (\<lambda>n. parse_statements n acc (at_tokens s (t # c))) (Done acc (at_tokens s c))"
    by (rule settles_Suc) (use Block_end in \<open>simp add: at_ops\<close>)
  then show ?case by (intro exI[of _ "[]"]) simp
next
  case (Block_statement us e vs cs)
  have st: "stream s (us @ vs @ c)" using Block_statement.prems(1) by simp
  from Block_statement.hyps(1) obtain t us' where t: "us = t # us'" "starts_expression (tok_kind t)" by (rule first_of_statement)
  have e: "settles (\<lambda>n. parse_statement n (at_tokens s (us @ vs @ c))) (Done e (at_tokens s (vs @ c)))"
    using parses_all[of s e] Block_statement.hyps(1,2) Block_statement.prems(2) st by (simp add: statement_parses_def)
  obtain rs where rs: "list_all2 (error_at (ps_source s) (ps_tab_size s)) (chunk_errors cs) rs"
    "settles (\<lambda>n. parse_statements n (acc @ [e]) (at_tokens s (vs @ c)))
       (Done ((acc @ [e]) @ chunk_items cs) (at_tokens (s\<lparr>ps_reporter := ps_reporter s @ rs\<rparr>) c))"
    using Block_statement.IH[OF _ Block_statement.prems(2), of s "acc @ [e]"] stream_suffix[OF st] Block_statement.prems(2) by auto
  have "settles (\<lambda>n. parse_statements n acc (at_tokens s (t # us' @ vs @ c)))
      (Done (acc @ e # chunk_items cs) (at_tokens (s\<lparr>ps_reporter := ps_reporter s @ rs\<rparr>) c))"
    using st t e rs(2) by (intro statements_step_on[where x = "Done e (at_tokens s (vs @ c))"]) auto
  with rs(1) t(1) show ?case by (intro exI[of _ rs]) simp
next
  case (Block_junk junk vs cs)
  have st: "stream s (junk @ vs @ c)" using Block_junk.prems(1) by simp
  obtain t ts where t: "junk = t # ts" "lookup_head_parse_fn (tok_kind t) = None" "tok_kind t \<noteq> TK_r_brace"
    using Block_junk.hyps(1) by (cases junk) (auto simp: no_statement_def split: if_splits)
  obtain r where r: "error_at (ps_source s) (ps_tab_size s) (expect_expression, t) r"
    and throws: "settles (\<lambda>n. parse_statement n (at_tokens s (junk @ vs @ c)))
      (Thrown (at_tokens (s\<lparr>ps_reporter := ps_reporter s @ [r]\<rparr>) (junk @ vs @ c)))"
    using statement_throws[where s = s and t = t and ts = "ts @ vs @ c"] st t by auto
  let ?s = "s\<lparr>ps_reporter := ps_reporter s @ [r]\<rparr>"
  have st1: "stream ?s (junk @ vs @ c)" using st by (simp add: ps_ok_def)
  obtain rs where rs: "list_all2 (error_at (ps_source s) (ps_tab_size s)) (chunk_errors cs) rs"
    "settles (\<lambda>n. parse_statements n acc (at_tokens ?s (vs @ c)))
       (Done (acc @ chunk_items cs) (at_tokens (?s\<lparr>ps_reporter := ps_reporter ?s @ rs\<rparr>) c))"
    using Block_junk.IH[OF _ Block_junk.prems(2), of ?s acc] stream_suffix[OF st1] Block_junk.prems(2) by auto
  have "settles (\<lambda>n. parse_statements n acc (at_tokens s (t # ts @ vs @ c)))
      (Done (acc @ chunk_items cs) (at_tokens (?s\<lparr>ps_reporter := ps_reporter ?s @ rs\<rparr>) c))"
    using st t throws rs(2) recovery_skips_statement[OF Block_junk.hyps(1), where s = ?s and vs = "vs @ c"]
    by (intro statements_step_on[where x = "Thrown (at_tokens ?s (junk @ vs @ c))"]) auto
  with rs(1) r t(1) show ?case by (intro exI[of _ "r # rs"]) simp
qed

section \<open>Definitions\<close>

text \<open>A program: functions, with the chunks of their bodies, and stretches where no definition starts.\<close>

datatype part = Junk "token list" | Function ast_definition "chunk list"

definition cannot_start :: "token list \<Rightarrow> bool" where
  "cannot_start junk \<longleftrightarrow>
     junk \<noteq> [] \<and> tok_kind (hd junk) \<notin> {TK_identifier, TK_kw_public, TK_kw_private, TK_end_of_file} \<and>
     list_all (\<lambda>t. \<not> stops_recovery t) (tl junk)"

text \<open>Recovery stops at the first token of the next part, if there is one.\<close>

fun resumes :: "part list \<Rightarrow> bool" where
  "resumes [] \<longleftrightarrow> True"
| "resumes (Junk junk # ps) \<longleftrightarrow> stops_recovery (hd junk)"
| "resumes (Function d cs # ps) \<longleftrightarrow> fn_access_modifier d \<noteq> access_none"

inductive cut_into :: "token list \<Rightarrow> part list \<Rightarrow> bool" where
  Cut_end: "cut_into [] []"
| Cut_function: "spells hs (header_symbols d) \<Longrightarrow> definition_well_formed d \<Longrightarrow> cut_block bs cs \<Longrightarrow>
    fn_statements d = chunk_items cs \<Longrightarrow> cut_into vs ps \<Longrightarrow> cut_into (hs @ bs @ vs) (Function d cs # ps)"
| Cut_junk: "cannot_start junk \<Longrightarrow> resumes ps \<Longrightarrow> cut_into vs ps \<Longrightarrow> cut_into (junk @ vs) (Junk junk # ps)"

definition part_definitions :: "part list \<Rightarrow> ast_definition list" where
  "part_definitions ps = concat (map (\<lambda>p. case p of Junk junk \<Rightarrow> [] | Function d cs \<Rightarrow> [d]) ps)"

definition part_errors :: "part list \<Rightarrow> (message \<times> token) list" where
  "part_errors ps = concat (map (\<lambda>p. case p of
       Junk junk \<Rightarrow> [(expect_function_struct_or_enum, hd junk)] | Function d cs \<Rightarrow> chunk_errors cs) ps)"

lemma part_simps [simp]:
  "part_definitions [] = []" "part_definitions (Junk junk # ps) = part_definitions ps"
  "part_definitions (Function d cs # ps) = d # part_definitions ps"
  "part_errors [] = []" "part_errors (Junk junk # ps) = (expect_function_struct_or_enum, hd junk) # part_errors ps"
  "part_errors (Function d cs # ps) = chunk_errors cs @ part_errors ps"
  by (simp_all add: part_definitions_def part_errors_def)

lemma cut_resumes:
  assumes "cut_into vs ps" "resumes ps" "tok_kind u = TK_end_of_file"
  shows "dropWhile (\<lambda>t. \<not> stops_recovery t) (vs @ [u]) = vs @ [u]"
  using assms
proof (cases rule: cut_into.cases)
  case Cut_end
  with assms(3) show ?thesis by (simp add: recovery_tokens_def)
next
  case (Cut_function hs d bs cs ws ps')
  with assms(2) obtain t us where "hs = t # us" "stops_recovery t"
    by (cases "fn_access_modifier d") (auto simp: header_symbols_def spells_Sym recovery_tokens_def)
  with Cut_function show ?thesis by simp
next
  case (Cut_junk junk ps' ws)
  with assms(2) show ?thesis by (cases junk) (auto simp: cannot_start_def)
qed

lemma definition_throws:
  assumes "stream s (t # ts)" "tok_kind t \<notin> {TK_identifier, TK_kw_public, TK_kw_private, TK_end_of_file}"
  obtains r where "error_at (ps_source s) (ps_tab_size s) (expect_function_struct_or_enum, t) r"
    "\<And>n. parse_definition n (at_tokens s (t # ts)) = Thrown (at_tokens (s\<lparr>ps_reporter := ps_reporter s @ [r]\<rparr>) (t # ts))"
proof (rule report_and_throw_on[OF assms(1), of expect_function_struct_or_enum])
  fix r
  assume "error_at (ps_source s) (ps_tab_size s) (expect_function_struct_or_enum, t) r"
    and "(report_and_throw expect_function_struct_or_enum (at_tokens s (t # ts)) :: ast_definition presult) =
      Thrown (at_tokens (s\<lparr>ps_reporter := ps_reporter s @ [r]\<rparr>) (t # ts))"
  with assms(2) that show thesis by (simp add: parse_definition_def parse_access_modifier_def at_ops)
qed

lemma recovery_skips:
  assumes "stream s (junk @ vs @ [u])" "cannot_start junk" "cut_into vs ps" "resumes ps" "tok_kind u = TK_end_of_file"
  shows "recover_at_definition_level (at_tokens s (junk @ vs @ [u])) = Done () (at_tokens s (vs @ [u]))"
proof -
  obtain t ts where junk: "junk = t # ts" "tok_kind t \<noteq> TK_end_of_file" "list_all (\<lambda>t. \<not> stops_recovery t) ts"
    using assms(2) by (cases junk) (auto simp: cannot_start_def)
  have "ends_with_eof (t # ts @ vs @ [u])" using assms(1) junk(1) by (simp add: ps_ok_def)
  from recover_at_definition_dropWhile[OF this junk(2)] cut_resumes[OF assms(3-5)] junk(1,3) show ?thesis
    by (simp add: recover_at_definition_level_def list_all_iff dropWhile_append)
qed

lemma run_parts:
  assumes "cut_into ts ps" "stream s (ts @ [u])" "tok_kind u = TK_end_of_file"
  shows "\<exists>rs. list_all2 (error_at (ps_source s) (ps_tab_size s)) (part_errors ps) rs \<and>
    settles (\<lambda>n. parser_run n acc (at_tokens s (ts @ [u])))
      (Done (acc @ part_definitions ps) (at_tokens (s\<lparr>ps_reporter := ps_reporter s @ rs\<rparr>) [u]))"
  using assms
proof (induction arbitrary: acc s rule: cut_into.induct)
  case Cut_end
  have "settles (\<lambda>n. parser_run n acc (at_tokens s [u])) (Done acc (at_tokens s [u]))"
    by (rule settles_Suc) (use Cut_end in \<open>simp add: match_end_of_file[of _ u "[]"]\<close>)
  then show ?case by (intro exI[of _ "[]"]) simp
next
  case (Cut_function hs d bs cs vs ps)
  have st: "stream s (hs @ bs @ vs @ [u])" using Cut_function.prems(1) by simp
  have st1: "stream s (bs @ vs @ [u])" using stream_suffix[OF st] by simp
  obtain r1 where r1: "list_all2 (error_at (ps_source s) (ps_tab_size s)) (chunk_errors cs) r1"
    "settles (\<lambda>n. parse_block n (at_tokens s (bs @ vs @ [u])))
       (Done (fn_statements d) (at_tokens (s\<lparr>ps_reporter := ps_reporter s @ r1\<rparr>) (vs @ [u])))"
    using run_block[OF Cut_function.hyps(3) st1, of "[]"] Cut_function.hyps(4) by (auto simp: parse_block_def)
  note d = definition_then[OF Cut_function.hyps(2,1) st _ r1(2)]
  obtain t hs' where t: "hs = t # hs'" "tok_kind t \<noteq> TK_end_of_file" using d(2) by (cases hs) auto
  let ?s = "s\<lparr>ps_reporter := ps_reporter s @ r1\<rparr>"
  have st2: "stream ?s (vs @ [u])" using stream_suffix[OF st1] by (simp add: ps_ok_def)
  obtain r2 where r2: "list_all2 (error_at (ps_source s) (ps_tab_size s)) (part_errors ps) r2"
    "settles (\<lambda>n. parser_run n (acc @ [d]) (at_tokens ?s (vs @ [u])))
       (Done ((acc @ [d]) @ part_definitions ps) (at_tokens (?s\<lparr>ps_reporter := ps_reporter ?s @ r2\<rparr>) [u]))"
    using Cut_function.IH[OF st2 Cut_function.prems(2), of "acc @ [d]"] by auto
  have "settles (\<lambda>n. parser_run n acc (at_tokens s (t # hs' @ bs @ vs @ [u])))
      (Done (acc @ d # part_definitions ps) (at_tokens (?s\<lparr>ps_reporter := ps_reporter ?s @ r2\<rparr>) [u]))"
    using st t d(1) r2(2) by (intro run_step_on[where x = "Done d (at_tokens ?s (vs @ [u]))"]) auto
  with r1(1) r2(1) t(1) show ?case by (intro exI[of _ "r1 @ r2"]) (simp add: list_all2_appendI)
next
  case (Cut_junk junk ps vs)
  have st: "stream s (junk @ vs @ [u])" using Cut_junk.prems(1) by simp
  obtain t ts where t: "junk = t # ts" "tok_kind t \<notin> {TK_identifier, TK_kw_public, TK_kw_private, TK_end_of_file}"
    using Cut_junk.hyps(1) by (cases junk) (auto simp: cannot_start_def)
  obtain r where r: "error_at (ps_source s) (ps_tab_size s) (expect_function_struct_or_enum, t) r"
    and throws: "\<And>n. parse_definition n (at_tokens s (junk @ vs @ [u])) =
      Thrown (at_tokens (s\<lparr>ps_reporter := ps_reporter s @ [r]\<rparr>) (junk @ vs @ [u]))"
    using definition_throws[where s = s and t = t and ts = "ts @ vs @ [u]"] st t by auto
  let ?s = "s\<lparr>ps_reporter := ps_reporter s @ [r]\<rparr>"
  have st1: "stream ?s (junk @ vs @ [u])" using st by (simp add: ps_ok_def)
  note skip = recovery_skips[OF st1 Cut_junk.hyps(1,3,2) Cut_junk.prems(2)]
  obtain rs where rs: "list_all2 (error_at (ps_source s) (ps_tab_size s)) (part_errors ps) rs"
    "settles (\<lambda>n. parser_run n acc (at_tokens ?s (vs @ [u])))
       (Done (acc @ part_definitions ps) (at_tokens (?s\<lparr>ps_reporter := ps_reporter ?s @ rs\<rparr>) [u]))"
    using Cut_junk.IH[OF _ Cut_junk.prems(2), of ?s acc] stream_suffix[OF st1] by auto
  have "settles (\<lambda>n. parser_run n acc (at_tokens s (t # ts @ vs @ [u])))
      (Done (acc @ part_definitions ps) (at_tokens (?s\<lparr>ps_reporter := ps_reporter ?s @ rs\<rparr>) [u]))"
    using st t throws skip rs(2) by (intro run_step_on[where x = "Thrown (at_tokens ?s (junk @ vs @ [u]))"]) auto
  with rs(1) r t(1) show ?case by (intro exI[of _ "r # rs"]) simp
qed

context token_stream
begin

lemma run_parser_parts:
  assumes "tokens = ts @ [u]" "cut_into ts ps"
  shows "\<exists>rs. run_parser tokens v reporter tab_size = Inr (\<lparr>root_definitions = part_definitions ps\<rparr>, reporter @ rs) \<and>
    list_all2 (error_at v tab_size) (part_errors ps) rs"
proof -
  let ?s = "parser_init tokens v reporter tab_size"
  have "ends_with_eof (ts @ [u])" using ends assms(1) by simp
  then have u: "tok_kind u = TK_end_of_file" by (induction ts) (auto simp: ends_with_eof_Cons split: if_splits)
  have at: "?s = at_tokens ?s tokens" by (simp add: parser_init_def tc_init_def get_array_def)
  have st: "stream ?s (ts @ [u])" using init_ok[of reporter tab_size] at assms(1) by simp
  from run_parts[OF assms(2) st u, of "[]"] obtain rs where
    rs: "list_all2 (error_at v tab_size) (part_errors ps) rs" and
    run: "settles (\<lambda>n. parser_run n [] ?s) (Done (part_definitions ps) (at_tokens (?s\<lparr>ps_reporter := ps_reporter ?s @ rs\<rparr>) [u]))"
    using at assms(1) by (auto simp: parser_init_def)
  from run_parser_settles[OF run] rs show ?thesis by (simp add: parser_init_def)
qed

end
section \<open>A program with errors\<close>

definition broken_source :: source_view where
  "broken_source = \<lparr>sv_file_view = None, sv_text = Some '');private f(){);}'', sv_path = ''a.ce''\<rparr>"

definition broken_tokens :: "token list" where
  "broken_tokens =
     [mk_token TK_r_paren 0 0, mk_token TK_semicolon 1 0, mk_token TK_kw_private 2 0, mk_token TK_identifier 10 1,
      mk_token TK_l_paren 11 0, mk_token TK_r_paren 12 0, mk_token TK_l_brace 13 0, mk_token TK_r_paren 14 0,
      mk_token TK_semicolon 15 0, mk_token TK_r_brace 16 0, mk_token TK_end_of_file 17 0]"

definition broken_tree :: ast_definition where
  "broken_tree =
     \<lparr>fn_offset = 2, fn_access_modifier = access_private, fn_name = \<lparr>name_offset = 10, name_length = 1\<rparr>,
      fn_parameters = [], fn_outputs = [], fn_statements = []\<rparr>"

lemma broken_text: "get_text broken_source = '');private f(){);}''"
  by code_simp

lemma broken_lexed: "run_lexer broken_source [] flags 4 = Some (broken_tokens, [])"
proof -
  have small: "length (get_text broken_source) \<le> unat source_size_max" by (simp add: broken_text unat_source_size_max)
  have ascii: "list_all is_ascii (get_text broken_source)" unfolding broken_text by code_simp
  have words: "takeWhile is_ascii_identifier_char ''rivate f(){);}'' = ''rivate''" "takeWhile is_ascii_identifier_char ''(){);}'' = []"
    "keyword_kind ''private'' = Some TK_kw_private" "keyword_kind ''f'' = None" by code_simp+
  have modifier: "handle_source_loop (lexer_at broken_source flags 2 ts) =
      handle_source_loop (lexer_at broken_source flags 9 (ts @ [mk_token TK_kw_private 2 0]))" for ts
    using lex_word_at[OF small ascii, of 2 "CHR ''p''" "''rivate f(){);}''" "''private''" flags ts, unfolded words] by (simp add: broken_text words(3))
  have f: "handle_source_loop (lexer_at broken_source flags 10 ts) =
      handle_source_loop (lexer_at broken_source flags 11 (ts @ [mk_token TK_identifier 10 1]))" for ts
    using lex_word_at[OF small ascii, of 10 "CHR ''f''" "''(){);}''" "''f''" flags ts, unfolded words] by (simp add: broken_text words(4))
  have space: "handle_source_loop (lexer_at broken_source flags 9 ts) = handle_source_loop (lexer_at broken_source flags 10 ts)" for ts
    by (simp add: handle_source_loop_step(1) handle_next_character_def lx_moves broken_text)
  have "handle_source_loop (lexer_at broken_source flags 0 []) =
      handle_source_loop (lexer_at broken_source flags 17 (butlast broken_tokens))"
    by (simp add: modifier f space lex_bracket_at broken_text broken_tokens_def drop_Cons' del: One_nat_def)
  also have "\<dots> = lexer_at broken_source flags 17 (butlast broken_tokens)"
    by (rule handle_source_loop_step(2)) (simp add: broken_text)
  also have "17 = length (get_text broken_source)" by (simp add: broken_text)
  finally show ?thesis
    by (subst run_lexer_at[OF _ small]) (simp_all add: broken_text broken_tokens_def)
qed

lemma broken_is_lexed: "lexed broken_source [] flags 4 = broken_tokens"
  by (simp add: lexed_def broken_lexed)

lemma broken_cut:
  "cut_into (butlast broken_tokens)
     [Junk (take 2 broken_tokens), Function broken_tree [Inl [mk_token TK_r_paren 14 0, mk_token TK_semicolon 15 0]]]"
proof -
  let ?junk = "[mk_token TK_r_paren 14 0, mk_token TK_semicolon 15 0]" and ?header = "take 5 (drop 2 broken_tokens)"
  have "no_statement ?junk" by code_simp
  then have body: "cut_block (?junk @ [mk_token TK_r_brace 16 0]) [Inl ?junk]" by (intro Block_junk Block_end) simp_all
  have header: "spells ?header (header_symbols broken_tree)" "definition_well_formed broken_tree" by code_simp+
  have "fn_statements broken_tree = chunk_items [Inl ?junk]" by (simp add: broken_tree_def)
  from Cut_function[OF header body this Cut_end]
  have "cut_into (?header @ ?junk @ [mk_token TK_r_brace 16 0]) [Function broken_tree [Inl ?junk]]" by simp
  moreover have "cannot_start (take 2 broken_tokens)" "resumes [Function broken_tree [Inl ?junk]]" by code_simp+
  ultimately have "cut_into (take 2 broken_tokens @ ?header @ ?junk @ [mk_token TK_r_brace 16 0])
      [Junk (take 2 broken_tokens), Function broken_tree [Inl ?junk]]"
    by (intro Cut_junk)
  then show ?thesis by (simp add: broken_tokens_def)
qed

text \<open>C8. Errors stay local and the parser resumes where recovery stops. Let the tokens of a source be cut into
  functions and stretches. A stretch starts with a token where no definition starts (no identifier,
  no \<open>public\<close> or \<open>private\<close>, not the end of the file) and reaches up to the next \<open>public\<close>, \<open>private\<close>,
  \<open>struct\<close> or \<open>enum\<close>, or to the end of the file: recovery skips all that is before those, a function
  without an access modifier too, which is then lost as a part of the stretch. So the function that follows a
  stretch must have an access modifier; the others need none. The body of a function is cut into
  well-formed statements and stretches that start with a token where no expression starts and end with
  their first semicolon, without a \<open>}\<close> in front of it. Then the tree has all the functions of the cut, in order,
  each with all its well-formed statements in order, and there is exactly one report for each
  stretch, in order and at the location of its first token.\<close>
theorem errors_stay_local:
  assumes "lexed v reporter flags tab_size = ts @ [u]" "cut_into ts ps"
  shows "\<exists>rs. run_parser (lexed v reporter flags tab_size) v reporter' tab_size' =
      Inr (\<lparr>root_definitions = part_definitions ps\<rparr>, reporter' @ rs) \<and>
    list_all2 (error_at v tab_size') (part_errors ps) rs"
  using assms by (rule lexed_stream.run_parser_parts)

theorem errors_stay_local_witness:
  "\<exists>r q. run_parser broken_tokens broken_source [] 4 = Inr (\<lparr>root_definitions = [broken_tree]\<rparr>, [r, q]) \<and>
     error_at broken_source 4 (expect_function_struct_or_enum, mk_token TK_r_paren 0 0) r \<and>
     error_at broken_source 4 (expect_expression, mk_token TK_r_paren 14 0) q"
proof -
  have "lexed broken_source [] 0 4 = butlast broken_tokens @ [mk_token TK_end_of_file 17 0]"
    by (simp add: broken_is_lexed broken_tokens_def)
  from errors_stay_local[OF this broken_cut, of "[]" 4] show ?thesis
    by (auto simp: broken_is_lexed list_all2_Cons1) (simp add: broken_tokens_def)
qed

end
