(* ===== verification/Build.thy ===== *)
theory Build
  imports Type_Checker Parser_Recovery
begin

text \<open>
  \<open>src/cero/compile/build.cc\<close>: the pipeline on one source. The operating system and
  \<open>fmt::vformat\<close> are parameters; the result has the reports as the reporter receives them and the
  system calls that opening and closing the source makes.
\<close>

section \<open>The pipeline\<close>

text \<open>\<open>std::errc::no_such_file_or_directory\<close>.\<close>

definition no_such_file_or_directory :: int where
  "no_such_file_or_directory = 2"

text \<open>The reports of a view, from the lexer, the parser and the semantic analyzer.\<close>

definition build_view :: "source_view \<Rightarrow> fault + report_call list" where
  "build_view v =
     (case run_lexer v [] flags_none default_tab_size of
        None \<Rightarrow> Inl Out_of_range
      | Some (token_list, reports) \<Rightarrow>
          (case run_parser token_list v reports default_tab_size of
             Inl e \<Rightarrow> Inl e
           | Inr (ast, reports') \<Rightarrow>
               (let (cfg, reports'') = run_semantic_analyzer ast v reports' default_tab_size in Inr reports'')))"

definition source_get_path :: "source \<Rightarrow> string" where [simp]:
  "source_get_path s = src_path s"

definition lock_error_report :: "source \<Rightarrow> error_condition \<Rightarrow> report_call" where
  "lock_error_report s error =
     (let location = \<lparr>loc_path = source_get_path s, loc_line = 0, loc_column = 0\<rparr>
      in if err_value error = no_such_file_or_directory
         then \<lparr>rep_location = location, rep_message = file_not_found, rep_args = []\<rparr>
         else \<lparr>rep_location = location, rep_message = could_not_open_file, rep_args = [Arg_string (err_message error)]\<rparr>)"

text \<open>The destructor of the view.\<close>

definition close_view :: "posix_api \<Rightarrow> source_view \<Rightarrow> (fault option) \<times> syscall list" where
  "close_view os v = (case sv_file_view v of None \<Rightarrow> (None, []) | Some f \<Rightarrow> file_view_destructor os f)"

definition build_source ::
    "vformat_fn \<Rightarrow> posix_api \<Rightarrow> source \<Rightarrow> (fault + handled_report list) \<times> syscall list" where
  "build_source vformat os s =
     (case lock os s of
        Inl e \<Rightarrow> (Inl e, lock_calls os s)
      | Inr (Inl error) \<Rightarrow> (deliver vformat [lock_error_report s error], lock_calls os s)
      | Inr (Inr v) \<Rightarrow>
          (case build_view v of
             Inl e \<Rightarrow> (Inl e, lock_calls os s)
           | Inr reports \<Rightarrow>
               (case deliver vformat reports of
                  Inl e \<Rightarrow> (Inl e, lock_calls os s)
                | Inr handled \<Rightarrow>
                    (let (aborted, calls) = close_view os v
                     in (case aborted of Some e \<Rightarrow> Inl e | None \<Rightarrow> Inr handled, lock_calls os s @ calls)))))"

section \<open>Stages\<close>

text \<open>The reports of a view are those of the lexer and then those of the parser.\<close>

lemma lexer_gives: "\<exists>rs. run_lexer v [] flags tab_size = Some (lexed v [] flags tab_size, rs) \<and>
    lexer_reports v [] flags tab_size = rs \<and> list_all report_valid rs"
proof (cases "length (get_text v) \<le> unat source_size_max")
  case True
  then show ?thesis
    by (rule run_lexer_result[of v "[]" flags tab_size]) (auto simp: lexed_def lexer_reports_def lex_result_def)
next
  case False
  then show ?thesis
    using run_lexer_too_large[of v "[]" flags tab_size]
    by (auto simp: lexed_def lexer_reports_def report_valid_def valid_for_message_arity message_arity_def)
qed

lemma build_view_result:
  obtains ds rs where
    "run_parser (lexed v [] flags_none default_tab_size) v (lexer_reports v [] flags_none default_tab_size) default_tab_size =
       Inr (\<lparr>root_definitions = ds\<rparr>, lexer_reports v [] flags_none default_tab_size @ rs)"
    "build_view v = Inr (lexer_reports v [] flags_none default_tab_size @ rs)"
    "list_all report_valid (lexer_reports v [] flags_none default_tab_size @ rs)"
proof -
  let ?l = "lexer_reports v [] flags_none default_tab_size"
  from lexer_gives[of v flags_none default_tab_size]
  have lex: "run_lexer v [] flags_none default_tab_size = Some (lexed v [] flags_none default_tab_size, ?l)"
    and valid: "list_all report_valid ?l" by auto
  show thesis
  proof (rule lexed_stream.run_parser_result[of v "[]" flags_none default_tab_size ?l default_tab_size])
    fix ds rs
    assume run: "run_parser (lexed v [] flags_none default_tab_size) v ?l default_tab_size = Inr (\<lparr>root_definitions = ds\<rparr>, ?l @ rs)"
      and rs: "list_all report_valid rs"
    then show thesis
      using that[OF run] lex valid by (simp add: build_view_def run_semantic_analyzer_def)
  qed
qed

lemma deliver_empty: "deliver vformat rs = Inr [] \<longleftrightarrow> rs = []"
  by (cases rs) (auto split: sum.splits)

lemma close_view_ok:
  assumes "posix_ok os" "lock os s = Inr (Inr v)"
  shows "fst (close_view os v) = None \<and> no_leak os (lock_calls os s @ snd (close_view os v))"
  using assms file_view_from_then_destroy_no_leak[OF assms(1), of "src_path s"]
  by (auto simp: lock_eq lock_calls_eq close_view_def file_view_destructor_def no_leak_def closed_descriptors_def
      unmapped_regions_def split: option.splits sum.splits)

end
