(* ===== verification/Bytes.thy ===== *)
theory Bytes
  imports Cero_Prelude
begin

text \<open>
  Memory as the machine has it: 64-bit addresses of bytes. Words are stored little-endian; reading
  and writing a sequence of bytes is what loads, stores and \<open>memcpy\<close> do. A write that overlaps a part
  of memory changes it, so that layouts matter.
\<close>

section \<open>Bytes of words\<close>

text \<open>Words are stored with their low bytes first.\<close>

definition word_bytes :: "nat \<Rightarrow> 'a :: len word \<Rightarrow> u8 list" where
  "word_bytes n w = map (\<lambda>i. ucast (drop_bit (8 * i) w)) [0 ..< n]"

definition bytes_word :: "u8 list \<Rightarrow> 'a :: len word" where
  "bytes_word bs = foldr (\<lambda>b w. push_bit 8 w OR ucast b) bs 0"

lemma length_word_bytes [simp]: "length (word_bytes n w) = n"
  by (simp add: word_bytes_def)

lemma bit_bytes_word:
  "bit (bytes_word bs :: 'a :: len word) i \<longleftrightarrow> i < LENGTH('a) \<and> i div 8 < length bs \<and> bit (bs ! (i div 8)) (i mod 8)"
proof (induction bs arbitrary: i)
  case (Cons b bs)
  have "bit (bytes_word (b # bs) :: 'a word) i \<longleftrightarrow>
      i < LENGTH('a) \<and> (8 \<le> i \<and> bit (bytes_word bs :: 'a word) (i - 8) \<or> bit b i)"
    by (auto simp: bytes_word_def bit_or_iff bit_push_bit_iff bit_ucast_iff)
  also have "\<dots> \<longleftrightarrow> i < LENGTH('a) \<and> i div 8 < length (b # bs) \<and> bit ((b # bs) ! (i div 8)) (i mod 8)"
  proof (cases "8 \<le> i")
    case True
    then have "i div 8 = Suc ((i - 8) div 8)" "i mod 8 = (i - 8) mod 8" by (simp_all add: le_div_geq le_mod_geq)
    moreover have "\<not> bit b i" using True by (auto dest: bit_imp_le_length)
    ultimately show ?thesis using True by (auto simp: Cons.IH)
  qed simp
  finally show ?case .
qed (simp add: bytes_word_def)

lemma bytes_word_word_bytes:
  assumes "LENGTH('a) = 8 * n"
  shows "bytes_word (word_bytes n w) = (w :: 'a :: len word)"
proof (rule bit_word_eqI)
  fix i
  assume i: "i < LENGTH('a)"
  then have "i div 8 < n" using assms by (simp add: less_mult_imp_div_less)
  with i show "bit (bytes_word (word_bytes n w) :: 'a word) i \<longleftrightarrow> bit w i"
    by (simp add: bit_bytes_word word_bytes_def bit_ucast_iff bit_drop_bit_eq)
qed

section \<open>Reading and writing\<close>

type_synonym byte_memory = "u64 \<Rightarrow> u8"

definition read_bytes :: "byte_memory \<Rightarrow> u64 \<Rightarrow> nat \<Rightarrow> u8 list" where
  "read_bytes mem x n = map (\<lambda>i. mem (x + word_of_nat i)) [0 ..< n]"

definition write_bytes :: "u64 \<Rightarrow> u8 list \<Rightarrow> byte_memory \<Rightarrow> byte_memory" where
  "write_bytes x bs mem = (\<lambda>y. if unat (y - x) < length bs then bs ! unat (y - x) else mem y)"

definition load_word :: "byte_memory \<Rightarrow> u64 \<Rightarrow> u64" where
  "load_word mem x = bytes_word (read_bytes mem x 8)"

text \<open>The addresses of \<open>n\<close> bytes.\<close>

definition span :: "u64 \<Rightarrow> nat \<Rightarrow> nat set" where
  "span x n = {unat x ..< unat x + n}"

lemma length_read_bytes [simp]: "length (read_bytes mem x n) = n"
  by (simp add: read_bytes_def)

lemma unat_of_nat_u64: "n < 2 ^ 64 \<Longrightarrow> unat (word_of_nat n :: u64) = n"
  by (simp add: unat_of_nat take_bit_nat_eq_self)

lemma unat_add_u64: "unat a + unat b < 2 ^ 64 \<Longrightarrow> unat (a + b :: u64) = unat a + unat b"
  by (subst unat_plus_if') simp

lemma unat_diff_u64: "unat b \<le> unat a \<Longrightarrow> unat (a - b :: u64) = unat a - unat b"
  by (simp add: unat_sub word_le_nat_alt)

lemma unat_step:
  assumes "unat x + n \<le> 2 ^ 64" "i < n"
  shows "unat (x + word_of_nat i :: u64) = unat x + i"
proof -
  have "unat (word_of_nat i :: u64) = i" using assms by (intro unat_of_nat_u64) simp
  with assms show ?thesis by (subst unat_add_u64) simp_all
qed

text \<open>The bytes that a write changes are those of its span.\<close>

lemma write_inside:
  assumes "unat x + n \<le> 2 ^ 64"
  shows "unat (y - x) < n \<longleftrightarrow> unat y \<in> span x n"
proof
  assume less: "unat (y - x) < n"
  then have "unat (x + (y - x)) = unat x + unat (y - x)" using assms by (intro unat_add_u64) simp
  with less show "unat y \<in> span x n" by (simp add: span_def)
next
  assume "unat y \<in> span x n"
  then show "unat (y - x) < n" using unat_diff_u64[of x y] by (auto simp: span_def)
qed

lemma write_outside:
  "unat x + length bs \<le> 2 ^ 64 \<Longrightarrow> unat y \<notin> span x (length bs) \<Longrightarrow> write_bytes x bs mem y = mem y"
  by (simp add: write_bytes_def write_inside)

lemma read_bytes_cong:
  assumes "unat x + n \<le> 2 ^ 64" "\<And>y. unat y \<in> span x n \<Longrightarrow> mem y = mem' y"
  shows "read_bytes mem x n = read_bytes mem' x n"
  using assms unat_step[OF assms(1)] by (auto simp: read_bytes_def span_def)

text \<open>Reading what was written, and reading elsewhere.\<close>

lemma read_write_same:
  assumes "n = length bs" "n \<le> 2 ^ 64"
  shows "read_bytes (write_bytes x bs mem) x n = bs"
proof (rule nth_equalityI)
  fix i
  assume "i < length (read_bytes (write_bytes x bs mem) x n)"
  then have "i < n" by simp
  moreover from this have "unat (word_of_nat i :: u64) = i" using assms by (intro unat_of_nat_u64) simp
  ultimately show "read_bytes (write_bytes x bs mem) x n ! i = bs ! i"
    using assms by (simp add: read_bytes_def write_bytes_def)
qed (simp add: assms)

lemma read_write_other:
  assumes "unat x + n \<le> 2 ^ 64" "unat y + length bs \<le> 2 ^ 64" "span x n \<inter> span y (length bs) = {}"
  shows "read_bytes (write_bytes y bs mem) x n = read_bytes mem x n"
  using assms by (intro read_bytes_cong write_outside) auto

lemma load_word_write: "load_word (write_bytes x (word_bytes 8 w) mem) x = w"
  by (simp add: load_word_def read_write_same bytes_word_word_bytes)

text \<open>A part of what is read.\<close>

lemma read_bytes_part:
  "i + k \<le> n \<Longrightarrow> read_bytes mem (x + word_of_nat i) k = take k (drop i (read_bytes mem x n))"
  by (intro nth_equalityI) (simp_all add: read_bytes_def add.assoc)

end
