(* ===== verification/Memory_Arena.thy ===== *)
theory Memory_Arena
  imports Bytes
begin

text \<open>
  \<open>util::MemoryArena\<close> (\<open>src/cero/util/memory_arena.hh\<close> and \<open>memory_arena.cc\<close>). Addresses and sizes
  are 64-bit words. The memory has the blocks that are live and its bytes; the header of a block is the
  pointer to the next block, in the first 8 bytes of the block. \<open>operator new\<close> is a parameter that picks the address
  of a block, or \<^const>\<open>None\<close> for \<open>std::bad_alloc\<close>.
\<close>

section \<open>Memory\<close>

record memory =
  mem_live :: "(u64 \<times> u64) list"
  mem_bytes :: byte_memory

type_synonym operator_new = "memory \<Rightarrow> u64 \<Rightarrow> u64 option"

datatype arena_error = Bad_alloc | Invalid_delete

definition new_block :: "operator_new \<Rightarrow> u64 \<Rightarrow> memory \<Rightarrow> arena_error + u64 \<times> memory" where
  "new_block new bytes m =
     (case new m bytes of
        None \<Rightarrow> Inl Bad_alloc
      | Some block \<Rightarrow> Inr (block, m\<lparr>mem_live := (block, bytes) # mem_live m\<rparr>))"

definition delete_block :: "u64 \<Rightarrow> memory \<Rightarrow> arena_error + memory" where
  "delete_block block m =
     (if block \<in> fst ` set (mem_live m)
      then Inr (m\<lparr>mem_live := filter (\<lambda>(b, n). b \<noteq> block) (mem_live m)\<rparr>)
      else Inl Invalid_delete)"

text \<open>
  \<open>std::align\<close>: the next multiple of the alignment, if the size still fits behind it; it then
  moves the pointer there and takes the padding from the space. The null pointer is 0.
\<close>

definition align_padding :: "u64 \<Rightarrow> u64 \<Rightarrow> u64" where
  "align_padding alignment ptr = (alignment - ptr mod alignment) mod alignment"

definition std_align :: "u64 \<Rightarrow> u64 \<Rightarrow> u64 \<Rightarrow> u64 \<Rightarrow> u64 \<times> u64 \<times> u64" where
  "std_align alignment bytes ptr space =
     (let pad = align_padding alignment ptr
      in if space < bytes \<or> space - bytes < pad then (0, ptr, space)
         else (ptr + pad, ptr + pad, space - pad))"

section \<open>The arena\<close>

record memory_arena =
  next_ptr :: u64
  remaining_size :: u64
  next_block_size :: u64
  head_block :: u64
  total_size :: u64

definition initial_block_size :: u64 where
  "initial_block_size = 1024"

definition sizeof_block :: u64 where
  "sizeof_block = 8"

definition arena_default :: memory_arena where
  "arena_default =
     \<lparr>next_ptr = 0, remaining_size = 0, next_block_size = initial_block_size, head_block = 0, total_size = 0\<rparr>"

definition arena_init :: "u64 \<Rightarrow> memory_arena" where
  "arena_init initial_size = arena_default\<lparr>next_block_size := initial_size\<rparr>"

definition create_block ::
    "operator_new \<Rightarrow> u64 \<Rightarrow> u64 \<Rightarrow> memory_arena \<Rightarrow> memory \<Rightarrow> arena_error + memory_arena \<times> memory" where
  "create_block new bytes alignment a m =
     (let block_size = max (next_block_size a) (bytes + sizeof_block)
      in case new_block new block_size m of
           Inl e \<Rightarrow> Inl e
         | Inr (block, m1) \<Rightarrow>
             (let m2 = m1\<lparr>mem_bytes := write_bytes block (word_bytes 8 (head_block a)) (mem_bytes m1)\<rparr>;
                  (ptr, _, space) = std_align alignment bytes (block + sizeof_block) (block_size - sizeof_block)
              in Inr (a\<lparr>total_size := total_size a + block_size, head_block := block, next_ptr := ptr,
                        remaining_size := space,
                        next_block_size := next_block_size a + next_block_size a div 2\<rparr>, m2)))"

definition allocate ::
    "operator_new \<Rightarrow> u64 \<Rightarrow> u64 \<Rightarrow> memory_arena \<Rightarrow> memory \<Rightarrow> arena_error + u64 \<times> memory_arena \<times> memory" where
  "allocate new bytes alignment a m =
     (let (ptr, next, space) = std_align alignment bytes (next_ptr a) (remaining_size a);
          a1 = a\<lparr>next_ptr := next, remaining_size := space\<rparr>
      in case (if ptr = 0 then create_block new bytes alignment a1 m else Inr (a1, m)) of
           Inl e \<Rightarrow> Inl e
         | Inr (a2, m2) \<Rightarrow>
             (let result = (if ptr = 0 then next_ptr a2 else ptr)
              in Inr (result,
                      a2\<lparr>next_ptr := next_ptr a2 + bytes, remaining_size := remaining_size a2 - bytes\<rparr>, m2)))"

text \<open>
  \<open>create\<close>: storage of the size and alignment of the type, where its constructor then runs; what the
  constructor writes is an argument.
\<close>

definition arena_create ::
    "operator_new \<Rightarrow> u64 \<Rightarrow> u64 \<Rightarrow> (u64 \<Rightarrow> byte_memory \<Rightarrow> byte_memory) \<Rightarrow> memory_arena \<Rightarrow> memory \<Rightarrow>
     arena_error + u64 \<times> memory_arena \<times> memory" where
  "arena_create new sizeof_T alignof_T construct a m =
     (case allocate new sizeof_T alignof_T a m of
        Inl e \<Rightarrow> Inl e
      | Inr (storage, a1, m1) \<Rightarrow> Inr (storage, a1, m1\<lparr>mem_bytes := construct storage (mem_bytes m1)\<rparr>))"

text \<open>The loop of \<open>release\<close>, with fuel: no list of blocks is longer than the list of the live ones.\<close>

fun release_loop :: "nat \<Rightarrow> u64 \<Rightarrow> memory \<Rightarrow> (arena_error + memory) option" where
  "release_loop n block m =
     (if block = 0 then Some (Inr m)
      else (case n of
              0 \<Rightarrow> None
            | Suc k \<Rightarrow>
                (let next = load_word (mem_bytes m) block
                 in case delete_block block m of Inl e \<Rightarrow> Some (Inl e) | Inr m1 \<Rightarrow> release_loop k next m1)))"

declare release_loop.simps [simp del]

definition release :: "memory_arena \<Rightarrow> memory \<Rightarrow> (arena_error + memory_arena \<times> memory) option" where
  "release a m =
     (case release_loop (length (mem_live m)) (head_block a) m of
        None \<Rightarrow> None
      | Some (Inl e) \<Rightarrow> Some (Inl e)
      | Some (Inr m1) \<Rightarrow> Some (Inr (a\<lparr>head_block := 0, total_size := 0\<rparr>, m1)))"

definition get_total_size :: "memory_arena \<Rightarrow> u64" where
  "get_total_size a = total_size a"

definition arena_destroy :: "memory_arena \<Rightarrow> memory \<Rightarrow> (arena_error + memory_arena \<times> memory) option" where
  "arena_destroy a m = release a m"

text \<open>Move construction returns the new arena and what remains of the old one.\<close>

definition arena_move :: "memory_arena \<Rightarrow> memory_arena \<times> memory_arena" where
  "arena_move other = (other, arena_default)"

text \<open>Move assignment to another arena; assignment to itself does nothing.\<close>

definition arena_move_assign ::
    "memory_arena \<Rightarrow> memory_arena \<Rightarrow> memory \<Rightarrow> (arena_error + memory_arena \<times> memory_arena \<times> memory) option" where
  "arena_move_assign this other m =
     (case release this m of
        None \<Rightarrow> None
      | Some (Inl e) \<Rightarrow> Some (Inl e)
      | Some (Inr (_, m1)) \<Rightarrow> Some (Inr (other, arena_default, m1)))"

section \<open>Regions\<close>

definition region :: "u64 \<times> u64 \<Rightarrow> nat set" where
  "region r = {unat (fst r) ..< unat (fst r) + unat (snd r)}"

text \<open>The part of a block behind its header.\<close>

definition payload :: "u64 \<times> u64 \<Rightarrow> nat set" where
  "payload b = {unat (fst b) + 8 ..< unat (fst b) + unat (snd b)}"

definition block_ok :: "u64 \<times> u64 \<Rightarrow> bool" where
  "block_ok b \<longleftrightarrow> fst b \<noteq> 0 \<and> 16 dvd unat (fst b) \<and> unat (fst b) + unat (snd b) < 2 ^ 64"

abbreviation apart :: "u64 \<times> u64 \<Rightarrow> u64 \<times> u64 \<Rightarrow> bool" where
  "apart r q \<equiv> region r \<inter> region q = {}"

text \<open>
  What C++ promises of \<open>operator new\<close>: a block that is not null, aligned to 16, does not wrap
  around the address space, overlaps no live block and has the address of none.
\<close>

definition new_ok :: "operator_new \<Rightarrow> bool" where
  "new_ok new \<longleftrightarrow>
     (\<forall>m bytes block. new m bytes = Some block \<longrightarrow>
        block_ok (block, bytes) \<and> (\<forall>b \<in> set (mem_live m). fst b \<noteq> block \<and> apart (block, bytes) b))"

text \<open>The blocks of an arena, from the head along the pointers in the headers.\<close>

fun block_chain :: "byte_memory \<Rightarrow> u64 \<Rightarrow> (u64 \<times> u64) list \<Rightarrow> bool" where
  "block_chain mem h [] \<longleftrightarrow> h = 0"
| "block_chain mem h (b # bs) \<longleftrightarrow> h = fst b \<and> block_chain mem (load_word mem h) bs"

text \<open>
  The invariant, for the blocks \<open>bs\<close> of the arena and the regions \<open>rs\<close> it has handed out: the
  regions and the free part lie in the payloads of the blocks and do not overlap.
\<close>

definition memory_ok :: "memory \<Rightarrow> bool" where
  "memory_ok m \<longleftrightarrow> (\<forall>b \<in> set (mem_live m). block_ok b) \<and> sorted_wrt apart (mem_live m) \<and> distinct (map fst (mem_live m))"

definition free_part :: "memory_arena \<Rightarrow> u64 \<times> u64" where
  "free_part a = (next_ptr a, remaining_size a)"

definition arena_ok :: "(u64 \<times> u64) list \<Rightarrow> memory_arena \<Rightarrow> memory \<Rightarrow> (u64 \<times> u64) list \<Rightarrow> bool" where
  "arena_ok bs a m rs \<longleftrightarrow>
     memory_ok m \<and> set bs \<subseteq> set (mem_live m) \<and> (\<forall>b \<in> set bs. 8 \<le> unat (snd b)) \<and> sorted_wrt apart bs \<and>
     distinct (map fst bs) \<and> unat (total_size a) = sum_list (map (\<lambda>b. unat (snd b)) bs) \<and>
     block_chain (mem_bytes m) (head_block a) bs \<and>
     unat (next_ptr a) + unat (remaining_size a) < 2 ^ 64 \<and> (next_ptr a = 0 \<longrightarrow> remaining_size a = 0) \<and>
     region (free_part a) \<subseteq> (\<Union>b \<in> set bs. payload b) \<and>
     (\<forall>r \<in> set rs. unat (fst r) + unat (snd r) < 2 ^ 64 \<and> region r \<subseteq> (\<Union>b \<in> set bs. payload b) \<and> apart r (free_part a)) \<and>
     sorted_wrt apart rs"

section \<open>Carving\<close>

lemma padding_dvd: "0 < k \<Longrightarrow> k dvd (p + (k - p mod k) mod (k :: nat))"
  by (simp add: dvd_eq_mod_eq_0 mod_add_right_eq flip: add_diff_assoc)
    (metis add_diff_cancel_left' mod_add_left_eq mod_less_divisor mod_self nat_less_le le_add_diff_inverse)

lemma unat_padding:
  assumes "alignment \<noteq> 0"
  shows "unat (align_padding alignment p) = (unat alignment - unat p mod unat alignment) mod unat alignment"
proof -
  have "unat (p mod alignment) \<le> unat alignment"
    using assms by (simp add: unat_mod word_gt_0 flip: unat_gt_0)
  then show ?thesis by (simp add: align_padding_def unat_mod unat_diff_u64)
qed

lemma std_align_fit:
  assumes "std_align alignment bytes p space = (q, p', space')" "q \<noteq> 0" "alignment \<noteq> 0" "unat p + unat space < 2 ^ 64"
  shows "p' = q \<and> unat alignment dvd unat q \<and> unat p \<le> unat q \<and> unat q + unat space' = unat p + unat space \<and>
    unat bytes \<le> unat space'"
proof -
  let ?pad = "align_padding alignment p"
  from assms(1,2) have fits: "\<not> space < bytes" "\<not> space - bytes < ?pad" and q: "q = p + ?pad" "p' = q" "space' = space - ?pad"
    by (auto simp: std_align_def Let_def split: if_splits)
  have b: "unat bytes \<le> unat space" using fits(1) by (simp add: word_le_nat_alt not_less)
  then have pad: "unat ?pad \<le> unat space - unat bytes"
    using fits(2) unat_diff_u64[OF b] by (simp add: word_less_nat_alt not_less)
  then have u: "unat q = unat p + unat ?pad" "unat space' = unat space - unat ?pad"
    using q assms(4) b by (auto intro!: unat_add_u64 unat_diff_u64)
  have "0 < unat alignment" using assms(3) by (simp add: unat_gt_0)
  then have "unat alignment dvd unat q"
    using padding_dvd[of "unat alignment" "unat p"] u(1) unat_padding[OF assms(3), of p] by simp
  with u pad b q show ?thesis by auto
qed

lemma carve:
  assumes ok: "arena_ok bs a m rs" and q: "unat (next_ptr a) \<le> unat q" "q \<noteq> 0"
    "unat q + unat space \<le> unat (next_ptr a) + unat (remaining_size a)" "unat bytes \<le> unat space"
  shows "arena_ok bs (a\<lparr>next_ptr := q + bytes, remaining_size := space - bytes\<rparr>) m ((q, bytes) # rs)"
proof -
  have lim: "unat (next_ptr a) + unat (remaining_size a) < 2 ^ 64" using ok by (simp add: arena_ok_def)
  have u: "unat (q + bytes) = unat q + unat bytes" "unat (space - bytes) = unat space - unat bytes"
    using q lim by (auto intro!: unat_add_u64 unat_diff_u64)
  have sub: "region (q, bytes) \<subseteq> region (free_part a)" "region (q + bytes, space - bytes) \<subseteq> region (free_part a)"
    "apart (q, bytes) (q + bytes, space - bytes)"
    using q u by (auto simp: region_def free_part_def)
  have free: "apart r (free_part a)" if "r \<in> set rs" for r
    using ok that by (simp add: arena_ok_def)
  have "apart (q, bytes) r" if "r \<in> set rs" for r
    using free[OF that] sub(1) by blast
  moreover have "apart r (q + bytes, space - bytes)" if "r \<in> set rs" for r
    using free[OF that] sub(2) by blast
  moreover have "q + bytes \<noteq> 0" using u(1) q(2) by (metis add_is_0 unat_eq_zero)
  ultimately show ?thesis
    using ok sub u q lim by (auto simp: arena_ok_def free_part_def)
qed

section \<open>New blocks\<close>

lemma payload_region: "payload b \<subseteq> region b"
  by (auto simp: payload_def region_def)

lemma sum_block_sizes:
  assumes "sorted_wrt apart bs" "\<forall>b \<in> set bs. block_ok b"
  shows "sum_list (map (\<lambda>b. unat (snd b)) bs) = card (\<Union>b \<in> set bs. region b)"
  using assms
proof (induction bs)
  case (Cons b bs)
  then have "region b \<inter> (\<Union>c \<in> set bs. region c) = {}" by auto
  moreover have "finite (region c)" for c by (simp add: region_def)
  ultimately have "card (region b \<union> (\<Union>c \<in> set bs. region c)) = card (region b) + card (\<Union>c \<in> set bs. region c)"
    by (intro card_Un_disjoint) auto
  with Cons show ?case by (simp add: region_def)
qed simp

lemma sum_block_sizes_less:
  assumes "sorted_wrt apart bs" "\<forall>b \<in> set bs. block_ok b"
  shows "sum_list (map (\<lambda>b. unat (snd b)) bs) < 2 ^ 64"
proof -
  have "region b \<subseteq> {1 ..< 2 ^ 64}" if "b \<in> set bs" for b
  proof -
    have "0 < unat (fst b)" "unat (fst b) + unat (snd b) < 2 ^ 64"
      using assms(2) that by (auto simp: block_ok_def unat_gt_0)
    then show ?thesis by (auto simp: region_def)
  qed
  then have "(\<Union>b \<in> set bs. region b) \<subseteq> {1 ..< 2 ^ 64}" by blast
  then have "card (\<Union>b \<in> set bs. region b) \<le> card {1 ..< 2 ^ 64 :: nat}" by (intro card_mono) auto
  also have "\<dots> < 2 ^ 64" by simp
  finally show ?thesis using sum_block_sizes[OF assms] by simp
qed

text \<open>Only the headers of the blocks matter to the chain.\<close>

lemma block_chain_cong:
  "\<forall>b \<in> set bs. read_bytes mem (fst b) 8 = read_bytes mem' (fst b) 8 \<Longrightarrow> block_chain mem h bs = block_chain mem' h bs"
  by (induction bs arbitrary: h) (auto simp: load_word_def)

lemma header_span: "8 \<le> unat (snd b) \<Longrightarrow> span (fst b) 8 \<subseteq> region b"
  by (auto simp: span_def region_def)

lemma header_bounds: "block_ok b \<Longrightarrow> 8 \<le> unat (snd b) \<Longrightarrow> unat (fst b) + 8 \<le> 2 ^ 64"
  by (simp add: block_ok_def)

lemma headers_kept:
  assumes "\<forall>c \<in> set bs. block_ok c \<and> 8 \<le> unat (snd c) \<and> span (fst c) 8 \<inter> span x (length w) = {}"
    and "unat x + length w \<le> 2 ^ 64"
  shows "block_chain (write_bytes x w mem) h bs = block_chain mem h bs"
  using assms header_bounds by (intro block_chain_cong ballI read_write_other) auto

text \<open>A fresh block at the head, its payload as the free part.\<close>

definition with_block :: "u64 \<Rightarrow> u64 \<Rightarrow> u64 \<Rightarrow> memory_arena \<Rightarrow> memory_arena" where
  "with_block b n next_size a =
     \<lparr>next_ptr = b + 8, remaining_size = n - 8, next_block_size = next_size, head_block = b, total_size = total_size a + n\<rparr>"

lemma add_block:
  assumes ok: "arena_ok bs a m rs" and new: "block_ok (b, n)" "\<forall>c \<in> set (mem_live m). fst c \<noteq> b \<and> apart (b, n) c"
    and n: "8 \<le> unat n"
  shows "arena_ok ((b, n) # bs) (with_block b n k a)
      (m\<lparr>mem_live := (b, n) # mem_live m, mem_bytes := write_bytes b (word_bytes 8 (head_block a)) (mem_bytes m)\<rparr>) rs"
proof -
  have live: "set bs \<subseteq> set (mem_live m)" and m: "memory_ok m" using ok by (simp_all add: arena_ok_def)
  have fresh: "b \<notin> fst ` set bs" "\<forall>c \<in> set bs. apart (b, n) c" using new(2) live by auto
  have lim: "unat b + unat n < 2 ^ 64" using new(1) by (simp add: block_ok_def)
  have u: "unat (b + 8) = unat b + 8" "unat (n - 8) = unat n - 8"
    using lim n unat_add_u64[of b 8] unat_diff_u64[of 8 n] by simp_all
  then have free: "region (b + 8, n - 8) = payload (b, n)" using n by (auto simp: region_def payload_def)
  have sorted: "sorted_wrt apart ((b, n) # bs)" and blocks: "\<forall>c \<in> set ((b, n) # bs). block_ok c"
    using ok fresh new(1) live m by (auto simp: arena_ok_def memory_ok_def)
  from sum_block_sizes_less[OF sorted blocks] ok have total: "unat (total_size a + n) = sum_list (map (\<lambda>c. unat (snd c)) ((b, n) # bs))"
    by (subst unat_add_u64) (simp_all add: arena_ok_def)
  have "apart r (b + 8, n - 8)" if "r \<in> set rs" for r
  proof -
    have "region r \<subseteq> (\<Union>c \<in> set bs. payload c)" using ok that by (simp add: arena_ok_def)
    then have "region r \<subseteq> (\<Union>c \<in> set bs. region c)" using payload_region by blast
    moreover have "region (b + 8, n - 8) \<subseteq> region (b, n)" using free payload_region by simp
    ultimately show ?thesis using fresh(2) by blast
  qed
  moreover have "b + 8 \<noteq> 0" using u(1) by (metis add_is_0 unat_0 zero_neq_numeral)
  moreover have "unat (fst r) + unat (snd r) < 2 ^ 64 \<and> region r \<subseteq> (\<Union>c \<in> set ((b, n) # bs). payload c)"
    if "r \<in> set rs" for r using ok that by (auto simp: arena_ok_def)
  moreover have "memory_ok (m\<lparr>mem_live := (b, n) # mem_live m,
      mem_bytes := write_bytes b (word_bytes 8 (head_block a)) (mem_bytes m)\<rparr>)"
    using m new by (auto simp: memory_ok_def)
  moreover have "block_chain (write_bytes b (word_bytes 8 (head_block a)) (mem_bytes m)) b ((b, n) # bs)"
  proof -
    have "block_ok c \<and> 8 \<le> unat (snd c) \<and> span (fst c) 8 \<inter> span b 8 = {}" if "c \<in> set bs" for c
      using that ok blocks fresh(2) header_span[of c] header_span[of "(b, n)"] n by (fastforce simp: arena_ok_def)
    then have "block_chain (write_bytes b (word_bytes 8 (head_block a)) (mem_bytes m)) (head_block a) bs =
        block_chain (mem_bytes m) (head_block a) bs"
      using lim n by (intro headers_kept) simp_all
    with ok show ?thesis by (simp add: arena_ok_def load_word_write)
  qed
  moreover have "sorted_wrt apart rs" using ok by (simp add: arena_ok_def)
  moreover have "set ((b, n) # bs) \<subseteq> set ((b, n) # mem_live m)" "\<forall>c \<in> set ((b, n) # bs). 8 \<le> unat (snd c)"
    "distinct (map fst ((b, n) # bs))"
    using ok fresh(1) n by (auto simp: arena_ok_def)
  moreover have "unat (b + 8) + unat (n - 8) < 2 ^ 64" using u lim n by simp
  moreover have "region (b + 8, n - 8) \<subseteq> (\<Union>c \<in> set ((b, n) # bs). payload c)" using free by auto
  ultimately show ?thesis
    using total sorted by (simp add: arena_ok_def with_block_def free_part_def)
qed

section \<open>Allocation\<close>

text \<open>The alignments of the types that the arena holds.\<close>

definition small_alignment :: "u64 \<Rightarrow> bool" where
  "small_alignment alignment \<longleftrightarrow> alignment \<in> {1, 2, 4, 8}"

lemma small_alignment_dvd: "small_alignment alignment \<Longrightarrow> alignment \<noteq> 0 \<and> unat alignment dvd 8"
  by (auto simp: small_alignment_def)

lemma no_padding:
  assumes "alignment \<noteq> 0" "unat alignment dvd unat p"
  shows "align_padding alignment p = 0"
proof -
  have "unat (align_padding alignment p) = 0" using assms by (simp add: unat_padding)
  then show ?thesis by (simp add: unat_eq_zero)
qed

lemma block_bytes:
  assumes "unat bytes + 8 < 2 ^ 64"
  shows "unat bytes + 8 \<le> unat (max k (bytes + sizeof_block))"
proof -
  have "unat (bytes + sizeof_block) = unat bytes + 8"
    using assms unat_add_u64[of bytes 8] by (simp add: sizeof_block_def)
  then show ?thesis by (simp add: max_def word_le_nat_alt)
qed

lemma create_block_result:
  assumes new: "new_ok new" and ok: "arena_ok bs a m rs" and al: "small_alignment alignment" and n: "unat bytes + 8 < 2 ^ 64"
    and run: "create_block new bytes alignment a m = Inr (a', m')"
  obtains b k where "a' = with_block b k (next_block_size a + next_block_size a div 2) a"
    "m' = m\<lparr>mem_live := (b, k) # mem_live m, mem_bytes := write_bytes b (word_bytes 8 (head_block a)) (mem_bytes m)\<rparr>"
    "unat bytes + 8 \<le> unat k" "arena_ok ((b, k) # bs) a' m' rs" "unat alignment dvd unat (b + 8)" "unat (b + 8) = unat b + 8"
    "\<forall>c \<in> set (mem_live m). apart (b, k) c" "0 < unat b"
proof -
  define k where "k = max (next_block_size a) (bytes + sizeof_block)"
  have k: "unat bytes + 8 \<le> unat k" unfolding k_def by (rule block_bytes[OF n])
  from run obtain b where b: "new m k = Some b"
    by (auto simp: create_block_def new_block_def Let_def k_def split: option.splits sum.splits)
  with new have fresh: "block_ok (b, k)" "\<forall>c \<in> set (mem_live m). fst c \<noteq> b \<and> apart (b, k) c"
    by (auto simp: new_ok_def)
  have u: "unat (b + 8) = unat b + 8" "unat (k - 8) = unat k - 8"
    using fresh(1) k unat_add_u64[of b 8] unat_diff_u64[of 8 k] by (simp_all add: block_ok_def)
  have "16 dvd unat b" using fresh(1) by (simp add: block_ok_def)
  then have "8 dvd unat b + 8" by (metis dvd_add_left_iff dvd_refl dvd_trans dvd_triv_left mult_2 numeral_Bit0)
  with small_alignment_dvd[OF al] have dvd: "unat alignment dvd unat (b + 8)" using u(1) by (metis dvd_trans)
  have fits: "\<not> k - 8 < bytes" using k u(2) by (simp add: word_less_nat_alt)
  have "std_align alignment bytes (b + sizeof_block) (k - sizeof_block) = (b + 8, b + 8, k - 8)"
    using no_padding[OF _ dvd] small_alignment_dvd[OF al] fits by (simp add: std_align_def sizeof_block_def)
  then have a': "a' = with_block b k (next_block_size a + next_block_size a div 2) a"
    and m': "m' = m\<lparr>mem_live := (b, k) # mem_live m, mem_bytes := write_bytes b (word_bytes 8 (head_block a)) (mem_bytes m)\<rparr>"
    using run b by (auto simp: create_block_def new_block_def Let_def k_def[symmetric] with_block_def)
  have "arena_ok ((b, k) # bs) a' m' rs"
    unfolding a' m' by (rule add_block[OF ok fresh]) (use k in simp)
  with a' m' k dvd u fresh that show thesis by (auto simp: block_ok_def unat_gt_0)
qed

text \<open>Where the request does not fit, \<open>std::align\<close> leaves the pointer and the space alone.\<close>

lemma std_align_null:
  assumes st: "std_align alignment bytes p space = (0, p', space')" and lim: "unat p + unat space < 2 ^ 64"
  shows "p' = p \<and> space' = space"
proof (cases "space < bytes \<or> space - bytes < align_padding alignment p")
  case False
  then have "unat bytes \<le> unat space" by (simp add: word_less_nat_alt)
  then have "unat (align_padding alignment p) \<le> unat space"
    using False unat_diff_u64[of bytes space] by (simp add: word_less_nat_alt)
  then have "unat (p + align_padding alignment p) = unat p + unat (align_padding alignment p)"
    using lim by (intro unat_add_u64) simp
  moreover have "p + align_padding alignment p = 0" using st False by (simp add: std_align_def Let_def)
  ultimately have "p = 0" "align_padding alignment p = 0" by (simp_all add: unat_eq_zero)
  with st False show ?thesis by (simp add: std_align_def Let_def)
qed (use st in \<open>auto simp: std_align_def Let_def\<close>)

lemma allocate_result:
  assumes new: "new_ok new" and ok: "arena_ok bs a m rs" and al: "small_alignment alignment" and n: "unat bytes + 8 < 2 ^ 64"
    and run: "allocate new bytes alignment a m = Inr (p, a', m')"
  obtains bs' where "arena_ok bs' a' m' ((p, bytes) # rs)" "p \<noteq> 0" "unat alignment dvd unat p"
    "\<And>x. unat x \<in> (\<Union>r \<in> set rs. region r) \<Longrightarrow> mem_bytes m' x = mem_bytes m x"
    "\<exists>ns. bs' = ns @ bs \<and> mem_live m' = ns @ mem_live m"
proof -
  obtain q nx space where st: "std_align alignment bytes (next_ptr a) (remaining_size a) = (q, nx, space)"
    by (cases "std_align alignment bytes (next_ptr a) (remaining_size a)")
  note al1 = small_alignment_dvd[OF al]
  have lim: "unat (next_ptr a) + unat (remaining_size a) < 2 ^ 64" using ok by (simp add: arena_ok_def)
  show thesis
  proof (cases "q = 0")
    case False
    note fit = std_align_fit[OF st False conjunct1[OF al1] lim]
    have "arena_ok bs (a\<lparr>next_ptr := q + bytes, remaining_size := space - bytes\<rparr>) m ((q, bytes) # rs)"
      using fit False by (intro carve[OF ok]) auto
    moreover have "p = q" "m' = m" "a' = a\<lparr>next_ptr := q + bytes, remaining_size := space - bytes\<rparr>"
      using run st fit False by (auto simp: allocate_def Let_def)
    moreover have "\<exists>ns. bs = ns @ bs \<and> mem_live m = ns @ mem_live m" by simp
    ultimately show thesis using that fit False by blast
  next
    case True
    have "nx = next_ptr a \<and> space = remaining_size a" using std_align_null[OF st[unfolded True] lim] .
    then have same: "a\<lparr>next_ptr := nx, remaining_size := space\<rparr> = a" by simp
    from run st same True obtain a2 where run2: "create_block new bytes alignment a m = Inr (a2, m')"
      and p: "p = next_ptr a2" and a': "a' = a2\<lparr>next_ptr := next_ptr a2 + bytes, remaining_size := remaining_size a2 - bytes\<rparr>"
      by (auto simp: allocate_def Let_def split: sum.splits)
    show thesis
    proof (rule create_block_result[OF new ok al n run2])
      fix b k
      assume a2: "a2 = with_block b k (next_block_size a + next_block_size a div 2) a"
        and m': "m' = m\<lparr>mem_live := (b, k) # mem_live m, mem_bytes := write_bytes b (word_bytes 8 (head_block a)) (mem_bytes m)\<rparr>"
        and k: "unat bytes + 8 \<le> unat k" and ok2: "arena_ok ((b, k) # bs) a2 m' rs" and dvd: "unat alignment dvd unat (b + 8)"
        and u: "unat (b + 8) = unat b + 8" and ap: "\<forall>c \<in> set (mem_live m). apart (b, k) c" and b: "0 < unat b"
      have sel: "next_ptr a2 = b + 8" "remaining_size a2 = k - 8" by (simp_all add: a2 with_block_def)
      have "unat (k - 8) = unat k - 8" using k unat_diff_u64[of 8 k] by simp
      moreover have p0: "b + 8 \<noteq> 0" using u by (metis add_is_0 unat_0 zero_neq_numeral)
      ultimately have "arena_ok ((b, k) # bs) (a2\<lparr>next_ptr := (b + 8) + bytes, remaining_size := (k - 8) - bytes\<rparr>) m' ((b + 8, bytes) # rs)"
        using k sel by (intro carve[OF ok2]) auto
      moreover have "mem_bytes m' x = mem_bytes m x" if "unat x \<in> (\<Union>r \<in> set rs. region r)" for x
      proof -
        have "unat x \<in> (\<Union>c \<in> set bs. payload c)" using ok that by (fastforce simp: arena_ok_def)
        then have "unat x \<in> (\<Union>c \<in> set (mem_live m). region c)" using ok payload_region by (fastforce simp: arena_ok_def)
        moreover have "span b 8 \<subseteq> region (b, k)" "unat b + 8 \<le> 2 ^ 64"
          using k u unsigned_less[of "b + 8", where 'a = nat] by (auto simp: span_def region_def)
        ultimately show ?thesis using ap by (fastforce simp: m' intro: write_outside)
      qed
      moreover have "\<exists>ns. (b, k) # bs = ns @ bs \<and> mem_live m' = ns @ mem_live m" by (rule exI[of _ "[(b, k)]"]) (simp add: m')
      ultimately show thesis using that dvd p0 p a' sel by simp
    qed
  qed
qed

section \<open>Release\<close>

lemma release_loop_frees:
  assumes "block_chain (mem_bytes m) h bs" "set bs \<subseteq> set (mem_live m)" "\<forall>b \<in> set bs. fst b \<noteq> 0"
    "distinct (map fst bs)" "distinct (map fst (mem_live m))" "length bs \<le> n"
  shows "release_loop n h m = Some (Inr (m\<lparr>mem_live := filter (\<lambda>c. c \<notin> set bs) (mem_live m)\<rparr>))"
  using assms
proof (induction bs arbitrary: n h m)
  case Nil
  then show ?case by (simp add: release_loop.simps)
next
  case (Cons b bs)
  obtain k where n: "n = Suc k" "length bs \<le> k" using Cons.prems(6) by (cases n) auto
  define m1 where "m1 = m\<lparr>mem_live := filter (\<lambda>c. c \<noteq> b) (mem_live m)\<rparr>"
  have "(\<lambda>(c, k). c \<noteq> fst b) x \<longleftrightarrow> x \<noteq> b" if "x \<in> set (mem_live m)" for x
    using that Cons.prems(2,5) by (auto simp: distinct_map inj_on_def)
  then have "filter (\<lambda>(c, k). c \<noteq> fst b) (mem_live m) = filter (\<lambda>c. c \<noteq> b) (mem_live m)" by (rule filter_cong[OF refl])
  moreover have "fst b \<in> fst ` set (mem_live m)" using Cons.prems(2) by simp
  ultimately have del: "delete_block (fst b) m = Inr m1" by (simp add: delete_block_def m1_def)
  have "set bs \<subseteq> set (mem_live m1)" using Cons.prems(2,4) by (auto simp: m1_def)
  then have "release_loop k (load_word (mem_bytes m) h) m1 = Some (Inr (m1\<lparr>mem_live := filter (\<lambda>c. c \<notin> set bs) (mem_live m1)\<rparr>))"
    using Cons.prems n(2) by (intro Cons.IH) (auto simp: m1_def distinct_map_filter)
  moreover have "m1\<lparr>mem_live := filter (\<lambda>c. c \<notin> set bs) (mem_live m1)\<rparr> =
      m\<lparr>mem_live := filter (\<lambda>c. c \<notin> set (b # bs)) (mem_live m)\<rparr>"
    by (simp add: m1_def conj_commute)
  ultimately show ?case
    using Cons.prems(1,3) n(1) del by (simp add: release_loop.simps[of "Suc k" "fst b"])
qed

lemma release_result:
  assumes "arena_ok bs a m rs"
  shows "release a m = Some (Inr (a\<lparr>head_block := 0, total_size := 0\<rparr>,
    m\<lparr>mem_live := filter (\<lambda>c. c \<notin> set bs) (mem_live m)\<rparr>))"
proof -
  have "length bs = card (fst ` set bs)" using assms distinct_card[of "map fst bs"] by (simp add: arena_ok_def)
  also have "\<dots> \<le> card (fst ` set (mem_live m))" using assms by (intro card_mono image_mono) (auto simp: arena_ok_def)
  also have "\<dots> \<le> length (mem_live m)" using card_length[of "map fst (mem_live m)"] by simp
  finally have "release_loop (length (mem_live m)) (head_block a) m =
      Some (Inr (m\<lparr>mem_live := filter (\<lambda>c. c \<notin> set bs) (mem_live m)\<rparr>))"
    using assms by (intro release_loop_frees) (auto simp: arena_ok_def memory_ok_def block_ok_def)
  then show ?thesis by (simp add: release_def)
qed

section \<open>Properties\<close>

lemma apart_pair: "sorted_wrt apart xs \<Longrightarrow> b \<in> set xs \<Longrightarrow> c \<in> set xs \<Longrightarrow> b \<noteq> c \<Longrightarrow> apart b c"
  by (induction xs) auto

text \<open>An \<open>operator new\<close> that tries one address after the other, and an arena with one allocation.\<close>

definition bump_new :: operator_new where
  "bump_new m bytes =
     (let block = 4096 * word_of_nat (length (mem_live m) + 1)
      in if block_ok (block, bytes) \<and> (\<forall>b \<in> set (mem_live m). fst b \<noteq> block \<and> apart (block, bytes) b)
         then Some block else None)"

lemma bump_new_ok: "new_ok bump_new"
  by (auto simp: new_ok_def bump_new_def Let_def split: if_splits)

definition empty_memory :: memory where
  "empty_memory = \<lparr>mem_live = [], mem_bytes = (\<lambda>_. 0)\<rparr>"

definition used_arena :: memory_arena where
  "used_arena = \<lparr>next_ptr = 4112, remaining_size = 1008, next_block_size = 1536, head_block = 4096, total_size = 1024\<rparr>"

definition used_memory :: memory where
  "used_memory = \<lparr>mem_live = [(4096, 1024)], mem_bytes = (\<lambda>_. 0)\<rparr>"

text \<open>Writing nulls over nulls.\<close>

lemma write_zeros: "write_bytes x (word_bytes n (0 :: u64)) (\<lambda>_. 0) = (\<lambda>_. 0)" "write_bytes x (replicate n 0) (\<lambda>_. 0) = (\<lambda>_. 0)"
  by (auto simp: write_bytes_def word_bytes_def)

lemma load_zeros: "load_word (\<lambda>_. 0) x = 0"
  by (rule bit_eqI) (simp add: load_word_def bit_bytes_word read_bytes_def)

lemma arena_default_ok: "arena_ok [] arena_default empty_memory []"
  by (simp add: arena_ok_def memory_ok_def arena_default_def empty_memory_def free_part_def region_def)

lemma first_allocation: "allocate bump_new 8 8 arena_default empty_memory = Inr (4104, used_arena, used_memory)"
  by (simp add: allocate_def create_block_def new_block_def bump_new_def empty_memory_def arena_default_def
      std_align_def align_padding_def Let_def block_ok_def initial_block_size_def sizeof_block_def
      used_arena_def used_memory_def write_zeros)

lemma used_arena_ok: "arena_ok [(4096, 1024)] used_arena used_memory [(4104, 8)]"
  by (auto simp: arena_ok_def memory_ok_def used_arena_def used_memory_def free_part_def region_def payload_def block_ok_def load_zeros)

text \<open>Allocation fails only if the block it needs is refused.\<close>

lemma allocate_error:
  assumes "allocate new bytes alignment a m = Inl e"
  shows "e = Bad_alloc \<and> new m (max (next_block_size a) (bytes + sizeof_block)) = None"
  using assms
  by (auto simp: allocate_def create_block_def new_block_def Let_def split: sum.splits option.splits if_splits prod.splits)

text \<open>C11. Allocation with an alignment of 1, 2, 4 or 8, those of the compiler's types, throws only if \<open>operator new\<close> refuses the block.
  Otherwise the pointer is not null, it is aligned, and its region lies in a live block, away from
  every block header, from everything allocated before and from what is still free; bytes allocated
  before keep their contents.\<close>
theorem allocate_correct:
  assumes "new_ok new" "arena_ok bs a m rs" "small_alignment alignment" "unat bytes + 8 < 2 ^ 64"
  shows "case allocate new bytes alignment a m of
      Inl e \<Rightarrow> e = Bad_alloc \<and> new m (max (next_block_size a) (bytes + sizeof_block)) = None
    | Inr (p, a', m') \<Rightarrow>
        (\<exists>bs'. arena_ok bs' a' m' ((p, bytes) # rs)) \<and> p \<noteq> 0 \<and> unat alignment dvd unat p \<and>
        (\<forall>x. unat x \<in> (\<Union>r \<in> set rs. region r) \<longrightarrow> mem_bytes m' x = mem_bytes m x)"
proof (cases "allocate new bytes alignment a m")
  case (Inl e)
  with allocate_error[OF Inl] show ?thesis by simp
next
  case (Inr r)
  obtain p a' m' where r: "r = (p, a', m')" by (cases r)
  show ?thesis
  proof (rule allocate_result[OF assms Inr[unfolded r]])
    fix bs'
    assume "arena_ok bs' a' m' ((p, bytes) # rs)" "p \<noteq> 0" "unat alignment dvd unat p"
      "\<And>x. unat x \<in> (\<Union>r \<in> set rs. region r) \<Longrightarrow> mem_bytes m' x = mem_bytes m x"
    with Inr r show ?thesis by auto
  qed
qed

theorem allocate_correct_witness:
  "\<exists>bs'. arena_ok bs' used_arena used_memory [(4104, 8)]"
proof -
  have "small_alignment 8" by (simp add: small_alignment_def)
  from allocate_correct[OF bump_new_ok arena_default_ok this, of 8] first_allocation show ?thesis by simp
qed

text \<open>
  Bytes outside the headers of the arena do not matter to it, so a constructor that writes only into
  its own object leaves everything else in the arena as it is.
\<close>

lemma header_not_handed_out:
  assumes "arena_ok bs a m rs" "r \<in> set rs" "b \<in> set bs"
  shows "span (fst b) 8 \<inter> region r = {}"
proof -
  have size: "8 \<le> unat (snd b)" and sorted: "sorted_wrt apart bs" using assms by (simp_all add: arena_ok_def)
  have "span (fst b) 8 \<inter> payload c = {}" if "c \<in> set bs" for c
  proof (cases "c = b")
    case False
    then have "apart b c" using apart_pair[OF sorted assms(3) that] by simp
    then show ?thesis using header_span[OF size] payload_region by blast
  qed (auto simp: span_def payload_def)
  moreover have "region r \<subseteq> (\<Union>b \<in> set bs. payload b)" using assms(1,2) by (simp add: arena_ok_def)
  ultimately show ?thesis by blast
qed

lemma arena_create_ok:
  assumes "new_ok new" "arena_ok bs a m rs" "small_alignment alignof_T" "unat sizeof_T + 8 < 2 ^ 64"
    and own: "\<And>storage mem x. unat x \<notin> region (storage, sizeof_T) \<Longrightarrow> construct storage mem x = mem x"
    and run: "arena_create new sizeof_T alignof_T construct a m = Inr (p, a', m')"
  shows "(\<exists>bs'. arena_ok bs' a' m' ((p, sizeof_T) # rs)) \<and>
    (\<forall>x. unat x \<in> (\<Union>r \<in> set rs. region r) \<longrightarrow> mem_bytes m' x = mem_bytes m x)"
proof -
  from run obtain m1 where al: "allocate new sizeof_T alignof_T a m = Inr (p, a', m1)"
    and m': "m' = m1\<lparr>mem_bytes := construct p (mem_bytes m1)\<rparr>" by (auto simp: arena_create_def split: sum.splits)
  show ?thesis
  proof (rule allocate_result[OF assms(1-4) al])
    fix bs'
    assume ok: "arena_ok bs' a' m1 ((p, sizeof_T) # rs)"
      and keep: "\<And>x. unat x \<in> (\<Union>r \<in> set rs. region r) \<Longrightarrow> mem_bytes m1 x = mem_bytes m x"
    have "read_bytes (mem_bytes m') (fst b) 8 = read_bytes (mem_bytes m1) (fst b) 8" if b: "b \<in> set bs'" for b
    proof (rule read_bytes_cong)
      have "block_ok b \<and> 8 \<le> unat (snd b)" using b ok by (auto simp: arena_ok_def memory_ok_def)
      then show "unat (fst b) + 8 \<le> 2 ^ 64" using header_bounds by blast
      show "mem_bytes m' y = mem_bytes m1 y" if "unat y \<in> span (fst b) 8" for y
        using header_not_handed_out[OF ok _ b, of "(p, sizeof_T)"] that by (auto simp: m' intro!: own)
    qed
    then have "block_chain (mem_bytes m') (head_block a') bs' = block_chain (mem_bytes m1) (head_block a') bs'"
      by (intro block_chain_cong) simp
    with ok have "arena_ok bs' a' m' ((p, sizeof_T) # rs)" by (simp add: arena_ok_def memory_ok_def m')
    moreover have "mem_bytes m' x = mem_bytes m x" if "unat x \<in> (\<Union>r \<in> set rs. region r)" for x
    proof -
      have "\<forall>r \<in> set rs. apart (p, sizeof_T) r" using ok by (simp add: arena_ok_def)
      with that have "unat x \<notin> region (p, sizeof_T)" by blast
      with keep[OF that] show ?thesis by (simp add: m' own)
    qed
    ultimately show ?thesis by blast
  qed
qed

text \<open>A sequence of allocations, with the pointers they return.\<close>

fun allocate_all ::
    "operator_new \<Rightarrow> (u64 \<times> u64) list \<Rightarrow> memory_arena \<Rightarrow> memory \<Rightarrow> arena_error + u64 list \<times> memory_arena \<times> memory" where
  "allocate_all new [] a m = Inr ([], a, m)"
| "allocate_all new ((bytes, alignment) # reqs) a m =
     (case allocate new bytes alignment a m of
        Inl e \<Rightarrow> Inl e
      | Inr (p, a1, m1) \<Rightarrow>
          (case allocate_all new reqs a1 m1 of Inl e \<Rightarrow> Inl e | Inr (ps, a2, m2) \<Rightarrow> Inr (p # ps, a2, m2)))"

abbreviation requests_ok :: "(u64 \<times> u64) list \<Rightarrow> bool" where
  "requests_ok reqs \<equiv> list_all (\<lambda>(bytes, alignment). small_alignment alignment \<and> unat bytes + 8 < 2 ^ 64) reqs"

lemma allocate_all_error: "allocate_all new reqs a m = Inl e \<Longrightarrow> e = Bad_alloc"
  by (induction new reqs a m rule: allocate_all.induct) (auto dest!: allocate_error split: sum.splits)

lemma allocate_all_result:
  assumes "new_ok new" "requests_ok reqs" "arena_ok bs a m rs" "allocate_all new reqs a m = Inr (ps, a', m')"
  shows "length ps = length reqs \<and>
    (\<exists>ns. arena_ok (ns @ bs) a' m' (rev (zip ps (map fst reqs)) @ rs) \<and> mem_live m' = ns @ mem_live m)"
  using assms
proof (induction reqs arbitrary: bs a m rs ps)
  case (Cons req reqs)
  obtain bytes alignment where req: "req = (bytes, alignment)" by (cases req)
  from Cons.prems(4) req obtain p a1 m1 qs where al: "allocate new bytes alignment a m = Inr (p, a1, m1)"
    and rest: "allocate_all new reqs a1 m1 = Inr (qs, a', m')" and ps: "ps = p # qs" by (auto split: sum.splits)
  have "small_alignment alignment" "unat bytes + 8 < 2 ^ 64" using Cons.prems(2) req by simp_all
  from allocate_result[OF Cons.prems(1,3) this al] obtain bs1 ns where ok: "arena_ok bs1 a1 m1 ((p, bytes) # rs)"
    and ns: "bs1 = ns @ bs" "mem_live m1 = ns @ mem_live m" by metis
  have "requests_ok reqs" using Cons.prems(2) by simp
  from Cons.IH[OF Cons.prems(1) this ok rest] obtain ks where "length qs = length reqs"
    "arena_ok (ks @ bs1) a' m' (rev (zip qs (map fst reqs)) @ (p, bytes) # rs)" "mem_live m' = ks @ mem_live m1" by blast
  then show ?case using ns ps req by (auto intro!: exI[of _ "ks @ ns"])
qed (auto intro: exI[of _ "[]"])

lemma sorted_wrt_rev_apart: "sorted_wrt apart (rev xs) \<longleftrightarrow> sorted_wrt apart xs"
  by (simp add: sorted_wrt_rev Int_commute)

lemma arena_init_ok: "memory_ok m \<Longrightarrow> arena_ok [] (arena_init k) m []"
  by (simp add: arena_ok_def arena_init_def arena_default_def free_part_def region_def)

lemma destroy_own_blocks:
  assumes ok: "arena_ok bs a m' rs" and live: "mem_live m' = bs @ mem_live m"
  shows "arena_destroy a m' = Some (Inr (a\<lparr>head_block := 0, total_size := 0\<rparr>, m'\<lparr>mem_live := mem_live m\<rparr>))"
proof -
  have "distinct (map fst (mem_live m'))" using ok by (simp add: arena_ok_def memory_ok_def)
  then have "filter (\<lambda>c. c \<notin> set bs) (mem_live m') = mem_live m"
    unfolding live by (auto simp: distinct_map filter_id_conv)
  with release_result[OF ok] show ?thesis by (simp add: arena_destroy_def)
qed

text \<open>C10. The life of an arena, in a memory where other blocks are live: after any sequence of allocations with
  alignments of 1, 2, 4 or 8 and sizes that leave room for a header below 2^64, its pointers are to regions that do not overlap, the total it reports is the sum of the sizes of its blocks,
  headers included, without wrap-around, and its destructor terminates and frees exactly its own
  blocks. Only a refused block makes an allocation throw.\<close>
theorem arena_lifetime:
  assumes "new_ok new" "requests_ok reqs" "memory_ok m"
  shows "case allocate_all new reqs (arena_init initial_size) m of
      Inl e \<Rightarrow> e = Bad_alloc
    | Inr (ps, a', m') \<Rightarrow>
        length ps = length reqs \<and> sorted_wrt apart (zip ps (map fst reqs)) \<and>
        (\<exists>bs a'' m''. mem_live m' = bs @ mem_live m \<and> unat (get_total_size a') = (\<Sum>b\<leftarrow>bs. unat (snd b)) \<and>
           arena_destroy a' m' = Some (Inr (a'', m'')) \<and> mem_live m'' = mem_live m)"
proof (cases "allocate_all new reqs (arena_init initial_size) m")
  case (Inl e)
  with allocate_all_error[OF Inl] show ?thesis by simp
next
  case (Inr r)
  obtain ps a' m' where r: "r = (ps, a', m')" by (cases r)
  from allocate_all_result[OF assms(1,2) arena_init_ok[OF assms(3)] Inr[unfolded r]]
  obtain bs where len: "length ps = length reqs" and ok: "arena_ok bs a' m' (rev (zip ps (map fst reqs)))"
    and live: "mem_live m' = bs @ mem_live m" by auto
  note destroy_own_blocks[OF ok live]
  moreover have "sorted_wrt apart (zip ps (map fst reqs))" "unat (get_total_size a') = (\<Sum>b\<leftarrow>bs. unat (snd b))"
    using ok by (simp_all add: arena_ok_def sorted_wrt_rev_apart get_total_size_def)
  ultimately show ?thesis using Inr r len live by simp
qed

theorem arena_lifetime_witness:
  "\<exists>a'' m''. arena_destroy used_arena used_memory = Some (Inr (a'', m'')) \<and> mem_live m'' = []"
proof -
  have "allocate_all bump_new [(8, 8)] (arena_init 1024) empty_memory = Inr ([4104], used_arena, used_memory)"
    using first_allocation by (simp add: arena_init_def arena_default_def initial_block_size_def)
  moreover have "memory_ok empty_memory" by (simp add: memory_ok_def empty_memory_def)
  ultimately show ?thesis
    using arena_lifetime[OF bump_new_ok, of "[(8, 8)]" empty_memory 1024]
    by (simp add: small_alignment_def empty_memory_def)
qed

text \<open>C33. Move assignment between two arenas of one memory frees exactly the blocks of the target; the target then
  has everything of the source, which is left empty and can be used again.\<close>
theorem arena_move_assign_correct:
  assumes "arena_ok bs this m rs" "arena_ok bs' other m rs'" "set bs \<inter> set bs' = {}"
  shows "\<exists>this' other' m'. arena_move_assign this other m = Some (Inr (this', other', m')) \<and>
    mem_live m' = filter (\<lambda>c. c \<notin> set bs) (mem_live m) \<and> arena_ok bs' this' m' rs' \<and> arena_ok [] other' m' []"
proof -
  let ?m = "m\<lparr>mem_live := filter (\<lambda>c. c \<notin> set bs) (mem_live m)\<rparr>"
  have "memory_ok ?m" using assms(1) by (auto simp: arena_ok_def memory_ok_def sorted_wrt_filter distinct_map_filter)
  moreover have "set bs' \<subseteq> set (mem_live ?m)" using assms(2,3) by (auto simp: arena_ok_def)
  ultimately have "arena_ok bs' other ?m rs'" "arena_ok [] arena_default ?m []"
    using assms(2) arena_init_ok[of ?m initial_block_size]
    by (simp_all add: arena_ok_def arena_init_def arena_default_def)
  then show ?thesis using release_result[OF assms(1)] by (simp add: arena_move_assign_def)
qed

theorem arena_move_assign_correct_witness:
  "\<exists>this' other' m'. arena_move_assign used_arena arena_default used_memory = Some (Inr (this', other', m')) \<and> mem_live m' = []"
proof -
  have "arena_ok [] arena_default used_memory []"
    using used_arena_ok arena_init_ok[of used_memory initial_block_size] by (simp add: arena_ok_def arena_init_def arena_default_def)
  from arena_move_assign_correct[OF used_arena_ok this] show ?thesis by (auto simp: used_memory_def)
qed

text \<open>C34. \<open>release\<close> keeps the pointer into the block it has freed: if the request fits what was left of that block,
  the next allocation returns memory that no live block holds.\<close>
theorem allocate_after_release:
  assumes "arena_ok bs a m rs" "0 < bytes" "bytes \<le> remaining_size a"
  shows "\<exists>a' m'. release a m = Some (Inr (a', m')) \<and>
    (\<exists>a''. allocate new bytes 1 a' m' = Inr (next_ptr a, a'', m')) \<and>
    region (next_ptr a, bytes) \<inter> (\<Union>b \<in> set (mem_live m'). region b) = {}"
proof -
  let ?a = "a\<lparr>head_block := 0, total_size := 0\<rparr>" and ?m = "m\<lparr>mem_live := filter (\<lambda>c. c \<notin> set bs) (mem_live m)\<rparr>"
  have "next_ptr a \<noteq> 0" using assms by (auto simp: arena_ok_def)
  moreover have "align_padding 1 (next_ptr a) = 0" by (simp add: align_padding_def)
  ultimately have "std_align 1 bytes (next_ptr ?a) (remaining_size ?a) = (next_ptr a, next_ptr a, remaining_size a)"
    using assms(3) by (simp add: std_align_def not_less)
  then have "\<exists>a''. allocate new bytes 1 ?a ?m = Inr (next_ptr a, a'', ?m)"
    using \<open>next_ptr a \<noteq> 0\<close> by (simp add: allocate_def)
  moreover have "region (next_ptr a, bytes) \<inter> region c = {}" if "c \<in> set (mem_live m)" "c \<notin> set bs" for c
  proof -
    have "region (next_ptr a, bytes) \<subseteq> region (free_part a)"
      using assms(3) by (auto simp: region_def free_part_def word_le_nat_alt)
    then have sub: "region (next_ptr a, bytes) \<subseteq> (\<Union>b \<in> set bs. region b)"
      using assms(1) payload_region unfolding arena_ok_def by blast
    have pairs: "b \<noteq> c \<Longrightarrow> apart b c" if "b \<in> set (mem_live m)" for b
      using assms(1) apart_pair[OF _ that \<open>c \<in> set (mem_live m)\<close>] by (simp add: arena_ok_def memory_ok_def)
    have "apart b c" if "b \<in> set bs" for b
    proof (rule pairs)
      show "b \<in> set (mem_live m)" using that assms(1) by (auto simp: arena_ok_def)
      show "b \<noteq> c" using that \<open>c \<notin> set bs\<close> by blast
    qed
    then show ?thesis using sub by blast
  qed
  ultimately show ?thesis using release_result[OF assms(1)] by auto
qed

theorem allocate_after_release_witness:
  "\<exists>a' m'. release used_arena used_memory = Some (Inr (a', m')) \<and>
    (\<exists>a''. allocate bump_new 8 1 a' m' = Inr (4112, a'', m'))"
  using allocate_after_release[OF used_arena_ok, of 8 bump_new] by (auto simp: used_arena_def)

text \<open>C35. An alignment of 16 and a request that fills the block: the header moves the payload off the alignment,
  the padding does not fit, and the first allocation of an arena returns null, not an aligned pointer.\<close>
theorem allocate_overaligned_null:
  assumes "new_ok new" "new m (bytes + 8) = Some block" "1016 \<le> unat bytes" "unat bytes + 8 < 2 ^ 64"
  shows "\<exists>a' m'. allocate new bytes 16 arena_default m = Inr (0, a', m')"
proof -
  have "block_ok (block, bytes + 8)" using assms(1,2) by (auto simp: new_ok_def)
  then have b: "16 dvd unat block" "unat block + unat (bytes + 8) < 2 ^ 64" by (simp_all add: block_ok_def)
  have u: "unat (bytes + 8) = unat bytes + 8" using assms(4) unat_add_u64[of bytes 8] by simp
  then have ub: "unat (block + 8) = unat block + 8" using b(2) unat_add_u64[of block 8] by simp
  have size: "max initial_block_size (bytes + sizeof_block) = bytes + 8"
    using assms(3) u by (simp add: initial_block_size_def sizeof_block_def max_def word_le_nat_alt)
  have "unat (block + 8) mod 16 = 8" using b(1) ub by (auto elim!: dvdE)
  then have "unat (align_padding 16 (block + 8)) = 8" by (subst unat_padding) simp_all
  then have pad: "align_padding 16 (block + 8) = 8" by (simp add: word_unat_eq_iff)
  have "0 < bytes" using assms(3) by (simp add: word_less_nat_alt)
  then have "std_align 16 bytes 0 0 = (0, 0, 0)" by (simp add: std_align_def)
  moreover have "std_align 16 bytes (block + sizeof_block) (bytes + 8 - sizeof_block) = (0, block + 8, bytes)"
    by (simp add: std_align_def sizeof_block_def pad)
  ultimately show ?thesis
    using assms(2) size by (simp add: allocate_def create_block_def new_block_def arena_default_def Let_def)
qed

theorem allocate_overaligned_null_witness:
  "\<exists>a' m'. allocate bump_new 1016 16 arena_default empty_memory = Inr (0, a', m')"
  by (rule allocate_overaligned_null[OF bump_new_ok, where block = 4096])
    (simp_all add: bump_new_def empty_memory_def block_ok_def)

end
