(* ===== verification/Arena_Array.thy ===== *)
theory Arena_Array
  imports Memory_Arena
begin

text \<open>
  \<open>util::ArenaArray\<close> (\<open>src/cero/util/memory_arena.hh\<close>) for elements of 8 bytes: \<open>NodeList\<close> is an
  array of pointers. The locale \<open>arena_storage\<close> states what the array needs of the arena, the
  interpretation shows that \<^const>\<open>allocate\<close> gives it, and the array refines a list.
\<close>

section \<open>Arrays\<close>

record arena_array =
  arr_data :: u64
  arr_count :: u32
  arr_capacity :: u32

definition initial_capacity :: u64 where
  "initial_capacity = 4"

definition array_default :: arena_array where
  "array_default = \<lparr>arr_data = 0, arr_count = 0, arr_capacity = 0\<rparr>"

text \<open>
  \<open>put\<close>, with the operations on the arena and its memory as arguments: \<open>bytes\<close> is the content of the
  memory, \<open>write_at\<close> writes a sequence of bytes.
\<close>

definition array_memcpy ::
    "('s \<Rightarrow> byte_memory) \<Rightarrow> (u64 \<Rightarrow> u8 list \<Rightarrow> 's \<Rightarrow> 's) \<Rightarrow> nat \<Rightarrow> u64 \<Rightarrow> u64 \<Rightarrow> 's \<Rightarrow> 's" where
  "array_memcpy bytes write_at n dst src st = write_at dst (read_bytes (bytes st) src n) st"

definition array_put ::
    "(u64 \<Rightarrow> u64 \<Rightarrow> 's \<Rightarrow> arena_error + u64 \<times> 's) \<Rightarrow> ('s \<Rightarrow> byte_memory) \<Rightarrow> (u64 \<Rightarrow> u8 list \<Rightarrow> 's \<Rightarrow> 's) \<Rightarrow>
     u64 \<Rightarrow> arena_array \<Rightarrow> 's \<Rightarrow> arena_error + arena_array \<times> 's" where
  "array_put alloc bytes write_at value arr st =
     (case
        (if arr_count arr = arr_capacity arr then
           (let new_cap = max (ucast (arr_capacity arr) + ucast (arr_capacity arr div 2)) initial_capacity
            in case alloc (new_cap * 8) 8 st of
                 Inl e \<Rightarrow> Inl e
               | Inr (storage, st1) \<Rightarrow>
                   Inr (arr\<lparr>arr_data := storage, arr_capacity := ucast new_cap\<rparr>,
                        array_memcpy bytes write_at (unat (arr_count arr) * 8) storage (arr_data arr) st1))
         else Inr (arr, st)) of
        Inl e \<Rightarrow> Inl e
      | Inr (arr1, st1) \<Rightarrow>
          Inr (arr1\<lparr>arr_count := arr_count arr1 + 1\<rparr>,
               write_at (arr_data arr1 + 8 * ucast (arr_count arr1)) (word_bytes 8 value) st1))"

text \<open>The elements between \<open>begin\<close> and \<open>end\<close>.\<close>

definition array_begin :: "arena_array \<Rightarrow> u64" where
  "array_begin arr = arr_data arr"

definition array_end :: "arena_array \<Rightarrow> u64" where
  "array_end arr = arr_data arr + 8 * ucast (arr_count arr)"

definition element_at :: "arena_array \<Rightarrow> nat \<Rightarrow> u64" where
  "element_at arr i = arr_data arr + 8 * word_of_nat i"

definition array_elements :: "('s \<Rightarrow> byte_memory) \<Rightarrow> arena_array \<Rightarrow> 's \<Rightarrow> u64 list" where
  "array_elements bytes arr st = map (\<lambda>i. load_word (bytes st) (element_at arr i)) [0 ..< unat (arr_count arr)]"

section \<open>Addresses\<close>

definition array_region :: "arena_array \<Rightarrow> u64 \<times> u64" where
  "array_region arr = (arr_data arr, ucast (arr_capacity arr) * 8)"

definition array_ok :: "arena_array \<Rightarrow> (u64 \<times> u64) list \<Rightarrow> bool" where
  "array_ok arr rs \<longleftrightarrow>
     arr_count arr \<le> arr_capacity arr \<and> (arr_capacity arr = 0 \<or> array_region arr \<in> set rs)"

lemma unat_u32_less: "unat (w :: u32) < 2 ^ 32"
  using unsigned_less[of w, where 'a = nat] by simp

lemma unat_ucast_u32: "unat (ucast (w :: u32) :: u64) = unat w"
  using unat_u32_less[of w] by (simp add: unsigned_ucast_eq take_bit_nat_eq_self)

lemma unat_times_8: "unat (w :: u64) < 2 ^ 61 \<Longrightarrow> unat (w * 8) = unat w * 8"
  by (subst unat_mult_lem[THEN iffD1]) simp_all

lemma unat_capacity_bytes: "unat (ucast (w :: u32) * 8 :: u64) = unat w * 8"
  using unat_u32_less[of w] by (subst unat_times_8) (simp_all add: unat_ucast_u32)

lemma word_of_nat_unat_u32: "(word_of_nat (unat (w :: u32)) :: u64) = ucast w"
  using unat_u32_less[of w] by (simp only: word_unat_eq_iff unat_ucast_u32) (rule unat_of_nat_u64, simp)

lemma unat_element:
  assumes "unat d + n * 8 < 2 ^ 64" "i < n"
  shows "unat (d + 8 * word_of_nat i :: u64) = unat d + 8 * i"
proof -
  have "i < 2 ^ 61" using assms by (simp add: field_simps)
  then have "unat (word_of_nat i * 8 :: u64) = 8 * i" by (subst unat_times_8) (simp_all add: unat_of_nat_u64)
  then show ?thesis using assms unat_add_u64[of d "word_of_nat i * 8"] by (simp add: mult.commute)
qed

section \<open>What an array needs of an arena\<close>

locale arena_storage =
  fixes alloc :: "u64 \<Rightarrow> u64 \<Rightarrow> 's \<Rightarrow> arena_error + u64 \<times> 's"
    and bytes :: "'s \<Rightarrow> byte_memory"
    and write_at :: "u64 \<Rightarrow> u8 list \<Rightarrow> 's \<Rightarrow> 's"
    and holds :: "'s \<Rightarrow> (u64 \<times> u64) list \<Rightarrow> bool"
  assumes alloc_fresh: "holds st rs \<Longrightarrow> small_alignment al \<Longrightarrow> unat n + 8 < 2 ^ 64 \<Longrightarrow> alloc n al st = Inr (p, st') \<Longrightarrow>
      holds st' ((p, n) # rs) \<and> (\<forall>x. unat x \<in> (\<Union>r \<in> set rs. region r) \<longrightarrow> bytes st' x = bytes st x)"
    and write_holds: "holds st rs \<Longrightarrow> r \<in> set rs \<Longrightarrow> span x (length w) \<subseteq> region r \<Longrightarrow> unat x + length w \<le> 2 ^ 64 \<Longrightarrow>
      holds (write_at x w st) rs"
    and bytes_write: "bytes (write_at x w st) = write_bytes x w (bytes st)"
    and regions_apart: "holds st rs \<Longrightarrow> sorted_wrt apart rs"
    and regions_fit: "holds st rs \<Longrightarrow> r \<in> set rs \<Longrightarrow> unat (fst r) + unat (snd r) < 2 ^ 64"
begin

lemma element_in_region:
  assumes "holds st rs" "(d, n) \<in> set rs" "k * 8 \<le> unat n" "i < k"
  shows "unat (d + 8 * word_of_nat i) = unat d + 8 * i" "span (d + 8 * word_of_nat i) 8 \<subseteq> region (d, n)"
    "unat (d + 8 * word_of_nat i) + 8 \<le> 2 ^ 64"
proof -
  have lim: "unat d + unat n < 2 ^ 64" using regions_fit[OF assms(1,2)] by simp
  then have "unat d + k * 8 < 2 ^ 64" using assms(3) by simp
  then show u: "unat (d + 8 * word_of_nat i) = unat d + 8 * i" using assms(4) by (rule unat_element)
  show "span (d + 8 * word_of_nat i) 8 \<subseteq> region (d, n)" "unat (d + 8 * word_of_nat i) + 8 \<le> 2 ^ 64"
    unfolding span_def u using assms(3,4) lim by (auto simp: region_def)
qed

text \<open>Elements at different indices do not overlap.\<close>

lemma elements_within:
  assumes "holds st rs" "array_ok arr rs" "i < unat (arr_capacity arr)"
  shows "unat (element_at arr i) = unat (arr_data arr) + 8 * i" "span (element_at arr i) 8 \<subseteq> region (array_region arr)"
    "unat (element_at arr i) + 8 \<le> 2 ^ 64"
proof -
  have r: "(arr_data arr, ucast (arr_capacity arr) * 8) \<in> set rs"
    using assms(2,3) by (auto simp: array_ok_def array_region_def)
  have c: "unat (arr_capacity arr) * 8 \<le> unat (ucast (arr_capacity arr) * 8 :: u64)" by (simp add: unat_capacity_bytes)
  show "unat (element_at arr i) = unat (arr_data arr) + 8 * i" "span (element_at arr i) 8 \<subseteq> region (array_region arr)"
    "unat (element_at arr i) + 8 \<le> 2 ^ 64"
    unfolding element_at_def array_region_def using element_in_region[OF assms(1) r c assms(3)] by simp_all
qed

lemma elements_apart_indices:
  assumes "holds st rs" "array_ok arr rs" "i < unat (arr_capacity arr)" "j < unat (arr_capacity arr)" "i \<noteq> j"
  shows "span (element_at arr i) 8 \<inter> span (element_at arr j) 8 = {}"
  unfolding span_def elements_within(1)[OF assms(1-3)] elements_within(1)[OF assms(1,2,4)] using assms(5) by auto

lemma load_word_cong:
  assumes "unat x + 8 \<le> 2 ^ 64" "\<And>y. unat y \<in> span x 8 \<Longrightarrow> mem y = mem' y"
  shows "load_word mem x = load_word mem' x"
  unfolding load_word_def using read_bytes_cong[of x 8 mem mem'] assms by simp

text \<open>One element more, at the end; no other byte that was allocated changes.\<close>

lemma put_in_place:
  assumes st: "holds st rs" and arr: "array_ok arr rs" and room: "unat (arr_count arr) < unat (arr_capacity arr)"
    and arr': "arr' = arr\<lparr>arr_count := arr_count arr + 1\<rparr>"
    and st': "st' = write_at (arr_data arr + 8 * ucast (arr_count arr)) (word_bytes 8 value) st"
  shows "holds st' rs \<and> array_ok arr' rs \<and> array_elements bytes arr' st' = array_elements bytes arr st @ [value] \<and>
    (\<forall>x. unat x \<notin> region (array_region arr) \<longrightarrow> bytes st' x = bytes st x)"
proof -
  let ?k = "unat (arr_count arr)"
  have r: "array_region arr \<in> set rs" using arr room by (auto simp: array_ok_def)
  have last: "arr_data arr + 8 * ucast (arr_count arr) = element_at arr ?k"
    by (simp add: element_at_def word_of_nat_unat_u32)
  note el = elements_within[OF st arr]
  have count: "unat (arr_count arr + 1) = Suc ?k"
    using room unat_u32_less[of "arr_capacity arr"] by (subst unat_plus_if') simp
  have "load_word (bytes st') (element_at arr i) = load_word (bytes st) (element_at arr i)" if "i < ?k" for i
    unfolding load_word_def st' last bytes_write
    using el(3)[of i] el(3)[OF room] elements_apart_indices[OF st arr _ room, of i] that room
    by (subst read_write_other) simp_all
  moreover have "load_word (bytes st') (element_at arr ?k) = value"
    unfolding st' last bytes_write by (rule load_word_write)
  ultimately have "array_elements bytes arr' st' = array_elements bytes arr st @ [value]"
    unfolding array_elements_def arr' by (simp add: count element_at_def)
  moreover have "holds st' rs" unfolding st' last using el(2,3)[OF room] by (intro write_holds[OF st r]) simp_all
  moreover have "array_ok arr' rs"
    using arr room count by (simp add: array_ok_def arr' array_region_def word_le_nat_alt)
  moreover have "bytes st' x = bytes st x" if "unat x \<notin> region (array_region arr)" for x
    unfolding st' last bytes_write using el(2,3)[OF room] that by (intro write_outside) auto
  ultimately show ?thesis by blast
qed

text \<open>A full array moves into storage of a larger capacity.\<close>

lemma grow_result:
  assumes st: "holds st rs" and arr: "array_ok arr rs" and full: "arr_count arr = arr_capacity arr"
    and cap: "unat (cap :: u64) < 2 ^ 32" "unat (arr_count arr) < unat cap" and al: "alloc (cap * 8) 8 st = Inr (p, st1)"
    and arr2: "arr2 = arr\<lparr>arr_data := p, arr_capacity := ucast cap\<rparr>"
    and st2: "st2 = array_memcpy bytes write_at (unat (arr_count arr) * 8) p (arr_data arr) st1"
  shows "holds st2 ((p, cap * 8) # rs) \<and> array_ok arr2 ((p, cap * 8) # rs) \<and> array_region arr2 = (p, cap * 8) \<and>
    unat (arr_count arr2) < unat (arr_capacity arr2) \<and> array_elements bytes arr2 st2 = array_elements bytes arr st \<and>
    (\<forall>x. unat x \<in> (\<Union>r \<in> set rs. region r) \<longrightarrow> bytes st2 x = bytes st x \<and> unat x \<notin> region (p, cap * 8))"
proof -
  let ?k = "unat (arr_count arr)"
  have narrow: "unat (ucast cap :: u32) = unat cap" using cap(1) by (simp add: unsigned_ucast_eq take_bit_nat_eq_self)
  have bytes8: "unat (cap * 8) = unat cap * 8" using cap(1) by (intro unat_times_8) simp
  have "holds st1 ((p, cap * 8) # rs) \<and> (\<forall>x. unat x \<in> (\<Union>r \<in> set rs. region r) \<longrightarrow> bytes st1 x = bytes st x)"
    using bytes8 cap(1) by (intro alloc_fresh[OF st _ _ al]) (simp_all add: small_alignment_def)
  then have st1: "holds st1 ((p, cap * 8) # rs)" and keep: "\<And>x. unat x \<in> (\<Union>r \<in> set rs. region r) \<Longrightarrow> bytes st1 x = bytes st x"
    by blast+
  have fresh: "unat x \<notin> region (p, cap * 8)" if "unat x \<in> (\<Union>r \<in> set rs. region r)" for x :: u64
    using regions_apart[OF st1] that by auto
  have arr1: "array_ok arr ((p, cap * 8) # rs)" using arr by (auto simp: array_ok_def)
  have fits: "?k * 8 \<le> unat (cap * 8)" "unat p + unat (cap * 8) < 2 ^ 64"
    using cap(2) bytes8 regions_fit[OF st1, of "(p, cap * 8)"] by simp_all
  let ?w = "read_bytes (bytes st1) (arr_data arr) (?k * 8)"
  have mem2: "bytes st2 = write_bytes p ?w (bytes st1)" by (simp add: st2 array_memcpy_def bytes_write)
  have copied: "holds st2 ((p, cap * 8) # rs)"
    unfolding st2 array_memcpy_def
    using fits by (intro write_holds[OF st1, of "(p, cap * 8)"]) (auto simp: span_def region_def)
  have unchanged: "bytes st2 x = bytes st1 x" if "unat x \<notin> region (p, cap * 8)" for x
    unfolding mem2 using fits that by (intro write_outside) (auto simp: span_def region_def)
  have same: "load_word (bytes st2) (p + 8 * word_of_nat i) = load_word (bytes st) (arr_data arr + 8 * word_of_nat i)"
    if "i < ?k" for i
  proof -
    have i8: "(word_of_nat (i * 8) :: u64) = 8 * word_of_nat i" by simp
    have "read_bytes (bytes st2) (p + word_of_nat (i * 8)) 8 = take 8 (drop (i * 8) (read_bytes (bytes st2) p (?k * 8)))"
      using that by (intro read_bytes_part) simp
    also have "read_bytes (bytes st2) p (?k * 8) = ?w"
      unfolding mem2 using fits by (intro read_write_same) simp_all
    also have "take 8 (drop (i * 8) ?w) = read_bytes (bytes st1) (arr_data arr + word_of_nat (i * 8)) 8"
      using that by (intro read_bytes_part[symmetric]) simp
    also have "\<dots> = read_bytes (bytes st) (arr_data arr + word_of_nat (i * 8)) 8"
    proof (rule read_bytes_cong)
      note el = elements_within[OF st arr, of i, unfolded element_at_def]
      show "unat (arr_data arr + word_of_nat (i * 8)) + 8 \<le> 2 ^ 64" using el(3) that full unfolding i8 by simp
      show "bytes st1 y = bytes st y" if "unat y \<in> span (arr_data arr + word_of_nat (i * 8)) 8" for y
        using el(2) that \<open>i < ?k\<close> full arr unfolding i8 by (intro keep) (auto simp: array_ok_def)
    qed
    finally show ?thesis unfolding i8 by (simp only: load_word_def)
  qed
  have region: "array_region arr2 = (p, cap * 8)"
    using narrow by (simp add: array_region_def arr2 word_unat_eq_iff unat_capacity_bytes bytes8)
  moreover have "array_ok arr2 ((p, cap * 8) # rs)"
    using region cap(2) narrow by (simp add: array_ok_def arr2 word_le_nat_alt)
  moreover have "array_elements bytes arr2 st2 = array_elements bytes arr st"
    using same by (simp add: array_elements_def element_at_def arr2)
  ultimately show ?thesis using copied unchanged fresh keep cap(2) narrow by (simp add: arr2)
qed

lemma grown_capacity:
  assumes "unat (k :: u32) < 2 ^ 31"
  shows "unat (max (ucast k + ucast (k div 2)) initial_capacity) = max (unat k + unat k div 2) 4"
proof -
  have "unat (ucast k + ucast (k div 2) :: u64) = unat k + unat k div 2"
    using assms by (subst unat_add_u64) (simp_all add: unat_ucast_u32 unat_div)
  then show ?thesis by (auto simp: max_def initial_capacity_def word_le_nat_alt)
qed

lemma put_result:
  assumes st: "holds st rs" and arr: "array_ok arr rs" and few: "unat (arr_count arr) < 2 ^ 31"
    and run: "array_put alloc bytes write_at value arr st = Inr (arr', st')"
  shows "\<exists>rs'. holds st' rs' \<and> set rs \<subseteq> set rs' \<and> array_ok arr' rs' \<and> arr_capacity arr' \<noteq> 0 \<and>
    (array_region arr' = array_region arr \<and> arr_capacity arr \<noteq> 0 \<or> (\<forall>r \<in> set rs. apart (array_region arr') r)) \<and>
    array_elements bytes arr' st' = array_elements bytes arr st @ [value] \<and>
    (\<forall>x. unat x \<in> (\<Union>r \<in> set rs. region r) \<and> unat x \<notin> region (array_region arr) \<longrightarrow> bytes st' x = bytes st x)"
proof (cases "arr_count arr = arr_capacity arr")
  case False
  then have room: "unat (arr_count arr) < unat (arr_capacity arr)"
    using arr by (auto simp: array_ok_def word_le_nat_alt le_less word_unat_eq_iff)
  from run False have eq: "arr' = arr\<lparr>arr_count := arr_count arr + 1\<rparr>"
    "st' = write_at (arr_data arr + 8 * ucast (arr_count arr)) (word_bytes 8 value) st" by (auto simp: array_put_def)
  have "array_region arr' = array_region arr" "arr_capacity arr' = arr_capacity arr"
    by (simp_all add: eq(1) array_region_def)
  moreover have "arr_capacity arr \<noteq> 0" using room by auto
  ultimately show ?thesis using put_in_place[OF st arr room eq] by (intro exI[of _ rs]) simp
next
  case True
  define cap :: u64 where "cap = max (ucast (arr_capacity arr) + ucast (arr_capacity arr div 2)) initial_capacity"
  have cap: "unat cap < 2 ^ 32" "unat (arr_count arr) < unat cap"
    using True few grown_capacity[of "arr_count arr"] by (simp_all add: cap_def)
  from run True obtain p st1 where al: "alloc (cap * 8) 8 st = Inr (p, st1)"
    by (auto simp: array_put_def Let_def cap_def[symmetric] split: sum.splits)
  define arr2 st2 where grown: "arr2 = arr\<lparr>arr_data := p, arr_capacity := ucast cap\<rparr>"
    "st2 = array_memcpy bytes write_at (unat (arr_count arr) * 8) p (arr_data arr) st1"
  note g = grow_result[OF st arr True cap al grown]
  have eq: "arr' = arr2\<lparr>arr_count := arr_count arr2 + 1\<rparr>" "st' = write_at (arr_data arr2 + 8 * ucast (arr_count arr2)) (word_bytes 8 value) st2"
    using run True al by (auto simp: array_put_def Let_def cap_def[symmetric] grown)
  have "array_region arr' = array_region arr2" "arr_capacity arr' \<noteq> 0" using eq(1) g by (auto simp: array_region_def)
  moreover have "\<forall>r \<in> set rs. apart (array_region arr2) r" using regions_apart[OF conjunct1[OF g]] g by simp
  ultimately show ?thesis using put_in_place[of st2 "(p, cap * 8) # rs" arr2, OF _ _ _ eq] g
    by (intro exI[of _ "(p, cap * 8) # rs"]) auto
qed

end

section \<open>Arrays in the arena\<close>

text \<open>The arena and the memory together, and the operations of an array on them.\<close>

type_synonym arena_state = "memory_arena \<times> memory"

definition arena_alloc :: "operator_new \<Rightarrow> u64 \<Rightarrow> u64 \<Rightarrow> arena_state \<Rightarrow> arena_error + u64 \<times> arena_state" where
  "arena_alloc new bytes alignment st =
     (case allocate new bytes alignment (fst st) (snd st) of
        Inl e \<Rightarrow> Inl e
      | Inr (p, a, m) \<Rightarrow> Inr (p, a, m))"

definition arena_bytes :: "arena_state \<Rightarrow> byte_memory" where
  "arena_bytes st = mem_bytes (snd st)"

definition arena_write :: "u64 \<Rightarrow> u8 list \<Rightarrow> arena_state \<Rightarrow> arena_state" where
  "arena_write x w st = (fst st, (snd st)\<lparr>mem_bytes := write_bytes x w (mem_bytes (snd st))\<rparr>)"

definition arena_holds :: "operator_new \<Rightarrow> arena_state \<Rightarrow> (u64 \<times> u64) list \<Rightarrow> bool" where
  "arena_holds new st rs \<longleftrightarrow> new_ok new \<and> (\<exists>bs. arena_ok bs (fst st) (snd st) rs)"

definition arena_array_put ::
    "operator_new \<Rightarrow> u64 \<Rightarrow> arena_array \<Rightarrow> arena_state \<Rightarrow> arena_error + arena_array \<times> arena_state" where
  "arena_array_put new = array_put (arena_alloc new) arena_bytes arena_write"

text \<open>Writing into a region that the arena has handed out leaves the headers alone.\<close>

lemma write_keeps_arena:
  assumes "arena_ok bs a m rs" "r \<in> set rs" "span x (length w) \<subseteq> region r" "unat x + length w \<le> 2 ^ 64"
  shows "arena_ok bs a (m\<lparr>mem_bytes := write_bytes x w (mem_bytes m)\<rparr>) rs"
proof -
  have "block_ok c \<and> 8 \<le> unat (snd c) \<and> span (fst c) 8 \<inter> span x (length w) = {}" if "c \<in> set bs" for c
    using header_not_handed_out[OF assms(1,2) that] assms(1,3) that by (auto simp: arena_ok_def memory_ok_def)
  then have "block_chain (write_bytes x w (mem_bytes m)) (head_block a) bs = block_chain (mem_bytes m) (head_block a) bs"
    using assms(4) by (intro headers_kept) auto
  then show ?thesis using assms(1) by (simp add: arena_ok_def memory_ok_def)
qed

interpretation arena: arena_storage "arena_alloc new" arena_bytes arena_write "arena_holds new"
  for new
proof
  fix st rs al n p st'
  assume st: "arena_holds new st rs" and al: "small_alignment al" and n: "unat n + 8 < 2 ^ 64"
    and run: "arena_alloc new n al st = Inr (p, st')"
  from st obtain bs where new: "new_ok new" and ok: "arena_ok bs (fst st) (snd st) rs" by (auto simp: arena_holds_def)
  obtain a' m' where st': "st' = (a', m')" by (cases st')
  have "allocate new n al (fst st) (snd st) = Inr (p, a', m')"
    using run st' by (auto simp: arena_alloc_def split: sum.splits)
  from allocate_result[OF new ok al n this]
  show "arena_holds new st' ((p, n) # rs) \<and> (\<forall>x. unat x \<in> (\<Union>r \<in> set rs. region r) \<longrightarrow> arena_bytes st' x = arena_bytes st x)"
    using new st' by (simp add: arena_holds_def arena_bytes_def) blast
next
  fix st rs and r :: "u64 \<times> u64" and x :: u64 and w :: "u8 list"
  assume "arena_holds new st rs" "r \<in> set rs" "span x (length w) \<subseteq> region r" "unat x + length w \<le> 2 ^ 64"
  then show "arena_holds new (arena_write x w st) rs"
    using write_keeps_arena[of _ "fst st" "snd st" rs r x w] by (auto simp: arena_holds_def arena_write_def)
qed (auto simp: arena_holds_def arena_bytes_def arena_write_def arena_ok_def)

lemma arena_array_put_error:
  "arena_array_put new value arr st = Inl e \<Longrightarrow> e = Bad_alloc \<and> (\<exists>bytes. new (snd st) bytes = None)"
  by (auto simp: arena_array_put_def array_put_def arena_alloc_def Let_def dest!: allocate_error
      split: sum.splits if_splits prod.splits)

lemma arena_array_put_result:
  assumes "arena_holds new st rs" "array_ok arr rs" "unat (arr_count arr) < 2 ^ 31"
    "arena_array_put new value arr st = Inr (arr', st')"
  shows "\<exists>rs'. arena_holds new st' rs' \<and> set rs \<subseteq> set rs' \<and> array_ok arr' rs' \<and>
    array_elements arena_bytes arr' st' = array_elements arena_bytes arr st @ [value] \<and>
    (\<forall>x. unat x \<in> (\<Union>r \<in> set rs. region r) \<and> unat x \<notin> region (array_region arr) \<longrightarrow> arena_bytes st' x = arena_bytes st x)"
  using arena.put_result[OF assms(1-3)] assms(4) unfolding arena_array_put_def by blast

lemma used_arena_holds: "arena_holds bump_new (used_arena, used_memory) [(4104, 8)]"
  using bump_new_ok used_arena_ok by (auto simp: arena_holds_def)

text \<open>A sequence of \<open>put\<close>s, as the parser makes them.\<close>

fun put_all ::
    "operator_new \<Rightarrow> u64 list \<Rightarrow> arena_array \<Rightarrow> arena_state \<Rightarrow> arena_error + arena_array \<times> arena_state" where
  "put_all new [] arr st = Inr (arr, st)"
| "put_all new (v # vs) arr st =
     (case arena_array_put new v arr st of Inl e \<Rightarrow> Inl e | Inr (arr', st') \<Rightarrow> put_all new vs arr' st')"

lemma put_all_result:
  assumes "arena_holds new st rs" "array_ok arr rs" "unat (arr_count arr) + length vs < 2 ^ 31"
    "put_all new vs arr st = Inr (arr', st')"
  shows "array_elements arena_bytes arr' st' = array_elements arena_bytes arr st @ vs"
  using assms
proof (induction vs arbitrary: arr st rs)
  case (Cons v vs)
  from Cons.prems(4) obtain arr1 st1 where put: "arena_array_put new v arr st = Inr (arr1, st1)"
    and rest: "put_all new vs arr1 st1 = Inr (arr', st')" by (auto split: sum.splits)
  have few: "unat (arr_count arr) < 2 ^ 31" using Cons.prems(3) by simp
  from arena_array_put_result[OF Cons.prems(1,2) few put]
  obtain rs1 where st1: "arena_holds new st1 rs1" "array_ok arr1 rs1"
    and el: "array_elements arena_bytes arr1 st1 = array_elements arena_bytes arr st @ [v]"
    by blast
  have "length (array_elements arena_bytes arr1 st1) = Suc (length (array_elements arena_bytes arr st))" by (simp add: el)
  then have "unat (arr_count arr1) = Suc (unat (arr_count arr))" by (simp add: array_elements_def)
  with Cons.prems(3) have "unat (arr_count arr1) + length vs < 2 ^ 31" by simp
  from Cons.IH[OF st1 this rest] el show ?case by simp
qed simp

lemma put_all_error: "put_all new vs arr st = Inl e \<Longrightarrow> e = Bad_alloc \<and> (\<exists>m bytes. new m bytes = None)"
  by (induction new vs arr st rule: put_all.induct) (auto dest!: arena_array_put_error split: sum.splits)

text \<open>C13. An array in the arena refines a list: unless \<open>operator new\<close> refuses a block, whatever is put into an empty
  array is what \<open>begin\<close> to \<open>end\<close> ranges over, in order.\<close>
theorem arena_array_refines_list:
  assumes "arena_holds new st rs" "length vs < 2 ^ 31"
  shows "case put_all new vs array_default st of
      Inl e \<Rightarrow> e = Bad_alloc \<and> (\<exists>m bytes. new m bytes = None)
    | Inr (arr, st') \<Rightarrow> array_elements arena_bytes arr st' = vs"
proof -
  have ok: "array_ok array_default rs" by (simp add: array_ok_def array_default_def)
  have empty: "array_elements arena_bytes array_default st = []" by (simp add: array_elements_def array_default_def)
  have count: "unat (arr_count array_default) + length vs < 2 ^ 31" using assms(2) by (simp add: array_default_def)
  show ?thesis
    using put_all_result[OF assms(1) ok count] empty
    by (auto dest: put_all_error split: sum.splits)
qed

theorem arena_array_refines_list_witness:
  "\<exists>arr st'. put_all bump_new [7] array_default (used_arena, used_memory) = Inr (arr, st') \<and>
     array_elements arena_bytes arr st' = [7]"
proof -
  obtain arr' st' where run: "put_all bump_new [7] array_default (used_arena, used_memory) = Inr (arr', st')"
    by (simp add: arena_array_put_def array_put_def array_default_def initial_capacity_def arena_alloc_def allocate_def
        std_align_def align_padding_def used_arena_def used_memory_def Let_def)
  from arena_array_refines_list[OF used_arena_holds, of "[7]"] run show ?thesis by auto
qed

end
