(* ===== verification/Tree_Layout.thy ===== *)
theory Tree_Layout
  imports Arena_Array Ast
begin

text \<open>
  The memory of a syntax tree: its nodes with their sizes and the places of their fields
  (\<open>src/cero/syntax/ast.hh\<close>), the constructors, and \<open>put\<close> on a \<open>NodeList\<close>. A list lies inside its node
  or is a local variable of the parser: \<open>put\<close> reads and writes its pointer, count and capacity there,
  while its elements are in the arena. \<open>tree_view\<close> is the tree that the memory stands for, and
  \<open>tree_ok\<close> says that it does.
\<close>

section \<open>Layout\<close>

text \<open>
  Sizes and alignments with pointers of 8 bytes: a node begins with 4 bytes for its kind and offset,
  a \<open>NodeList\<close> has 16 bytes, aligned to 8.
\<close>

datatype tree_object = Root_object | Node_object ast_node_kind source_size

fun node_size :: "ast_node_kind \<Rightarrow> u64" where
  "node_size Kind_function_def = 64"
| "node_size Kind_function_parameter = 24"
| "node_size Kind_function_output = 24"
| "node_size Kind_ident_expr = 8"
| "node_size Kind_literal_expr = 12"
| "node_size Kind_block_expr = 24"
| "node_size Kind_return_expr = 24"
| "node_size Kind_unary_expr = 16"
| "node_size Kind_binary_expr = 24"
| "node_size Kind_call_expr = 32"

fun node_alignment :: "ast_node_kind \<Rightarrow> u64" where
  "node_alignment Kind_ident_expr = 4"
| "node_alignment Kind_literal_expr = 4"
| "node_alignment _ = 8"

text \<open>
  The fields with the place and the number of bytes of each: kind and offset, which share 4 bytes, then
  the fields that \<open>ast.hh\<close> declares, in its order; an \<open>AstName\<close> counts as its two fields. Then the places
  of the lists.
\<close>

fun node_fields :: "ast_node_kind \<Rightarrow> (u64 \<times> nat) list" where
  "node_fields Kind_function_def = [(0, 4), (4, 1), (8, 4), (12, 4)]"
| "node_fields Kind_function_parameter = [(0, 4), (8, 8), (16, 4), (20, 4)]"
| "node_fields Kind_function_output = [(0, 4), (8, 8), (16, 4), (20, 4)]"
| "node_fields Kind_ident_expr = [(0, 4), (4, 4)]"
| "node_fields Kind_literal_expr = [(0, 4), (4, 4), (8, 4)]"
| "node_fields Kind_block_expr = [(0, 4)]"
| "node_fields Kind_return_expr = [(0, 4)]"
| "node_fields Kind_unary_expr = [(0, 4), (4, 4), (8, 8)]"
| "node_fields Kind_binary_expr = [(0, 4), (4, 4), (8, 8), (16, 8)]"
| "node_fields Kind_call_expr = [(0, 4), (8, 8)]"

fun node_lists :: "ast_node_kind \<Rightarrow> u64 list" where
  "node_lists Kind_function_def = [16, 32, 48]"
| "node_lists Kind_block_expr = [8]"
| "node_lists Kind_return_expr = [8]"
| "node_lists Kind_call_expr = [16]"
| "node_lists _ = []"

fun node_kind_value :: "ast_node_kind \<Rightarrow> u32" where
  "node_kind_value Kind_function_def = 0"
| "node_kind_value Kind_function_parameter = 1"
| "node_kind_value Kind_function_output = 2"
| "node_kind_value Kind_ident_expr = 3"
| "node_kind_value Kind_literal_expr = 4"
| "node_kind_value Kind_block_expr = 5"
| "node_kind_value Kind_return_expr = 6"
| "node_kind_value Kind_unary_expr = 7"
| "node_kind_value Kind_binary_expr = 8"
| "node_kind_value Kind_call_expr = 9"

text \<open>The two bit-fields of \<open>AstNode\<close>, of 8 and 24 bits.\<close>

definition node_header :: "ast_node_kind \<Rightarrow> source_size \<Rightarrow> u32" where
  "node_header kind offset = node_kind_value kind OR push_bit 8 (offset AND 0xffffff)"

fun object_size :: "tree_object \<Rightarrow> u64" where
  "object_size Root_object = 16"
| "object_size (Node_object kind offset) = node_size kind"

fun object_alignment :: "tree_object \<Rightarrow> u64" where
  "object_alignment Root_object = 8"
| "object_alignment (Node_object kind offset) = node_alignment kind"

fun object_fields :: "tree_object \<Rightarrow> (u64 \<times> nat) list" where
  "object_fields Root_object = []"
| "object_fields (Node_object kind offset) = node_fields kind"

fun object_lists :: "tree_object \<Rightarrow> u64 list" where
  "object_lists Root_object = [0]"
| "object_lists (Node_object kind offset) = node_lists kind"

text \<open>A \<open>NodeList\<close> is a pointer, a count and a capacity.\<close>

definition sizeof_list :: nat where
  "sizeof_list = 16"

text \<open>What a constructor writes: kind and offset, and nulls for every other field and for the lists.\<close>

definition initial_field :: "tree_object \<Rightarrow> u64 \<Rightarrow> nat \<Rightarrow> u8 list" where
  "initial_field obj place n =
     (case obj of
        Node_object kind offset \<Rightarrow> if place = 0 then word_bytes n (node_header kind offset) else replicate n 0
      | Root_object \<Rightarrow> replicate n 0)"

definition object_writes :: "tree_object \<Rightarrow> (u64 \<times> u8 list) list" where
  "object_writes obj =
     map (\<lambda>(place, n). (place, initial_field obj place n)) (object_fields obj) @
     map (\<lambda>place. (place, replicate sizeof_list 0)) (object_lists obj)"

section \<open>Creating nodes and extending lists\<close>

primrec write_all :: "(u64 \<Rightarrow> u8 list \<Rightarrow> 's \<Rightarrow> 's) \<Rightarrow> u64 \<Rightarrow> (u64 \<times> u8 list) list \<Rightarrow> 's \<Rightarrow> 's" where
  "write_all write_at p [] st = st"
| "write_all write_at p (w # ws) st = write_at (p + fst w) (snd w) (write_all write_at p ws st)"

definition object_create ::
    "(u64 \<Rightarrow> u64 \<Rightarrow> 's \<Rightarrow> arena_error + u64 \<times> 's) \<Rightarrow> (u64 \<Rightarrow> u8 list \<Rightarrow> 's \<Rightarrow> 's) \<Rightarrow>
     tree_object \<Rightarrow> 's \<Rightarrow> arena_error + u64 \<times> 's" where
  "object_create alloc write_at obj st =
     (case alloc (object_size obj) (object_alignment obj) st of
        Inl e \<Rightarrow> Inl e
      | Inr (storage, st1) \<Rightarrow> Inr (storage, write_all write_at storage (object_writes obj) st1))"

text \<open>The array of a list in the bytes at its address: the pointer, the count and the capacity.\<close>

definition list_bytes :: "arena_array \<Rightarrow> u8 list" where
  "list_bytes arr = word_bytes 8 (arr_data arr) @ word_bytes 4 (arr_count arr) @ word_bytes 4 (arr_capacity arr)"

definition list_of_bytes :: "u8 list \<Rightarrow> arena_array" where
  "list_of_bytes bs =
     \<lparr>arr_data = bytes_word (take 8 bs), arr_count = bytes_word (take 4 (drop 8 bs)), arr_capacity = bytes_word (drop 12 bs)\<rparr>"

definition list_load :: "('s \<Rightarrow> byte_memory) \<Rightarrow> u64 \<Rightarrow> 's \<Rightarrow> arena_array" where
  "list_load bytes a st = list_of_bytes (read_bytes (bytes st) a sizeof_list)"

definition list_store :: "(u64 \<Rightarrow> u8 list \<Rightarrow> 's \<Rightarrow> 's) \<Rightarrow> u64 \<Rightarrow> arena_array \<Rightarrow> 's \<Rightarrow> 's" where
  "list_store write_at a arr st = write_at a (list_bytes arr) st"

text \<open>
  A list is in a node, at an address, or it is one of the local variables of the parser, which are
  beside the memory of the arena.
\<close>

datatype list_place = In_node u64 | Local nat

type_synonym 's with_locals = "'s \<times> (nat \<Rightarrow> arena_array)"

fun list_get :: "('s \<Rightarrow> byte_memory) \<Rightarrow> list_place \<Rightarrow> 's with_locals \<Rightarrow> arena_array" where
  "list_get bytes (In_node a) st = list_load bytes a (fst st)"
| "list_get bytes (Local i) st = snd st i"

fun list_set :: "(u64 \<Rightarrow> u8 list \<Rightarrow> 's \<Rightarrow> 's) \<Rightarrow> list_place \<Rightarrow> arena_array \<Rightarrow> 's with_locals \<Rightarrow> 's with_locals" where
  "list_set write_at (In_node a) arr st = (list_store write_at a arr (fst st), snd st)"
| "list_set write_at (Local i) arr st = (fst st, (snd st)(i := arr))"

definition list_put ::
    "(u64 \<Rightarrow> u64 \<Rightarrow> 's \<Rightarrow> arena_error + u64 \<times> 's) \<Rightarrow> ('s \<Rightarrow> byte_memory) \<Rightarrow> (u64 \<Rightarrow> u8 list \<Rightarrow> 's \<Rightarrow> 's) \<Rightarrow>
     list_place \<Rightarrow> u64 \<Rightarrow> 's with_locals \<Rightarrow> arena_error + 's with_locals" where
  "list_put alloc bytes write_at pl node st =
     (case array_put alloc bytes write_at node (list_get bytes pl st) (fst st) of
        Inl e \<Rightarrow> Inl e
      | Inr (arr, st1) \<Rightarrow> Inr (list_set write_at pl arr (st1, snd st)))"

text \<open>
  A local list that is defined is empty; a local list that a function returns is assigned to a list
  of a node, and is no more.
\<close>

definition local_list :: "nat \<Rightarrow> 's with_locals \<Rightarrow> 's with_locals" where
  "local_list i st = (fst st, (snd st)(i := array_default))"

definition list_assign :: "(u64 \<Rightarrow> u8 list \<Rightarrow> 's \<Rightarrow> 's) \<Rightarrow> u64 \<Rightarrow> nat \<Rightarrow> 's with_locals \<Rightarrow> 's with_locals" where
  "list_assign write_at a i st = local_list i (list_set write_at (In_node a) (snd st i) st)"

section \<open>Trees in memory\<close>

text \<open>The objects of a tree, the bytes of their fields by address, and the elements of the lists.\<close>

record tree_view =
  tv_objects :: "(u64 \<times> tree_object) list"
  tv_fields :: "u64 \<Rightarrow> u8 list"
  tv_lists :: "list_place \<Rightarrow> u64 list"

abbreviation object_region :: "u64 \<times> tree_object \<Rightarrow> u64 \<times> u64" where
  "object_region x \<equiv> (fst x, object_size (snd x))"

text \<open>The fields with their addresses and sizes.\<close>

definition tree_fields :: "tree_view \<Rightarrow> (u64 \<times> nat) set" where
  "tree_fields tv =
     {(p + place, n) | p obj place n. (p, obj) \<in> set (tv_objects tv) \<and> (place, n) \<in> set (object_fields obj)}"

definition list_addresses :: "tree_view \<Rightarrow> u64 set" where
  "list_addresses tv = {p + place | p obj place. (p, obj) \<in> set (tv_objects tv) \<and> place \<in> set (object_lists obj)}"

definition list_places :: "tree_view \<Rightarrow> list_place set" where
  "list_places tv = In_node ` list_addresses tv \<union> range Local"

abbreviation new_places :: "u64 \<Rightarrow> tree_object \<Rightarrow> list_place set" where
  "new_places p obj \<equiv> In_node ` (\<lambda>place. p + place) ` set (object_lists obj)"

definition tv_create :: "u64 \<Rightarrow> tree_object \<Rightarrow> tree_view \<Rightarrow> tree_view" where
  "tv_create p obj tv =
     \<lparr>tv_objects = (p, obj) # tv_objects tv,
      tv_fields = (\<lambda>x. case map_of (object_fields obj) (x - p) of
        Some n \<Rightarrow> initial_field obj (x - p) n | None \<Rightarrow> tv_fields tv x),
      tv_lists = (\<lambda>pl. if pl \<in> new_places p obj then [] else tv_lists tv pl)\<rparr>"

definition tv_assign :: "u64 \<Rightarrow> u8 list \<Rightarrow> tree_view \<Rightarrow> tree_view" where
  "tv_assign x w tv = tv\<lparr>tv_fields := (tv_fields tv)(x := w)\<rparr>"

definition tv_put :: "list_place \<Rightarrow> u64 \<Rightarrow> tree_view \<Rightarrow> tree_view" where
  "tv_put pl node tv = tv\<lparr>tv_lists := (tv_lists tv)(pl := tv_lists tv pl @ [node])\<rparr>"

definition tv_local :: "nat \<Rightarrow> tree_view \<Rightarrow> tree_view" where
  "tv_local i tv = tv\<lparr>tv_lists := (tv_lists tv)(Local i := [])\<rparr>"

definition tv_list_assign :: "u64 \<Rightarrow> nat \<Rightarrow> tree_view \<Rightarrow> tree_view" where
  "tv_list_assign a i tv = tv\<lparr>tv_lists := (tv_lists tv)(In_node a := tv_lists tv (Local i), Local i := [])\<rparr>"

definition tv_empty :: tree_view where
  "tv_empty = \<lparr>tv_objects = [], tv_fields = (\<lambda>_. []), tv_lists = (\<lambda>_. [])\<rparr>"

text \<open>
  The invariant: objects have regions of the storage, every field has its bytes, a list has its
  elements, and its elements are in a region of their own.
\<close>

definition list_ok :: "('s \<Rightarrow> byte_memory) \<Rightarrow> (u64 \<times> u64) list \<Rightarrow> tree_view \<Rightarrow> 's with_locals \<Rightarrow> list_place \<Rightarrow> bool" where
  "list_ok bytes rs tv st pl \<longleftrightarrow>
     array_ok (list_get bytes pl st) rs \<and> array_elements bytes (list_get bytes pl st) (fst st) = tv_lists tv pl \<and>
     (arr_capacity (list_get bytes pl st) \<noteq> 0 \<longrightarrow>
        array_region (list_get bytes pl st) \<notin> object_region ` set (tv_objects tv) \<and>
        (\<forall>q \<in> list_places tv. q \<noteq> pl \<longrightarrow> array_region (list_get bytes q st) \<noteq> array_region (list_get bytes pl st)))"

definition tree_ok :: "('s \<Rightarrow> byte_memory) \<Rightarrow> (u64 \<times> u64) list \<Rightarrow> tree_view \<Rightarrow> 's with_locals \<Rightarrow> bool" where
  "tree_ok bytes rs tv st \<longleftrightarrow>
     object_region ` set (tv_objects tv) \<subseteq> set rs \<and> sorted_wrt apart (map object_region (tv_objects tv)) \<and>
     (\<forall>(x, n) \<in> tree_fields tv. read_bytes (bytes (fst st)) x n = tv_fields tv x) \<and>
     (\<forall>pl \<in> list_places tv. list_ok bytes rs tv st pl)"

section \<open>Places\<close>

text \<open>
  The parts of an object are its fields and its lists. They lie in the object and do not overlap:
  here the layout of each kind of node is checked.
\<close>

definition object_parts :: "tree_object \<Rightarrow> (u64 \<times> nat) list" where
  "object_parts obj = object_fields obj @ map (\<lambda>place. (place, sizeof_list)) (object_lists obj)"

fun parts_apart :: "u64 \<times> nat \<Rightarrow> u64 \<times> nat \<Rightarrow> bool" where
  "parts_apart (x, n) (y, m) \<longleftrightarrow> unat x + n \<le> unat y \<or> unat y + m \<le> unat x"

lemma object_layout:
  "small_alignment (object_alignment obj)" "unat (object_size obj) + 8 < 2 ^ 64" "0 < unat (object_size obj)"
  "list_all (\<lambda>(place, n). 0 < n \<and> unat place + n \<le> unat (object_size obj)) (object_parts obj)"
  "sorted_wrt parts_apart (object_parts obj)"
  "list_all (\<lambda>(place, n). n \<le> 8) (object_fields obj)" "distinct (map fst (object_fields obj))"
  by (cases obj; cases "case obj of Node_object kind offset \<Rightarrow> kind | _ \<Rightarrow> Kind_ident_expr";
      simp add: small_alignment_def object_parts_def sizeof_list_def)+

text \<open>Fields and lists are aligned like their types.\<close>

lemma object_places_aligned:
  "list_all (\<lambda>(place, n). n dvd unat place \<and> n dvd unat (object_alignment obj)) (object_fields obj)"
  "list_all (\<lambda>place. 8 dvd unat place \<and> object_alignment obj = 8) (object_lists obj)"
  by (cases obj; cases "case obj of Node_object kind offset \<Rightarrow> kind | _ \<Rightarrow> Kind_ident_expr"; simp)+

lemma part_fits: "X \<in> set (object_parts obj) \<Longrightarrow> 0 < snd X \<and> unat (fst X) + snd X \<le> unat (object_size obj)"
  using object_layout(4)[of obj] by (auto simp: list_all_iff)

lemma parts_apart_sym: "parts_apart X Y \<Longrightarrow> parts_apart Y X"
  by (cases X; cases Y) auto

lemma sorted_parts_apart:
  "sorted_wrt parts_apart xs \<Longrightarrow> X \<in> set xs \<Longrightarrow> Y \<in> set xs \<Longrightarrow> X \<noteq> Y \<Longrightarrow> parts_apart X Y"
  by (induction xs) (auto simp del: parts_apart.simps intro: parts_apart_sym)

lemma object_parts_apart:
  "X \<in> set (object_parts obj) \<Longrightarrow> Y \<in> set (object_parts obj) \<Longrightarrow> X \<noteq> Y \<Longrightarrow> parts_apart X Y"
  by (rule sorted_parts_apart[OF object_layout(5)])

lemma parts_apart_spans: "parts_apart (x, n) (y, m) \<Longrightarrow> span x n \<inter> span y m = {}"
  by (auto simp: span_def)

lemma length_initial_field [simp]: "length (initial_field obj place n) = n"
  by (simp add: initial_field_def split: tree_object.splits)

lemma object_writes_parts: "map (\<lambda>w. (fst w, length (snd w))) (object_writes obj) = object_parts obj"
  by (simp add: object_writes_def object_parts_def case_prod_beta o_def)

lemma field_written:
  assumes "(place, n) \<in> set (object_fields obj)"
  shows "(place, initial_field obj place n) \<in> set (object_writes obj)" "map_of (object_fields obj) place = Some n"
proof -
  show "(place, initial_field obj place n) \<in> set (object_writes obj)"
    using assms unfolding object_writes_def by force
  show "map_of (object_fields obj) place = Some n" using assms object_layout(7) by (simp add: map_of_is_SomeI)
qed

text \<open>A place of an object, added to the address of the object.\<close>

lemma place_in_object:
  assumes "unat p + unat s < 2 ^ 64" "unat place + n \<le> unat s"
  shows "unat (p + place) = unat p + unat place" "span (p + place) n \<subseteq> region (p, s)" "unat (p + place) + n \<le> 2 ^ 64"
proof -
  show "unat (p + place) = unat p + unat place" using assms by (intro unat_add_u64) simp
  then show "span (p + place) n \<subseteq> region (p, s)" "unat (p + place) + n \<le> 2 ^ 64"
    using assms by (auto simp: span_def region_def)
qed

lemma length_list_bytes [simp]: "length (list_bytes arr) = sizeof_list"
  by (simp add: list_bytes_def sizeof_list_def)

lemma list_of_list_bytes: "list_of_bytes (list_bytes arr) = arr"
  by (simp add: list_of_bytes_def list_bytes_def bytes_word_word_bytes)

lemma list_of_zeros: "arr_capacity (list_of_bytes (replicate sizeof_list 0)) = 0" "arr_count (list_of_bytes (replicate sizeof_list 0)) = 0"
  by (rule bit_eqI, simp add: list_of_bytes_def sizeof_list_def bit_bytes_word)+

lemma array_region_empty: "arr_capacity arr = 0 \<Longrightarrow> snd (array_region arr) = 0"
  by (simp add: array_region_def)

lemma array_region_empty':
  assumes "arr_capacity arr \<noteq> 0"
  shows "snd (array_region arr) \<noteq> 0"
proof -
  have "unat (ucast (arr_capacity arr) * 8 :: u64) \<noteq> 0"
    using assms by (simp only: unat_capacity_bytes) (simp add: unat_eq_zero)
  then show ?thesis by (auto simp: array_region_def)
qed

text \<open>The parts of a tree are the parts of its objects.\<close>

definition tree_parts :: "tree_view \<Rightarrow> (u64 \<times> nat) set" where
  "tree_parts tv = {(p + place, n) | p obj place n. (p, obj) \<in> set (tv_objects tv) \<and> (place, n) \<in> set (object_parts obj)}"

lemma tree_parts_fields: "X \<in> tree_fields tv \<Longrightarrow> X \<in> tree_parts tv \<and> snd X \<le> 8"
proof -
  assume "X \<in> tree_fields tv"
  then obtain p obj place n where X: "X = (p + place, n)" "(p, obj) \<in> set (tv_objects tv)" "(place, n) \<in> set (object_fields obj)"
    by (auto simp: tree_fields_def)
  then have "n \<le> 8" using object_layout(6)[of obj] by (auto simp: list_all_iff)
  moreover have "(place, n) \<in> set (object_parts obj)" using X(3) by (simp add: object_parts_def)
  ultimately show ?thesis using X by (auto simp: tree_parts_def)
qed

lemma tree_parts_lists: "a \<in> list_addresses tv \<Longrightarrow> (a, sizeof_list) \<in> tree_parts tv"
  by (force simp: tree_parts_def list_addresses_def object_parts_def)

lemma list_addresses_create [simp]:
  "list_addresses (tv_create p obj tv) = (\<lambda>place. p + place) ` set (object_lists obj) \<union> list_addresses tv"
  "tree_fields (tv_create p obj tv) = (\<lambda>(place, n). (p + place, n)) ` set (object_fields obj) \<union> tree_fields tv"
  by (force simp: list_addresses_def tree_fields_def tv_create_def)+

lemma list_places_create [simp]:
  "list_places (tv_create p obj tv) = new_places p obj \<union> list_places tv"
  by (auto simp: list_places_def)

lemma view_updates [simp]:
  "tv_objects (tv_create p obj tv) = (p, obj) # tv_objects tv"
  "tv_objects (tv_assign x w tv) = tv_objects tv" "tv_objects (tv_put pl node tv) = tv_objects tv"
  "tv_objects (tv_local i tv) = tv_objects tv" "tv_objects (tv_list_assign a i tv) = tv_objects tv"
  "tv_fields (tv_assign x w tv) = (tv_fields tv)(x := w)" "tv_fields (tv_put pl node tv) = tv_fields tv"
  "tv_fields (tv_local i tv) = tv_fields tv" "tv_fields (tv_list_assign a i tv) = tv_fields tv"
  "tv_lists (tv_assign x w tv) = tv_lists tv" "tv_lists (tv_put pl node tv) = (tv_lists tv)(pl := tv_lists tv pl @ [node])"
  "tv_lists (tv_local i tv) = (tv_lists tv)(Local i := [])"
  "tv_lists (tv_list_assign a i tv) = (tv_lists tv)(In_node a := tv_lists tv (Local i), Local i := [])"
  by (simp_all add: tv_create_def tv_assign_def tv_put_def tv_local_def tv_list_assign_def)

text \<open>The places of a tree are those of its objects.\<close>

lemma same_places:
  "tv_objects tv' = tv_objects tv \<Longrightarrow> tree_fields tv' = tree_fields tv \<and> list_addresses tv' = list_addresses tv \<and>
   list_places tv' = list_places tv \<and> tree_parts tv' = tree_parts tv"
  by (simp add: tree_fields_def list_addresses_def list_places_def tree_parts_def)

lemmas same_places_updates [simp] =
  same_places[of "tv_assign x w tv" tv for x w tv, OF view_updates(2)]
  same_places[of "tv_put pl node tv" tv for pl node tv, OF view_updates(3)]
  same_places[of "tv_local i tv" tv for i tv, OF view_updates(4)]
  same_places[of "tv_list_assign a i tv" tv for a i tv, OF view_updates(5)]

text \<open>The bytes of a list in a node.\<close>

fun list_span :: "list_place \<Rightarrow> nat set" where
  "list_span (In_node a) = span a sizeof_list"
| "list_span (Local i) = {}"

lemma list_get_same:
  assumes "\<And>a. pl = In_node a \<Longrightarrow> read_bytes (bytes (fst st')) a sizeof_list = read_bytes (bytes (fst st)) a sizeof_list"
    "\<And>i. pl = Local i \<Longrightarrow> snd st' i = snd st i"
  shows "list_get bytes pl st' = list_get bytes pl st"
  using assms by (cases pl) (simp_all add: list_load_def)

end
