(* ===== verification/Tree_Memory.thy ===== *)
theory Tree_Memory
  imports Tree_Layout
begin

text \<open>
  That the memory of a tree stands for the tree, however the tree is built: first for any storage of
  the locale \<open>arena_storage\<close>, then for the arena of an \<open>Ast\<close> (\<open>src/cero/syntax/ast.cc\<close>) with \<open>Parser::create\<close>
  and \<open>Parser::put\<close> (\<open>src/cero/syntax/parser.cc\<close>).
\<close>

section \<open>Objects in storage\<close>

context arena_storage
begin

text \<open>Every part of an object is in the region of the object, and the parts of a tree do not overlap.\<close>

lemma tree_objects_fit:
  assumes "holds st rs" "object_region ` set (tv_objects tv) \<subseteq> set rs" "(p, obj) \<in> set (tv_objects tv)"
  shows "unat p + unat (object_size obj) < 2 ^ 64"
  using regions_fit[OF assms(1), of "(p, object_size obj)"] assms(2,3) by force

lemma parts_in_objects:
  assumes "holds st rs" "object_region ` set (tv_objects tv) \<subseteq> set rs" "(x, n) \<in> tree_parts tv"
  shows "\<exists>r \<in> object_region ` set (tv_objects tv). span x n \<subseteq> region r" "unat x + n \<le> 2 ^ 64" "0 < n"
proof -
  from assms(3) obtain p obj place where X: "x = p + place" "(p, obj) \<in> set (tv_objects tv)" "(place, n) \<in> set (object_parts obj)"
    by (auto simp: tree_parts_def)
  note fit = part_fits[OF X(3), unfolded fst_conv snd_conv]
  note in_obj = place_in_object[OF tree_objects_fit[OF assms(1,2) X(2)] conjunct2[OF fit]]
  show "\<exists>r \<in> object_region ` set (tv_objects tv). span x n \<subseteq> region r"
    using in_obj(2) X by (auto intro!: bexI[of _ "(p, obj)"])
  show "unat x + n \<le> 2 ^ 64" "0 < n" using in_obj(3) fit X(1) by simp_all
qed

lemma apart_of_sorted:
  "sorted_wrt (\<lambda>a b. apart (f a) (f b)) xs \<Longrightarrow> a \<in> set xs \<Longrightarrow> b \<in> set xs \<Longrightarrow> a \<noteq> b \<Longrightarrow> apart (f a) (f b)"
  by (induction xs) auto

lemma tree_parts_apart:
  assumes st: "holds st rs" and objs: "object_region ` set (tv_objects tv) \<subseteq> set rs"
    and sorted: "sorted_wrt apart (map object_region (tv_objects tv))"
    and parts: "(x, n) \<in> tree_parts tv" "(y, m) \<in> tree_parts tv" "(x, n) \<noteq> (y, m)"
  shows "span x n \<inter> span y m = {}"
proof -
  from parts(1) obtain p obj place where X: "x = p + place" "(p, obj) \<in> set (tv_objects tv)" "(place, n) \<in> set (object_parts obj)"
    by (auto simp: tree_parts_def)
  from parts(2) obtain p' obj' place' where Y: "y = p' + place'" "(p', obj') \<in> set (tv_objects tv)" "(place', m) \<in> set (object_parts obj')"
    by (auto simp: tree_parts_def)
  note in_x = place_in_object[OF tree_objects_fit[OF st objs X(2)] conjunct2[OF part_fits[OF X(3)]], unfolded fst_conv snd_conv]
  note in_y = place_in_object[OF tree_objects_fit[OF st objs Y(2)] conjunct2[OF part_fits[OF Y(3)]], unfolded fst_conv snd_conv]
  show ?thesis
  proof (cases "(p, obj) = (p', obj')")
    case True
    then have "parts_apart (place, n) (place', m)"
      using object_parts_apart[OF X(3)] X(1) Y(1,3) parts(3) by (metis Pair_inject)
    then have "unat x + n \<le> unat y \<or> unat y + m \<le> unat x"
      using in_x(1) in_y(1) X(1) Y(1) True by auto
    then show ?thesis by (auto simp: span_def)
  next
    case False
    have "sorted_wrt (\<lambda>a b. apart (object_region a) (object_region b)) (tv_objects tv)"
      using sorted by (simp add: sorted_wrt_map)
    from apart_of_sorted[OF this X(2) Y(2) False] have "apart (object_region (p, obj)) (object_region (p', obj'))" .
    then show ?thesis using in_x(2) in_y(2) X(1) Y(1) by auto
  qed
qed

text \<open>A write into a part of the tree, and one that lies apart from a part.\<close>

lemma read_other_part:
  assumes "unat x + n \<le> 2 ^ 64" "unat y + length w \<le> 2 ^ 64" "span x n \<inter> span y (length w) = {}"
  shows "read_bytes (bytes (write_at y w st)) x n = read_bytes (bytes st) x n"
  unfolding bytes_write using assms by (rule read_write_other)

lemma write_all_result:
  assumes "holds st rs" "(p, n) \<in> set rs" "list_all (\<lambda>w. unat (fst w) + length (snd w) \<le> unat n) ws"
    "sorted_wrt (\<lambda>v w. parts_apart (fst v, length (snd v)) (fst w, length (snd w))) ws"
  shows "holds (write_all write_at p ws st) rs \<and>
    (\<forall>w \<in> set ws. read_bytes (bytes (write_all write_at p ws st)) (p + fst w) (length (snd w)) = snd w) \<and>
    (\<forall>x. unat x \<notin> region (p, n) \<longrightarrow> bytes (write_all write_at p ws st) x = bytes st x)"
  using assms(3,4)
proof (induction ws)
  case Nil
  with assms(1) show ?case by simp
next
  case (Cons w ws)
  let ?st = "write_all write_at p ws st"
  have IH: "holds ?st rs" "\<And>v. v \<in> set ws \<Longrightarrow> read_bytes (bytes ?st) (p + fst v) (length (snd v)) = snd v"
    "\<And>x. unat x \<notin> region (p, n) \<Longrightarrow> bytes ?st x = bytes st x" using Cons by auto
  have lim: "unat p + unat n < 2 ^ 64" using regions_fit[OF assms(1,2)] by simp
  have fit: "unat (fst v) + length (snd v) \<le> unat n" if "v \<in> set (w # ws)" for v
    using Cons.prems(1) that by (auto simp: list_all_iff)
  note mine = place_in_object[OF lim fit[of w], simplified]
  have "read_bytes (bytes (write_at (p + fst w) (snd w) ?st)) (p + fst w) (length (snd w)) = snd w"
    unfolding bytes_write using mine(3) by (intro read_write_same) simp_all
  moreover have "read_bytes (bytes (write_at (p + fst w) (snd w) ?st)) (p + fst v) (length (snd v)) = snd v"
    if v: "v \<in> set ws" for v
  proof -
    have "parts_apart (fst w, length (snd w)) (fst v, length (snd v))" using Cons.prems(2) v by simp
    note other = place_in_object[OF lim fit[of v]]
    have "span (p + fst v) (length (snd v)) \<inter> span (p + fst w) (length (snd w)) = {}"
      using \<open>parts_apart _ _\<close> mine(1) other(1) v by (intro parts_apart_spans) auto
    then show ?thesis using IH(2)[OF v] mine(3) other(3) v by (subst read_other_part) auto
  qed
  moreover have "holds (write_at (p + fst w) (snd w) ?st) rs"
    using mine by (intro write_holds[OF IH(1) assms(2)]) simp_all
  moreover have "bytes (write_at (p + fst w) (snd w) ?st) x = bytes st x" if "unat x \<notin> region (p, n)" for x
    unfolding bytes_write using mine(2,3) that IH(3)[OF that] by (subst write_outside) auto
  ultimately show ?case by auto
qed

text \<open>The array of a list stays as it is when its bytes and its region do.\<close>

lemma array_elements_same:
  assumes "holds st rs" "array_ok arr rs" "\<And>x. unat x \<in> region (array_region arr) \<Longrightarrow> bytes st' x = bytes st x"
  shows "array_elements bytes arr st' = array_elements bytes arr st"
proof -
  have "load_word (bytes st') (element_at arr i) = load_word (bytes st) (element_at arr i)" if "i < unat (arr_count arr)" for i
  proof (rule load_word_cong)
    have "i < unat (arr_capacity arr)" using assms(2) that by (simp add: array_ok_def word_le_nat_alt)
    note el = elements_within[OF assms(1,2) this]
    show "unat (element_at arr i) + 8 \<le> 2 ^ 64" by (rule el(3))
    show "bytes st' y = bytes st y" if "unat y \<in> span (element_at arr i) 8" for y using el(2) that assms(3) by blast
  qed
  then show ?thesis by (simp add: array_elements_def)
qed

lemma object_created:
  assumes st: "holds st rs" and run: "object_create alloc write_at obj st = Inr (p, st')"
  shows "holds st' ((p, object_size obj) # rs) \<and> (p, object_size obj) \<notin> set rs \<and>
    (\<forall>x. unat x \<in> (\<Union>r \<in> set rs. region r) \<longrightarrow> bytes st' x = bytes st x) \<and>
    (\<forall>place w. (place, w) \<in> set (object_writes obj) \<longrightarrow> read_bytes (bytes st') (p + place) (length w) = w)"
proof -
  let ?n = "object_size obj"
  from run obtain st1 where al: "alloc ?n (object_alignment obj) st = Inr (p, st1)"
    and st': "st' = write_all write_at p (object_writes obj) st1" by (auto simp: object_create_def split: sum.splits)
  have st1: "holds st1 ((p, ?n) # rs)" and keep: "\<And>x. unat x \<in> (\<Union>r \<in> set rs. region r) \<Longrightarrow> bytes st1 x = bytes st x"
    using alloc_fresh[OF st object_layout(1,2) al] by blast+
  have "list_all (\<lambda>w. unat (fst w) + length (snd w) \<le> unat ?n) (object_writes obj)"
    using object_layout(4)[of obj, folded object_writes_parts] by (auto simp: list_all_iff)
  moreover have "sorted_wrt (\<lambda>v w. parts_apart (fst v, length (snd v)) (fst w, length (snd w))) (object_writes obj)"
    using object_layout(5)[of obj, folded object_writes_parts] by (simp add: sorted_wrt_map)
  ultimately have written: "holds st' ((p, ?n) # rs)"
    "\<And>w. w \<in> set (object_writes obj) \<Longrightarrow> read_bytes (bytes st') (p + fst w) (length (snd w)) = snd w"
    "\<And>x. unat x \<notin> region (p, ?n) \<Longrightarrow> bytes st' x = bytes st1 x"
    using write_all_result[OF st1, of p ?n "object_writes obj"] by (auto simp: st')
  have apart: "apart (p, ?n) r" if "r \<in> set rs" for r using regions_apart[OF st1] that by simp
  have "region (p, ?n) \<noteq> {}" using object_layout(3)[of obj] by (simp add: region_def)
  then have "(p, ?n) \<notin> set rs" using apart by blast
  moreover have "bytes st' x = bytes st x" if x: "unat x \<in> (\<Union>r \<in> set rs. region r)" for x
  proof -
    have "unat x \<notin> region (p, ?n)" using x apart by blast
    then show ?thesis using written(3) keep[OF x] by simp
  qed
  moreover have "read_bytes (bytes st') (p + place) (length w) = w" if "(place, w) \<in> set (object_writes obj)" for place w
    using written(2)[OF that] by simp
  ultimately show ?thesis using written(1) by blast
qed

text \<open>The bytes of the lists are in the regions of the objects, apart from each other and from the fields.\<close>

lemma list_part: "In_node a \<in> list_places tv \<Longrightarrow> (a, sizeof_list) \<in> tree_parts tv"
  by (rule tree_parts_lists) (auto simp: list_places_def)

lemma list_span_in_objects:
  assumes "holds st rs" "object_region ` set (tv_objects tv) \<subseteq> set rs" "pl \<in> list_places tv" "y \<in> list_span pl"
  shows "\<exists>r \<in> object_region ` set (tv_objects tv). y \<in> region r"
proof (cases pl)
  case (In_node a)
  then have "(a, sizeof_list) \<in> tree_parts tv" using assms(3) list_part by blast
  from parts_in_objects(1)[OF assms(1,2) this] In_node assms(4) show ?thesis by auto
qed (use assms in simp)

lemma list_spans_apart:
  assumes "holds st rs" "object_region ` set (tv_objects tv) \<subseteq> set rs" "sorted_wrt apart (map object_region (tv_objects tv))"
    "pl \<in> list_places tv"
  shows "q \<in> list_places tv \<Longrightarrow> q \<noteq> pl \<Longrightarrow> list_span q \<inter> list_span pl = {}"
    "(x, n) \<in> tree_fields tv \<Longrightarrow> span x n \<inter> list_span pl = {}"
proof -
  show "list_span q \<inter> list_span pl = {}" if q: "q \<in> list_places tv" "q \<noteq> pl"
  proof (cases q; cases pl)
    fix a b
    assume ab: "q = In_node a" "pl = In_node b"
    then have parts: "(a, sizeof_list) \<in> tree_parts tv" "(b, sizeof_list) \<in> tree_parts tv" "a \<noteq> b"
      using list_part q assms(4) by auto
    have "span a sizeof_list \<inter> span b sizeof_list = {}"
      using tree_parts_apart[OF assms(1-3) parts(1,2)] parts(3) by simp
    with ab show ?thesis by simp
  qed simp_all
  show "span x n \<inter> list_span pl = {}" if X: "(x, n) \<in> tree_fields tv"
  proof (cases pl)
    case (In_node a)
    then have "(a, sizeof_list) \<in> tree_parts tv" using list_part assms(4) by blast
    moreover have "(x, n) \<noteq> (a, sizeof_list)" using tree_parts_fields[OF X] by (auto simp: sizeof_list_def)
    ultimately have "span x n \<inter> span a sizeof_list = {}"
      using tree_parts_apart[OF assms(1-3)] tree_parts_fields[OF X] by blast
    with In_node show ?thesis by simp
  qed simp
qed

text \<open>Setting a list changes its bytes only.\<close>

lemma list_set_other_bytes:
  assumes "holds st rs" "object_region ` set (tv_objects tv) \<subseteq> set rs" "pl \<in> list_places tv" "unat y \<notin> list_span pl"
  shows "bytes (fst (list_set write_at pl arr (st', ls))) y = bytes st' y"
proof (cases pl)
  case (In_node a)
  then have "(a, sizeof_list) \<in> tree_parts tv" using assms(3) list_part by blast
  from parts_in_objects(2)[OF assms(1,2) this] In_node assms(4) show ?thesis
    by (simp add: list_store_def bytes_write write_outside)
qed simp

lemma list_get_set:
  "list_get bytes pl (list_set write_at pl arr st) = arr"
proof (cases pl)
  case (In_node a)
  have "read_bytes (write_bytes a (list_bytes arr) (bytes (fst st))) a sizeof_list = list_bytes arr"
    by (intro read_write_same) (simp_all add: sizeof_list_def)
  with In_node show ?thesis by (simp add: list_load_def list_store_def bytes_write list_of_list_bytes)
qed simp

lemma list_get_bytes_same:
  assumes "holds st rs" "object_region ` set (tv_objects tv) \<subseteq> set rs" "pl \<in> list_places tv"
    and "\<And>y. unat y \<in> list_span pl \<Longrightarrow> bytes (fst st'') y = bytes (fst st') y" "\<And>i. pl = Local i \<Longrightarrow> snd st'' i = snd st' i"
  shows "list_get bytes pl st'' = list_get bytes pl st'"
proof (rule list_get_same)
  fix a
  assume pl: "pl = In_node a"
  then have "(a, sizeof_list) \<in> tree_parts tv" using assms(3) list_part by blast
  from parts_in_objects(2)[OF assms(1,2) this] show
    "read_bytes (bytes (fst st'')) a sizeof_list = read_bytes (bytes (fst st')) a sizeof_list"
    using assms(4) pl by (intro read_bytes_cong) simp_all
qed (use assms in simp)

lemma list_get_set_other:
  assumes st: "holds st rs" "object_region ` set (tv_objects tv) \<subseteq> set rs" "sorted_wrt apart (map object_region (tv_objects tv))"
    and pl: "pl \<in> list_places tv" "q \<in> list_places tv" "q \<noteq> pl"
  shows "list_get bytes q (list_set write_at pl arr st') = list_get bytes q st'"
proof (rule list_get_bytes_same[OF st(1,2) pl(2)])
  show "bytes (fst (list_set write_at pl arr st')) y = bytes (fst st') y" if "unat y \<in> list_span q" for y
    using list_spans_apart(1)[OF st pl] that list_set_other_bytes[OF st(1,2) pl(1), of y arr "fst st'" "snd st'"] by auto
  show "snd (list_set write_at pl arr st') i = snd st' i" if "q = Local i" for i
    using that pl(3) by (cases pl) auto
qed

text \<open>What the invariant says of one list is kept when nothing of the list changes.\<close>

lemma list_elements_same:
  assumes st: "holds (fst st) rs" and ok: "list_ok bytes rs tv st pl"
    and same: "\<And>x. arr_capacity (list_get bytes pl st) \<noteq> 0 \<Longrightarrow> unat x \<in> region (array_region (list_get bytes pl st)) \<Longrightarrow>
      bytes (fst st') x = bytes (fst st) x"
  shows "array_elements bytes (list_get bytes pl st) (fst st') = array_elements bytes (list_get bytes pl st) (fst st)"
proof -
  have arr: "array_ok (list_get bytes pl st) rs" using ok by (simp add: list_ok_def)
  show ?thesis
  proof (cases "arr_capacity (list_get bytes pl st) = 0")
    case True
    then show ?thesis using arr by (simp add: array_ok_def array_elements_def)
  next
    case False
    then show ?thesis using array_elements_same[OF st arr] same by blast
  qed
qed

lemma list_ok_kept:
  assumes st: "holds (fst st) rs" and ok: "list_ok bytes rs tv st pl" and get: "list_get bytes pl st' = list_get bytes pl st"
    and same: "\<And>x. arr_capacity (list_get bytes pl st) \<noteq> 0 \<Longrightarrow> unat x \<in> region (array_region (list_get bytes pl st)) \<Longrightarrow>
      bytes (fst st') x = bytes (fst st) x"
    and lists: "tv_lists tv' pl = tv_lists tv pl" and rs: "set rs \<subseteq> set rs'"
    and own: "arr_capacity (list_get bytes pl st) \<noteq> 0 \<Longrightarrow> array_region (list_get bytes pl st) \<in> set rs \<Longrightarrow>
      array_region (list_get bytes pl st) \<notin> object_region ` set (tv_objects tv') \<and>
      (\<forall>q \<in> list_places tv'. q \<noteq> pl \<longrightarrow> array_region (list_get bytes q st') \<noteq> array_region (list_get bytes pl st))"
  shows "list_ok bytes rs' tv' st' pl"
proof -
  let ?arr = "list_get bytes pl st"
  have arr: "array_ok ?arr rs" "array_elements bytes ?arr (fst st) = tv_lists tv pl" using ok by (simp_all add: list_ok_def)
  note list_elements_same[OF st ok same]
  moreover have "array_ok ?arr rs'" using arr(1) rs by (auto simp: array_ok_def)
  ultimately show ?thesis using arr own lists get by (auto simp: list_ok_def array_ok_def)
qed

lemma empty_list_ok:
  assumes "arr_capacity (list_get bytes pl st) = 0" "arr_count (list_get bytes pl st) = 0" "tv_lists tv pl = []"
  shows "list_ok bytes rs tv st pl"
  using assms by (simp add: list_ok_def array_ok_def array_elements_def)

text \<open>The elements of a list are apart from every object and from those of every other list.\<close>

lemma list_region_held:
  assumes "tree_ok bytes rs tv st" "pl \<in> list_places tv" "arr_capacity (list_get bytes pl st) \<noteq> 0"
  shows "array_region (list_get bytes pl st) \<in> set rs"
proof -
  have "list_ok bytes rs tv st pl" using assms(1,2) by (simp add: tree_ok_def)
  then show ?thesis using assms(3) by (simp add: list_ok_def array_ok_def)
qed

lemma elements_apart:
  assumes st: "holds (fst st) rs" and ok: "tree_ok bytes rs tv st" and pl: "pl \<in> list_places tv"
    and cap: "arr_capacity (list_get bytes pl st) \<noteq> 0"
  shows "r \<in> object_region ` set (tv_objects tv) \<Longrightarrow> apart (array_region (list_get bytes pl st)) r"
    "q \<in> list_places tv \<Longrightarrow> q \<noteq> pl \<Longrightarrow> arr_capacity (list_get bytes q st) \<noteq> 0 \<Longrightarrow>
     apart (array_region (list_get bytes pl st)) (array_region (list_get bytes q st))"
proof -
  have lok: "list_ok bytes rs tv st pl" using ok pl by (simp add: tree_ok_def)
  note mem = list_region_held[OF ok pl cap]
  show "apart (array_region (list_get bytes pl st)) r" if "r \<in> object_region ` set (tv_objects tv)"
  proof (rule apart_pair[OF regions_apart[OF st] mem])
    show "r \<in> set rs" using ok that by (auto simp: tree_ok_def)
    show "array_region (list_get bytes pl st) \<noteq> r" using lok cap that by (auto simp only: list_ok_def)
  qed
  show "apart (array_region (list_get bytes pl st)) (array_region (list_get bytes q st))"
    if "q \<in> list_places tv" "q \<noteq> pl" "arr_capacity (list_get bytes q st) \<noteq> 0"
  proof (rule apart_pair[OF regions_apart[OF st] mem])
    show "array_region (list_get bytes q st) \<in> set rs" using list_region_held[OF ok that(1,3)] .
    show "array_region (list_get bytes pl st) \<noteq> array_region (list_get bytes q st)"
      using lok cap that by (metis list_ok_def)
  qed
qed

text \<open>So no byte of an object is one of an element of a list.\<close>

lemma elements_not_words:
  assumes "holds (fst st) rs" "tree_ok bytes rs tv st" "pl \<in> list_places tv" "arr_capacity (list_get bytes pl st) \<noteq> 0"
    "unat x \<in> region (array_region (list_get bytes pl st))"
  shows "(y, n) \<in> tree_fields tv \<Longrightarrow> unat x \<notin> span y n" "q \<in> list_places tv \<Longrightarrow> unat x \<notin> list_span q"
proof -
  have objs: "object_region ` set (tv_objects tv) \<subseteq> set rs" using assms(2) by (simp add: tree_ok_def)
  have out: "unat x \<notin> region r" if "r \<in> object_region ` set (tv_objects tv)" for r
    using elements_apart(1)[OF assms(1-4) that] assms(5) by blast
  show "unat x \<notin> span y n" if "(y, n) \<in> tree_fields tv"
    using parts_in_objects(1)[OF assms(1) objs conjunct1[OF tree_parts_fields[OF that]]] out by blast
  show "unat x \<notin> list_span q" if "q \<in> list_places tv" using list_span_in_objects[OF assms(1) objs that] out by blast
qed

section \<open>Creating and assigning\<close>

text \<open>Creating an object adds it, with its fields and empty lists, and leaves the rest of the tree alone.\<close>

lemma new_list_empty:
  assumes "holds st rs" "object_create alloc write_at obj st = Inr (p, st')" "pl \<in> new_places p obj"
  shows "arr_capacity (list_get bytes pl (st', ls)) = 0 \<and> arr_count (list_get bytes pl (st', ls)) = 0"
proof -
  from assms(3) obtain place where pl: "pl = In_node (p + place)" "place \<in> set (object_lists obj)" by auto
  have "(place, replicate sizeof_list 0) \<in> set (object_writes obj)" using pl(2) by (simp add: object_writes_def)
  then have "read_bytes (bytes st') (p + place) (length (replicate sizeof_list (0 :: u8))) = replicate sizeof_list 0"
    using object_created[OF assms(1,2)] by blast
  then show ?thesis by (simp add: pl list_load_def list_of_zeros)
qed

lemma created_keeps_list:
  assumes st: "holds st rs" and ok: "tree_ok bytes rs tv (st, ls)" and run: "object_create alloc write_at obj st = Inr (p, st')"
    and old: "pl \<notin> new_places p obj" and pl: "pl \<in> list_places tv"
  shows "list_ok bytes ((p, object_size obj) # rs) (tv_create p obj tv) (st', ls) pl"
proof -
  let ?n = "object_size obj" and ?tv = "tv_create p obj tv" and ?arr = "list_get bytes pl (st, ls)"
  from object_created[OF st run] have fresh: "(p, ?n) \<notin> set rs"
    and keep: "\<And>x. unat x \<in> (\<Union>r \<in> set rs. region r) \<Longrightarrow> bytes st' x = bytes st x" by blast+
  have objs: "object_region ` set (tv_objects tv) \<subseteq> set rs" and lok: "list_ok bytes rs tv (st, ls) pl"
    using ok pl by (simp_all add: tree_ok_def)
  have get: "list_get bytes q (st', ls) = list_get bytes q (st, ls)" if "q \<in> list_places tv" for q
    using list_span_in_objects[OF st objs that] objs by (intro list_get_bytes_same[OF st objs that]) (auto intro!: keep)
  show ?thesis
  proof (rule list_ok_kept[OF _ lok get[OF pl]])
    fix x :: u64
    assume "arr_capacity ?arr \<noteq> 0" "unat x \<in> region (array_region ?arr)"
    with list_region_held[OF ok pl] show "bytes (fst (st', ls)) x = bytes (fst (st, ls)) x" by (auto intro!: keep)
  next
    assume cap: "arr_capacity ?arr \<noteq> 0" and r: "array_region ?arr \<in> set rs"
    have "array_region (list_get bytes q (st', ls)) \<noteq> array_region ?arr" if q: "q \<in> list_places ?tv" "q \<noteq> pl" for q
    proof (cases "q \<in> new_places p obj")
      case True
      from array_region_empty[OF conjunct1[OF new_list_empty[OF st run True]]] array_region_empty'[OF cap]
      show ?thesis by metis
    next
      case False
      then have "q \<in> list_places tv" using q(1) by auto
      with lok get cap q(2) show ?thesis by (simp add: list_ok_def)
    qed
    moreover have "array_region ?arr \<noteq> (p, ?n)" using r fresh by metis
    ultimately show "array_region ?arr \<notin> object_region ` set (tv_objects ?tv) \<and>
      (\<forall>q \<in> list_places ?tv. q \<noteq> pl \<longrightarrow> array_region (list_get bytes q (st', ls)) \<noteq> array_region ?arr)"
      using lok cap by (simp add: list_ok_def)
  qed (use st old in \<open>auto simp: tv_create_def\<close>)
qed

lemma tree_okI:
  "object_region ` set (tv_objects tv) \<subseteq> set rs \<Longrightarrow> sorted_wrt apart (map object_region (tv_objects tv)) \<Longrightarrow>
   (\<And>x n. (x, n) \<in> tree_fields tv \<Longrightarrow> read_bytes (bytes (fst st)) x n = tv_fields tv x) \<Longrightarrow>
   (\<And>pl. pl \<in> list_places tv \<Longrightarrow> list_ok bytes rs tv st pl) \<Longrightarrow> tree_ok bytes rs tv st"
  by (auto simp: tree_ok_def)

lemma tree_create_result:
  assumes st: "holds st rs" and ok: "tree_ok bytes rs tv (st, ls)" and run: "object_create alloc write_at obj st = Inr (p, st')"
  shows "holds st' ((p, object_size obj) # rs) \<and> tree_ok bytes ((p, object_size obj) # rs) (tv_create p obj tv) (st', ls)"
proof -
  let ?n = "object_size obj" and ?tv = "tv_create p obj tv" and ?rs = "(p, object_size obj) # rs"
  from object_created[OF st run] have st': "holds st' ?rs"
    and keep: "\<And>x. unat x \<in> (\<Union>r \<in> set rs. region r) \<Longrightarrow> bytes st' x = bytes st x"
    and new: "\<And>place w. (place, w) \<in> set (object_writes obj) \<Longrightarrow> read_bytes (bytes st') (p + place) (length w) = w" by blast+
  have objs: "object_region ` set (tv_objects tv) \<subseteq> set rs" using ok by (simp add: tree_ok_def)
  have mine: "\<forall>r \<in> set rs. apart (p, ?n) r" "unat p + unat ?n < 2 ^ 64"
    using regions_apart[OF st'] regions_fit[OF st', of "(p, ?n)"] by simp_all
  then have "sorted_wrt apart (map object_region (tv_objects ?tv))" using ok objs by (auto simp: tree_ok_def)
  moreover have "read_bytes (bytes st') x n = tv_fields ?tv x" if X: "(x, n) \<in> tree_fields ?tv" for x n
  proof (cases "(x - p, n) \<in> set (object_fields obj)")
    case True
    from new[OF field_written(1)[OF True]] field_written(2)[OF True] show ?thesis by (simp add: tv_create_def)
  next
    case False
    then have X: "(x, n) \<in> tree_fields tv" using X by auto
    note part = parts_in_objects[OF st objs conjunct1[OF tree_parts_fields[OF X]]]
    have "map_of (object_fields obj) (x - p) = None"
    proof (rule ccontr)
      assume "map_of (object_fields obj) (x - p) \<noteq> None"
      then obtain m where "(x - p, m) \<in> set (object_fields obj)" by (auto dest: map_of_SomeD)
      then have "(x - p, m) \<in> set (object_parts obj)" by (simp add: object_parts_def)
      note fits = part_fits[OF this, unfolded fst_conv snd_conv]
      have "unat x \<in> region (p, ?n)"
        using place_in_object(2)[OF mine(2) conjunct2[OF fits]] fits by (auto simp: span_def)
      moreover have "unat x \<in> span x n" using part(3) by (simp add: span_def)
      ultimately show False using part(1) mine(1) objs by blast
    qed
    moreover have "read_bytes (bytes st') x n = read_bytes (bytes st) x n"
      using part objs by (intro read_bytes_cong) (auto intro!: keep)
    ultimately show ?thesis using X ok by (auto simp: tv_create_def tree_ok_def)
  qed
  moreover have "list_ok bytes ?rs ?tv (st', ls) pl" if "pl \<in> list_places ?tv" for pl
  proof (cases "pl \<in> new_places p obj")
    case True
    with new_list_empty[OF st run True, of ls] show ?thesis by (intro empty_list_ok) (simp_all add: tv_create_def)
  next
    case False
    then have "pl \<in> list_places tv" using that by auto
    with False show ?thesis by (rule created_keeps_list[OF st ok run])
  qed
  moreover have "object_region ` set (tv_objects ?tv) \<subseteq> set ?rs" using objs by auto
  ultimately have "tree_ok bytes ?rs ?tv (st', ls)" by (intro tree_okI) simp_all
  with st' show ?thesis by simp
qed

lemma tree_assign_result:
  assumes st: "holds st rs" and ok: "tree_ok bytes rs tv (st, ls)" and x: "(x, length w) \<in> tree_fields tv"
  shows "holds (write_at x w st) rs \<and> tree_ok bytes rs (tv_assign x w tv) (write_at x w st, ls)"
proof -
  have objs: "object_region ` set (tv_objects tv) \<subseteq> set rs" and sorted: "sorted_wrt apart (map object_region (tv_objects tv))"
    using ok by (simp_all add: tree_ok_def)
  have px: "(x, length w) \<in> tree_parts tv" using tree_parts_fields[OF x] by simp
  note part = parts_in_objects[OF st objs px]
  obtain r where r: "r \<in> object_region ` set (tv_objects tv)" "span x (length w) \<subseteq> region r" using part(1) by blast
  have other: "bytes (write_at x w st) y = bytes st y" if "unat y \<notin> span x (length w)" for y
    unfolding bytes_write using part(2) that by (rule write_outside)
  have get: "list_get bytes pl (write_at x w st, ls) = list_get bytes pl (st, ls)" if "pl \<in> list_places tv" for pl
    using list_spans_apart(2)[OF st objs sorted that x]
    by (intro list_get_bytes_same[OF st objs that]) (auto intro!: other)
  have "list_ok bytes rs (tv_assign x w tv) (write_at x w st, ls) pl" if pl: "pl \<in> list_places tv" for pl
  proof (rule list_ok_kept[OF _ _ get[OF pl]])
    show lok: "list_ok bytes rs tv (st, ls) pl" using ok pl by (simp add: tree_ok_def)
    show "bytes (fst (write_at x w st, ls)) y = bytes (fst (st, ls)) y"
      if "arr_capacity (list_get bytes pl (st, ls)) \<noteq> 0" "unat y \<in> region (array_region (list_get bytes pl (st, ls)))" for y
      using elements_not_words(1)[OF _ ok pl that x] st other by simp
    show "array_region (list_get bytes pl (st, ls)) \<notin> object_region ` set (tv_objects (tv_assign x w tv)) \<and>
      (\<forall>q \<in> list_places (tv_assign x w tv). q \<noteq> pl \<longrightarrow>
         array_region (list_get bytes q (write_at x w st, ls)) \<noteq> array_region (list_get bytes pl (st, ls)))"
      if "arr_capacity (list_get bytes pl (st, ls)) \<noteq> 0"
      using lok that get by (simp add: list_ok_def)
  qed (simp_all add: st)
  moreover have "read_bytes (bytes (write_at x w st)) y n = tv_fields (tv_assign x w tv) y" if Y: "(y, n) \<in> tree_fields tv" for y n
  proof (cases "(y, n) = (x, length w)")
    case True
    then show ?thesis unfolding bytes_write using part(2) by (simp add: read_write_same)
  next
    case False
    note py = parts_in_objects[OF st objs conjunct1[OF tree_parts_fields[OF Y]]]
    have apart: "span y n \<inter> span x (length w) = {}"
      using tree_parts_apart[OF st objs sorted conjunct1[OF tree_parts_fields[OF Y]] px] False by simp
    then have "y \<noteq> x" using py(3) part(3) by (auto simp: span_def)
    moreover have "read_bytes (bytes (write_at x w st)) y n = read_bytes (bytes st) y n"
      using read_other_part[OF py(2) part(2) apart] .
    ultimately show ?thesis using ok Y by (auto simp: tree_ok_def)
  qed
  moreover have "holds (write_at x w st) rs" using write_holds[OF st _ r(2) part(2)] r(1) objs by blast
  ultimately show ?thesis using ok objs by (auto simp: tree_ok_def)
qed

text \<open>
  Defining and assigning local lists only moves the arrays of lists to other places, or empties
  places: \<open>src\<close> tells for each place where its array comes from.
\<close>

lemma list_rearrange:
  assumes st: "holds (fst st) rs" and ok: "tree_ok bytes rs tv st"
    and tv: "tv_objects tv' = tv_objects tv" "tv_fields tv' = tv_fields tv"
    and same_bytes: "\<And>y. unat y \<notin> \<Union> (list_span ` list_places tv) \<Longrightarrow> bytes (fst st') y = bytes (fst st) y"
    and src: "\<And>q. q \<in> list_places tv \<Longrightarrow> case src q of
        None \<Rightarrow> list_get bytes q st' = array_default \<and> tv_lists tv' q = []
      | Some q0 \<Rightarrow> q0 \<in> list_places tv \<and> list_get bytes q st' = list_get bytes q0 st \<and> tv_lists tv' q = tv_lists tv q0"
    and inj: "\<And>q q' q0. src q = Some q0 \<Longrightarrow> src q' = Some q0 \<Longrightarrow> q = q'"
  shows "tree_ok bytes rs tv' st'"
proof -
  note places = same_places[OF tv(1)]
  have objs: "object_region ` set (tv_objects tv) \<subseteq> set rs" and sorted: "sorted_wrt apart (map object_region (tv_objects tv))"
    using ok by (simp_all add: tree_ok_def)
  have "list_ok bytes rs tv' st' q" if q: "q \<in> list_places tv" for q
  proof (cases "src q")
    case None
    then show ?thesis using src[OF q] by (intro empty_list_ok) (simp_all add: array_default_def)
  next
    case (Some q0)
    let ?arr = "list_get bytes q0 st"
    have q0: "q0 \<in> list_places tv" "list_get bytes q st' = ?arr" "tv_lists tv' q = tv_lists tv q0" using src[OF q] Some by auto
    have lok: "list_ok bytes rs tv st q0" using ok q0(1) by (simp add: tree_ok_def)
    have same: "bytes (fst st') x = bytes (fst st) x" if "arr_capacity ?arr \<noteq> 0" "unat x \<in> region (array_region ?arr)" for x
      using elements_not_words(2)[OF st ok q0(1) that] by (intro same_bytes) blast
    note els = list_elements_same[OF st lok same]
    have "array_region (list_get bytes q' st') \<noteq> array_region ?arr"
      if q': "q' \<in> list_places tv" "q' \<noteq> q" and cap: "arr_capacity ?arr \<noteq> 0" for q'
    proof (cases "src q'")
      case None
      then have "snd (array_region (list_get bytes q' st')) = 0"
        using src[OF q'(1)] by (intro array_region_empty) (simp add: array_default_def)
      then show ?thesis using array_region_empty'[OF cap] by metis
    next
      case (Some q1)
      then have "q1 \<noteq> q0" using inj[OF Some] \<open>src q = Some q0\<close> q'(2) by blast
      with src[OF q'(1)] Some lok cap show ?thesis by (simp add: list_ok_def)
    qed
    then show ?thesis using lok els q0 by (simp add: list_ok_def places tv(1))
  qed
  moreover have "read_bytes (bytes (fst st')) x n = tv_fields tv x" if x: "(x, n) \<in> tree_fields tv" for x n
  proof -
    have "read_bytes (bytes (fst st')) x n = read_bytes (bytes (fst st)) x n"
      using parts_in_objects(2)[OF st objs conjunct1[OF tree_parts_fields[OF x]]] list_spans_apart(2)[OF st objs sorted _ x]
      by (intro read_bytes_cong same_bytes) blast+
    then show ?thesis using ok x by (auto simp: tree_ok_def)
  qed
  ultimately show ?thesis using ok by (auto simp: tree_ok_def places tv)
qed

lemma list_set_holds:
  assumes "holds (fst st) rs" "object_region ` set (tv_objects tv) \<subseteq> set rs" "pl \<in> list_places tv"
  shows "holds (fst (list_set write_at pl arr st)) rs"
proof (cases pl)
  case (In_node a)
  then have "(a, sizeof_list) \<in> tree_parts tv" using assms(3) list_part by blast
  note part = parts_in_objects[OF assms(1,2) this]
  from part(1) obtain r where "r \<in> set rs" "span a (length (list_bytes arr)) \<subseteq> region r" using assms(2) by auto
  from write_holds[OF assms(1) this] part(2) show ?thesis using In_node by (simp add: list_store_def)
qed (use assms in simp)

lemma tree_local_result:
  assumes "holds (fst st) rs" "tree_ok bytes rs tv st"
  shows "tree_ok bytes rs (tv_local i tv) (local_list i st)"
  by (rule list_rearrange[OF assms, where src = "\<lambda>q. if q = Local i then None else Some q"])
    (auto simp: local_list_def list_places_def split: if_splits)

lemma tree_list_assign_result:
  assumes st: "holds (fst st) rs" and ok: "tree_ok bytes rs tv st" and a: "a \<in> list_addresses tv"
  shows "holds (fst (list_assign write_at a i st)) rs \<and> tree_ok bytes rs (tv_list_assign a i tv) (list_assign write_at a i st)"
proof
  have pl: "In_node a \<in> list_places tv" using a by (simp add: list_places_def)
  have objs: "object_region ` set (tv_objects tv) \<subseteq> set rs" and sorted: "sorted_wrt apart (map object_region (tv_objects tv))"
    using ok by (simp_all add: tree_ok_def)
  show "holds (fst (list_assign write_at a i st)) rs"
    using list_set_holds[OF st objs pl] by (simp add: list_assign_def local_list_def)
  let ?st = "list_set write_at (In_node a) (snd st i) st"
  have get: "list_get bytes q (list_assign write_at a i st) = (if q = Local i then array_default else list_get bytes q ?st)" for q
    by (cases q) (simp_all add: list_assign_def local_list_def)
  have other: "list_get bytes q ?st = (if q = In_node a then snd st i else list_get bytes q st)" if "q \<in> list_places tv" for q
    using list_get_set[of "In_node a" "snd st i" st] list_get_set_other[OF st objs sorted pl that, of "snd st i" st]
    by (cases "q = In_node a") simp_all
  show "tree_ok bytes rs (tv_list_assign a i tv) (list_assign write_at a i st)"
  proof (rule list_rearrange[OF st ok, where src = "\<lambda>q. if q = Local i then None else if q = In_node a then Some (Local i) else Some q"])
    show "bytes (fst (list_assign write_at a i st)) y = bytes (fst st) y" if "unat y \<notin> \<Union> (list_span ` list_places tv)" for y
      using list_set_other_bytes[OF st objs pl, of y "snd st i" "fst st" "snd st"] that pl
      by (auto simp: list_assign_def local_list_def)
    show "case if q = Local i then None else if q = In_node a then Some (Local i) else Some q of
        None \<Rightarrow> list_get bytes q (list_assign write_at a i st) = array_default \<and> tv_lists (tv_list_assign a i tv) q = []
      | Some q0 \<Rightarrow> q0 \<in> list_places tv \<and> list_get bytes q (list_assign write_at a i st) = list_get bytes q0 st \<and>
          tv_lists (tv_list_assign a i tv) q = tv_lists tv q0" if "q \<in> list_places tv" for q
      using get[of q] other[OF that] that by (auto simp: list_places_def)
  qed (auto split: if_splits)
qed

section \<open>Extending lists\<close>

lemma new_elements_apart:
  assumes st: "holds (fst st) rs" and ok: "tree_ok bytes rs tv st" and pl: "pl \<in> list_places tv"
    and region: "array_region arr = array_region (list_get bytes pl st) \<and> arr_capacity (list_get bytes pl st) \<noteq> 0 \<or>
      (\<forall>r \<in> set rs. apart (array_region arr) r)"
  shows "r \<in> object_region ` set (tv_objects tv) \<Longrightarrow> apart (array_region arr) r"
    "q \<in> list_places tv \<Longrightarrow> q \<noteq> pl \<Longrightarrow> arr_capacity (list_get bytes q st) \<noteq> 0 \<Longrightarrow>
     apart (array_region arr) (array_region (list_get bytes q st))"
proof -
  show "apart (array_region arr) r" if "r \<in> object_region ` set (tv_objects tv)"
  proof -
    have "r \<in> set rs" using ok that by (auto simp: tree_ok_def)
    then show ?thesis using region elements_apart(1)[OF st ok pl _ that] by fastforce
  qed
  show "apart (array_region arr) (array_region (list_get bytes q st))"
    if q: "q \<in> list_places tv" "q \<noteq> pl" "arr_capacity (list_get bytes q st) \<noteq> 0"
    using region elements_apart(2)[OF st ok pl _ q] list_region_held[OF ok q(1,3)] by fastforce
qed

text \<open>
  The elements of the list stay apart from all else, whether they have moved or not, and no word
  changes but those of the list and of its elements.
\<close>

lemma list_put_result:
  assumes st: "holds (fst st) rs" and ok: "tree_ok bytes rs tv st" and pl: "pl \<in> list_places tv"
    and few: "length (tv_lists tv pl) < 2 ^ 31" and run: "list_put alloc bytes write_at pl node st = Inr st'"
  obtains rs' st1 arr where "st' = list_set write_at pl arr (st1, snd st)" "holds (fst st') rs'" "set rs \<subseteq> set rs'"
    "array_ok arr rs'" "arr_capacity arr \<noteq> 0" "array_elements bytes arr (fst st') = tv_lists tv pl @ [node]"
    "\<And>r. r \<in> object_region ` set (tv_objects tv) \<Longrightarrow> apart (array_region arr) r"
    "\<And>q. q \<in> list_places tv \<Longrightarrow> q \<noteq> pl \<Longrightarrow> arr_capacity (list_get bytes q st) \<noteq> 0 \<Longrightarrow>
       apart (array_region arr) (array_region (list_get bytes q st))"
    "\<And>x. unat x \<in> (\<Union>r \<in> set rs. region r) \<Longrightarrow> unat x \<notin> region (array_region (list_get bytes pl st)) \<Longrightarrow> bytes st1 x = bytes (fst st) x"
proof -
  let ?arr = "list_get bytes pl st"
  have objs: "object_region ` set (tv_objects tv) \<subseteq> set rs" and lok: "list_ok bytes rs tv st pl"
    using ok pl by (simp_all add: tree_ok_def)
  from run obtain arr st1 where put: "array_put alloc bytes write_at node ?arr (fst st) = Inr (arr, st1)"
    and st': "st' = list_set write_at pl arr (st1, snd st)" by (auto simp: list_put_def split: sum.splits)
  have arr: "array_ok ?arr rs" and els: "array_elements bytes ?arr (fst st) = tv_lists tv pl"
    using lok by (simp_all add: list_ok_def)
  have "length (array_elements bytes ?arr (fst st)) = unat (arr_count ?arr)" by (simp add: array_elements_def)
  with few els have "unat (arr_count ?arr) < 2 ^ 31" by simp
  from put_result[OF st arr this put] obtain rs' where st1: "holds st1 rs'" and sub: "set rs \<subseteq> set rs'"
    and arr': "array_ok arr rs'" "arr_capacity arr \<noteq> 0"
    and region: "array_region arr = array_region ?arr \<and> arr_capacity ?arr \<noteq> 0 \<or> (\<forall>r \<in> set rs. apart (array_region arr) r)"
    and els': "array_elements bytes arr st1 = array_elements bytes ?arr (fst st) @ [node]"
    and keep: "\<And>x. unat x \<in> (\<Union>r \<in> set rs. region r) \<Longrightarrow> unat x \<notin> region (array_region ?arr) \<Longrightarrow> bytes st1 x = bytes (fst st) x"
    by (elim exE conjE) (rule that; (assumption | blast))
  note apart = new_elements_apart[OF st ok pl region]
  have objs': "object_region ` set (tv_objects tv) \<subseteq> set rs'" using objs sub by blast
  have "bytes (fst st') x = bytes st1 x" if "unat x \<in> region (array_region arr)" for x
    unfolding st' using list_span_in_objects[OF st1 objs' pl, of "unat x"] apart(1) that
    by (intro list_set_other_bytes[OF st1 objs' pl]) blast
  then have "array_elements bytes arr (fst st') = array_elements bytes arr st1"
    by (intro array_elements_same[OF st1 arr'(1)])
  moreover have "holds (fst st') rs'" unfolding st' using st1 by (intro list_set_holds[OF _ objs' pl]) simp
  ultimately show thesis using that[OF st' _ sub arr' _ apart keep] els els' by simp
qed

lemma old_elements_apart:
  assumes st: "holds (fst st) rs" and ok: "tree_ok bytes rs tv st" and pl: "pl \<in> list_places tv"
    and y: "y \<in> region (array_region (list_get bytes pl st))"
  shows "(\<forall>r \<in> object_region ` set (tv_objects tv). y \<notin> region r) \<and>
    (\<forall>q \<in> list_places tv. q \<noteq> pl \<longrightarrow> arr_capacity (list_get bytes q st) \<noteq> 0 \<longrightarrow>
       y \<notin> region (array_region (list_get bytes q st)))"
proof -
  have "arr_capacity (list_get bytes pl st) \<noteq> 0" using y array_region_empty by (auto simp: region_def)
  from elements_apart[OF st ok pl this] y show ?thesis by blast
qed

lemma list_put_keeps:
  assumes st: "holds (fst st) rs" and ok: "tree_ok bytes rs tv st" and pl: "pl \<in> list_places tv"
    and keep: "\<forall>x. unat x \<in> (\<Union>r \<in> set rs. region r) \<and> unat x \<notin> region (array_region (list_get bytes pl st)) \<longrightarrow>
      bytes st1 x = bytes (fst st) x"
    and st': "st' = list_set write_at pl arr (st1, snd st)"
  shows "(x, n) \<in> tree_fields tv \<Longrightarrow> read_bytes (bytes (fst st')) x n = read_bytes (bytes (fst st)) x n"
    "q \<in> list_places tv \<Longrightarrow> q \<noteq> pl \<Longrightarrow> list_get bytes q st' = list_get bytes q st"
    "q \<in> list_places tv \<Longrightarrow> q \<noteq> pl \<Longrightarrow> arr_capacity (list_get bytes q st) \<noteq> 0 \<Longrightarrow>
       unat x \<in> region (array_region (list_get bytes q st)) \<Longrightarrow> bytes (fst st') x = bytes (fst st) x"
proof -
  have objs: "object_region ` set (tv_objects tv) \<subseteq> set rs" and sorted: "sorted_wrt apart (map object_region (tv_objects tv))"
    using ok by (simp_all add: tree_ok_def)
  note outside = old_elements_apart[OF st ok pl]
  have object: "bytes st1 y = bytes (fst st) y" if "\<exists>r \<in> object_region ` set (tv_objects tv). unat y \<in> region r" for y
    using keep outside[of "unat y"] objs that by blast
  have other: "bytes (fst st') y = bytes st1 y" if "unat y \<notin> list_span pl" for y
    using list_set_other_bytes[OF st objs pl that, of arr st1 "snd st"] by (simp add: st')
  show "read_bytes (bytes (fst st')) x n = read_bytes (bytes (fst st)) x n" if x: "(x, n) \<in> tree_fields tv"
  proof (rule read_bytes_cong)
    note part = parts_in_objects[OF st objs conjunct1[OF tree_parts_fields[OF x]]]
    show "unat x + n \<le> 2 ^ 64" by (rule part(2))
    show "bytes (fst st') y = bytes (fst st) y" if "unat y \<in> span x n" for y
    proof -
      have "\<exists>r \<in> object_region ` set (tv_objects tv). unat y \<in> region r" using part(1) that by blast
      moreover have "unat y \<notin> list_span pl" using list_spans_apart(2)[OF st objs sorted pl x] that by blast
      ultimately show ?thesis using trans[OF other object] by blast
    qed
  qed
  show "list_get bytes q st' = list_get bytes q st" if q: "q \<in> list_places tv" "q \<noteq> pl"
  proof -
    have "list_get bytes q st' = list_get bytes q (st1, snd st)"
      unfolding st' by (rule list_get_set_other[OF st objs sorted pl q])
    also have "\<dots> = list_get bytes q st"
      using list_span_in_objects[OF st objs q(1)] by (intro list_get_bytes_same[OF st objs q(1)]) (auto intro!: object)
    finally show ?thesis .
  qed
  show "bytes (fst st') x = bytes (fst st) x" if q: "q \<in> list_places tv" "q \<noteq> pl" "arr_capacity (list_get bytes q st) \<noteq> 0"
    "unat x \<in> region (array_region (list_get bytes q st))"
  proof -
    have "unat x \<in> (\<Union>r \<in> set rs. region r)" using list_region_held[OF ok q(1,3)] q(4) by blast
    moreover have "unat x \<notin> region (array_region (list_get bytes pl st))" using outside[of "unat x"] q by blast
    ultimately have "bytes st1 x = bytes (fst st) x" using keep by blast
    then show ?thesis using other[OF elements_not_words(2)[OF st ok q(1,3,4) pl]] by simp
  qed
qed

lemma regions_differ: "apart r q \<Longrightarrow> snd r \<noteq> 0 \<Longrightarrow> q \<noteq> r"
  by (auto simp: region_def unat_eq_zero)

lemma tree_put_result:
  assumes st: "holds (fst st) rs" and ok: "tree_ok bytes rs tv st" and pl: "pl \<in> list_places tv"
    and few: "length (tv_lists tv pl) < 2 ^ 31" and run: "list_put alloc bytes write_at pl node st = Inr st'"
  shows "\<exists>rs'. holds (fst st') rs' \<and> tree_ok bytes rs' (tv_put pl node tv) st'"
proof (rule list_put_result[OF assms])
  let ?tv = "tv_put pl node tv"
  fix rs' st1 arr
  assume st': "st' = list_set write_at pl arr (st1, snd st)" and held: "holds (fst st') rs'" and rs: "set rs \<subseteq> set rs'"
    and arr: "array_ok arr rs'" and cap: "arr_capacity arr \<noteq> 0" and els: "array_elements bytes arr (fst st') = tv_lists tv pl @ [node]"
    and objs_apart: "\<And>r. r \<in> object_region ` set (tv_objects tv) \<Longrightarrow> apart (array_region arr) r"
    and lists_apart: "\<And>q. q \<in> list_places tv \<Longrightarrow> q \<noteq> pl \<Longrightarrow> arr_capacity (list_get bytes q st) \<noteq> 0 \<Longrightarrow>
      apart (array_region arr) (array_region (list_get bytes q st))"
    and keep: "\<And>x. unat x \<in> (\<Union>r \<in> set rs. region r) \<Longrightarrow> unat x \<notin> region (array_region (list_get bytes pl st)) \<Longrightarrow>
      bytes st1 x = bytes (fst st) x"
  have "\<forall>x. unat x \<in> (\<Union>r \<in> set rs. region r) \<and> unat x \<notin> region (array_region (list_get bytes pl st)) \<longrightarrow>
      bytes st1 x = bytes (fst st) x" using keep by blast
  note keeps = list_put_keeps[OF st ok pl this st']
  note nonempty = array_region_empty'[OF cap]
  have get: "list_get bytes pl st' = arr" unfolding st' by (rule list_get_set)
  have differ: "array_region (list_get bytes q st) \<noteq> array_region arr" if q: "q \<in> list_places tv" "q \<noteq> pl" for q
    using regions_differ[OF lists_apart[OF q] nonempty] array_region_empty[of "list_get bytes q st"] nonempty by metis
  have "array_region arr \<notin> object_region ` set (tv_objects tv)" using regions_differ[OF objs_apart nonempty] by blast
  then have mine: "list_ok bytes rs' ?tv st' pl" using get arr cap els differ keeps(2) by (simp add: list_ok_def)
  have "list_ok bytes rs' ?tv st' q" if q: "q \<in> list_places tv" "q \<noteq> pl" for q
  proof (rule list_ok_kept[OF st _ keeps(2)[OF q] keeps(3)[OF q] _ rs])
    show lok: "list_ok bytes rs tv st q" using ok q(1) by (simp add: tree_ok_def)
    assume cap: "arr_capacity (list_get bytes q st) \<noteq> 0"
    have "array_region (list_get bytes q' st') \<noteq> array_region (list_get bytes q st)" if "q' \<in> list_places tv" "q' \<noteq> q" for q'
      using differ[OF q] keeps(2)[OF that(1)] get lok cap that by (cases "q' = pl") (auto simp: list_ok_def)
    then show "array_region (list_get bytes q st) \<notin> object_region ` set (tv_objects ?tv) \<and>
      (\<forall>q' \<in> list_places ?tv. q' \<noteq> q \<longrightarrow> array_region (list_get bytes q' st') \<noteq> array_region (list_get bytes q st))"
      using lok cap by (simp add: list_ok_def)
  qed (use q in simp_all)
  then have "list_ok bytes rs' ?tv st' q" if "q \<in> list_places tv" for q using mine that by metis
  moreover have "read_bytes (bytes (fst st')) x n = tv_fields tv x" if "(x, n) \<in> tree_fields tv" for x n
    using keeps(1)[OF that] ok that by (auto simp: tree_ok_def)
  ultimately have "tree_ok bytes rs' ?tv st'" using ok rs by (auto simp: tree_ok_def)
  with held show ?thesis by blast
qed

end

section \<open>The tree of the parser\<close>

text \<open>The size of the first block, from the number of tokens; \<open>sizeof(AstNode)\<close> is 4.\<close>

definition parser_arena_size :: "token list \<Rightarrow> u64" where
  "parser_arena_size token_list = word_of_nat (length token_list) * 4"

definition ast_create :: "operator_new \<Rightarrow> tree_object \<Rightarrow> arena_state \<Rightarrow> arena_error + u64 \<times> arena_state" where
  "ast_create new = object_create (arena_alloc new) arena_write"

definition ast_put ::
    "operator_new \<Rightarrow> list_place \<Rightarrow> u64 \<Rightarrow> arena_state with_locals \<Rightarrow> arena_error + arena_state with_locals" where
  "ast_put new = list_put (arena_alloc new) arena_bytes arena_write"

definition ast_init :: "operator_new \<Rightarrow> u64 \<Rightarrow> memory \<Rightarrow> arena_error + u64 \<times> arena_state" where
  "ast_init new arena_size m = ast_create new Root_object (arena_init arena_size, m)"

definition ast_get_memory_usage :: "arena_state \<Rightarrow> u64" where
  "ast_get_memory_usage st = get_total_size (fst st)"

text \<open>Creating an object is \<^const>\<open>arena_create\<close> with its constructor.\<close>

lemma arena_write_pair: "arena_write x w (a, m) = (a, m\<lparr>mem_bytes := write_bytes x w (mem_bytes m)\<rparr>)"
  by (simp add: arena_write_def)

lemma write_all_bytes:
  "write_all arena_write p ws st = (fst st, (snd st)\<lparr>mem_bytes :=
     foldr (\<lambda>w. write_bytes (p + fst w) (snd w)) ws (mem_bytes (snd st))\<rparr>)"
proof (induction ws)
  case (Cons w ws)
  show ?case by (simp only: write_all.simps Cons arena_write_pair foldr.simps o_apply) simp
qed simp

lemma ast_create_arena_create:
  "ast_create new obj st =
     (case arena_create new (object_size obj) (object_alignment obj)
        (\<lambda>p. foldr (\<lambda>w. write_bytes (p + fst w) (snd w)) (object_writes obj)) (fst st) (snd st) of
        Inl e \<Rightarrow> Inl e
      | Inr (p, a, m) \<Rightarrow> Inr (p, a, m))"
  by (simp add: ast_create_def object_create_def arena_alloc_def arena_create_def write_all_bytes split: sum.splits)

text \<open>Only a refused block makes an operation throw.\<close>

lemma arena_alloc_error: "arena_alloc new bytes alignment st = Inl e \<Longrightarrow> e = Bad_alloc \<and> (\<exists>n. new (snd st) n = None)"
  by (auto simp: arena_alloc_def dest!: allocate_error split: sum.splits)

lemma ast_create_error: "ast_create new obj st = Inl e \<Longrightarrow> e = Bad_alloc \<and> (\<exists>n. new (snd st) n = None)"
  by (auto simp: ast_create_def object_create_def dest!: arena_alloc_error split: sum.splits)

lemma ast_put_error: "ast_put new pl node st = Inl e \<Longrightarrow> e = Bad_alloc \<and> (\<exists>n. new (snd (fst st)) n = None)"
  using arena_array_put_error[of new node "list_get arena_bytes pl st" "fst st" e]
  by (auto simp: ast_put_def list_put_def arena_array_put_def split: sum.splits)

text \<open>
  What a parser can do to a tree, in any order: create a node, assign a field of a node, define a
  local list, put a pointer into a list, assign a local list to a list of a node. Beside the memory
  goes the view of the tree that it stands for.
\<close>

inductive tree_built :: "operator_new \<Rightarrow> u64 \<Rightarrow> memory \<Rightarrow> arena_state with_locals \<Rightarrow> tree_view \<Rightarrow> bool"
  for new :: operator_new and arena_size :: u64 and m :: memory where
  built_init: "ast_init new arena_size m = Inr (root, st) \<Longrightarrow>
    tree_built new arena_size m (st, \<lambda>_. array_default) (tv_create root Root_object tv_empty)"
| built_create: "tree_built new arena_size m (st, ls) tv \<Longrightarrow> ast_create new (Node_object kind offset) st = Inr (p, st') \<Longrightarrow>
    tree_built new arena_size m (st', ls) (tv_create p (Node_object kind offset) tv)"
| built_assign: "tree_built new arena_size m (st, ls) tv \<Longrightarrow> (x, length w) \<in> tree_fields tv \<Longrightarrow>
    tree_built new arena_size m (arena_write x w st, ls) (tv_assign x w tv)"
| built_local: "tree_built new arena_size m st tv \<Longrightarrow>
    tree_built new arena_size m (local_list i st) (tv_local i tv)"
| built_put: "tree_built new arena_size m st tv \<Longrightarrow> pl \<in> list_places tv \<Longrightarrow> length (tv_lists tv pl) < 2 ^ 31 \<Longrightarrow>
    ast_put new pl node st = Inr st' \<Longrightarrow> tree_built new arena_size m st' (tv_put pl node tv)"
| built_list_assign: "tree_built new arena_size m st tv \<Longrightarrow> a \<in> list_addresses tv \<Longrightarrow>
    tree_built new arena_size m (list_assign arena_write a i st) (tv_list_assign a i tv)"

text \<open>An arena in a memory where other blocks are live.\<close>

definition arena_beside :: "operator_new \<Rightarrow> memory \<Rightarrow> arena_state \<Rightarrow> (u64 \<times> u64) list \<Rightarrow> bool" where
  "arena_beside new m st rs \<longleftrightarrow>
     new_ok new \<and> (\<exists>bs. arena_ok bs (fst st) (snd st) rs \<and> mem_live (snd st) = bs @ mem_live m)"

interpretation tree_arena: arena_storage "arena_alloc new" arena_bytes arena_write "arena_beside new m"
  for new m
proof
  fix st rs al n p st'
  assume st: "arena_beside new m st rs" and al: "small_alignment al" and n: "unat n + 8 < 2 ^ 64"
    and run: "arena_alloc new n al st = Inr (p, st')"
  from st obtain bs where new: "new_ok new" and ok: "arena_ok bs (fst st) (snd st) rs"
    and live: "mem_live (snd st) = bs @ mem_live m" by (auto simp: arena_beside_def)
  obtain a' m' where st': "st' = (a', m')" by (cases st')
  have "allocate new n al (fst st) (snd st) = Inr (p, a', m')"
    using run st' by (auto simp: arena_alloc_def split: sum.splits)
  from allocate_result[OF new ok al n this] obtain bs' ns where "arena_ok bs' a' m' ((p, n) # rs)"
    "\<And>x. unat x \<in> (\<Union>r \<in> set rs. region r) \<Longrightarrow> mem_bytes m' x = mem_bytes (snd st) x"
    "bs' = ns @ bs" "mem_live m' = ns @ mem_live (snd st)" by metis
  then show "arena_beside new m st' ((p, n) # rs) \<and>
      (\<forall>x. unat x \<in> (\<Union>r \<in> set rs. region r) \<longrightarrow> arena_bytes st' x = arena_bytes st x)"
    using new st' live by (auto simp: arena_beside_def arena_bytes_def)
next
  fix st rs and r :: "u64 \<times> u64" and x :: u64 and w :: "u8 list"
  assume "arena_beside new m st rs" "r \<in> set rs" "span x (length w) \<subseteq> region r" "unat x + length w \<le> 2 ^ 64"
  then show "arena_beside new m (arena_write x w st) rs"
    using write_keeps_arena[of _ "fst st" "snd st" rs r x w] by (auto simp: arena_beside_def arena_write_def)
qed (auto simp: arena_beside_def arena_bytes_def arena_write_def arena_ok_def)

lemma tree_built_ok:
  assumes "new_ok new" "memory_ok m" "tree_built new arena_size m st tv"
  shows "\<exists>rs. arena_beside new m (fst st) rs \<and> tree_ok arena_bytes rs tv st"
  using assms(3)
proof induction
  case (built_init root st)
  have "arena_beside new m (arena_init arena_size, m) []"
    using assms(1,2) arena_init_ok by (auto simp: arena_beside_def)
  moreover have "tree_ok arena_bytes [] tv_empty ((arena_init arena_size, m), \<lambda>_. array_default)"
    by (auto simp: tree_ok_def tv_empty_def tree_fields_def list_addresses_def list_places_def
        list_ok_def array_default_def array_ok_def array_elements_def)
  ultimately show ?case
    using tree_arena.tree_create_result built_init unfolding ast_init_def ast_create_def fst_conv by blast
next
  case (built_create st ls tv kind offset p st')
  then show ?case using tree_arena.tree_create_result unfolding ast_create_def fst_conv by blast
next
  case (built_assign st ls tv x w)
  then show ?case using tree_arena.tree_assign_result unfolding fst_conv by blast
next
  case (built_local st tv i)
  have "fst (local_list i st) = fst st" by (simp add: local_list_def)
  with built_local show ?case using tree_arena.tree_local_result by metis
next
  case (built_put st tv pl node st')
  then show ?case using tree_arena.tree_put_result unfolding ast_put_def by blast
next
  case (built_list_assign st tv a i)
  then show ?case using tree_arena.tree_list_assign_result by blast
qed

text \<open>C12. The memory of a tree refines the tree. The nodes, their fields and the lists in them are bytes of memory
  at the places of the layout, where a write that overlaps anything changes it; the elements of the
  lists are elsewhere in the arena, whose blocks begin with headers. However the creation of nodes,
  the assignment of fields, of their 1, 4 or 8 bytes, and the extension of lists, in nodes or in local
  variables that are then assigned to nodes, follow each other, in a memory where other blocks are
  live: the bytes of every field of every node are those assigned last or, before that, those of the
  constructor; every list has exactly the pointers that were put into it, in order, wherever its
  elements have moved; no two nodes overlap; and destroying the tree terminates and leaves exactly the
  other blocks.\<close>
theorem tree_memory_refines:
  assumes "new_ok new" "memory_ok m" "tree_built new arena_size m st tv"
  shows "(\<forall>x n. (x, n) \<in> tree_fields tv \<longrightarrow> read_bytes (arena_bytes (fst st)) x n = tv_fields tv x) \<and>
    (\<forall>pl. pl \<in> list_places tv \<longrightarrow> array_elements arena_bytes (list_get arena_bytes pl st) (fst st) = tv_lists tv pl) \<and>
    sorted_wrt apart (map object_region (tv_objects tv)) \<and>
    (\<exists>a' m'. arena_destroy (fst (fst st)) (snd (fst st)) = Some (Inr (a', m')) \<and> mem_live m' = mem_live m)"
proof -
  from tree_built_ok[OF assms] obtain rs bs where ok: "tree_ok arena_bytes rs tv st"
    and arena: "arena_ok bs (fst (fst st)) (snd (fst st)) rs" "mem_live (snd (fst st)) = bs @ mem_live m"
    by (auto simp: arena_beside_def)
  show ?thesis using ok destroy_own_blocks[OF arena] by (auto simp: tree_ok_def list_ok_def)
qed

text \<open>A list that is filled as a local variable and then assigned to the root.\<close>

theorem tree_memory_refines_witness:
  "\<exists>st st'. ast_init bump_new 64 empty_memory = Inr (4104, st) \<and> ast_put bump_new (Local 0) 7 (st, \<lambda>_. array_default) = Inr st' \<and>
     array_elements arena_bytes (list_get arena_bytes (In_node 4104) (list_assign arena_write 4104 0 st'))
       (fst (list_assign arena_write 4104 0 st')) = [7]"
proof -
  let ?a = "\<lparr>next_ptr = 4120, remaining_size = 40, next_block_size = 96, head_block = 4096, total_size = 64\<rparr>"
    and ?m = "\<lparr>mem_live = [(4096, 64)], mem_bytes = (\<lambda>_. 0)\<rparr>"
  have "allocate bump_new 16 8 (arena_init 64) empty_memory = Inr (4104, ?a, ?m)"
    by (simp add: allocate_def create_block_def new_block_def bump_new_def empty_memory_def arena_init_def arena_default_def
        std_align_def align_padding_def Let_def block_ok_def sizeof_block_def write_zeros)
  then have init: "ast_init bump_new 64 empty_memory = Inr (4104, ?a, ?m)"
    by (simp add: ast_init_def ast_create_def object_create_def arena_alloc_def object_writes_def arena_write_pair sizeof_list_def write_zeros)
  have "allocate bump_new 32 8 ?a ?m = Inr (4120, ?a\<lparr>next_ptr := 4152, remaining_size := 8\<rparr>, ?m)"
    by (simp add: allocate_def std_align_def align_padding_def Let_def)
  then obtain st' where put: "ast_put bump_new (Local 0) 7 ((?a, ?m), \<lambda>_. array_default) = Inr st'"
    by (simp add: ast_put_def list_put_def array_default_def array_put_def initial_capacity_def arena_alloc_def Let_def)
  let ?tv = "tv_create 4104 Root_object tv_empty"
  have place: "Local 0 \<in> list_places ?tv" "4104 \<in> list_addresses (tv_put (Local 0) 7 ?tv)" by (simp_all add: list_places_def)
  have empty: "tv_lists ?tv (Local 0) = []" by (auto simp: tv_create_def tv_empty_def)
  have built: "tree_built bump_new 64 empty_memory (list_assign arena_write 4104 0 st') (tv_list_assign 4104 0 (tv_put (Local 0) 7 ?tv))"
    using built_list_assign[OF built_put[OF built_init[OF init] place(1) _ put] place(2)] empty by simp
  have there: "In_node 4104 \<in> list_places (tv_list_assign 4104 0 (tv_put (Local 0) 7 ?tv))" by simp
  have "memory_ok empty_memory" by (simp add: memory_ok_def empty_memory_def)
  from tree_memory_refines[OF bump_new_ok this built]
  have "array_elements arena_bytes (list_get arena_bytes (In_node 4104) (list_assign arena_write 4104 0 st'))
      (fst (list_assign arena_write 4104 0 st')) = tv_lists (tv_list_assign 4104 0 (tv_put (Local 0) 7 ?tv)) (In_node 4104)"
    using there by blast
  also have "\<dots> = [7]" using empty by simp
  finally show ?thesis using init put by blast
qed

end
