(* ===== verification/Windows.thy ===== *)
theory Windows
  imports File_View "HOL-Library.Multiset"
begin

text \<open>
  The Windows parts: \<open>src/cero/util/file_view.win.cc\<close>, \<open>utf16.win.cc\<close> and
  \<open>src/cero/report/console_reporter.win.cc\<close>. The Windows functions are a parameter, a record of
  the calls and of the error they leave; an operation returns its result and the calls it made.
\<close>

section \<open>Calls\<close>

datatype win_call =
    Win_CreateFile "16 word list"
  | Win_GetFileSizeEx int
  | Win_CreateFileMapping int
  | Win_MapViewOfFile int
  | Win_UnmapViewOfFile nat
  | Win_CloseHandle int
  | Win_SetConsoleCP
  | Win_GetStdHandle
  | Win_GetConsoleMode int
  | Win_SetConsoleMode int u32

definition invalid_handle_value :: int where
  "invalid_handle_value = -1"

text \<open>
  A view is its address and the bytes that are mapped there. The two conversions give the number of
  units written and the buffer, of the capacity they are called with, after the call; a conversion
  that fails writes nothing and returns 0.
\<close>

record win_api =
  create_file :: "16 word list \<Rightarrow> int"
  get_file_size_ex :: "int \<Rightarrow> bool \<times> nat"
  create_file_mapping :: "int \<Rightarrow> int"
  map_view_of_file :: "int \<Rightarrow> (nat \<times> string) option"
  unmap_view_of_file :: "nat \<Rightarrow> bool"
  close_handle :: "int \<Rightarrow> bool"
  multi_byte_to_wide_char :: "string \<Rightarrow> int \<Rightarrow> int \<times> 16 word list"
  wide_char_to_multi_byte :: "16 word list \<Rightarrow> int \<Rightarrow> int \<times> string"
  set_console_cp :: bool
  get_std_handle :: int
  get_console_mode :: "int \<Rightarrow> bool \<times> u32"
  set_console_mode :: "int \<Rightarrow> u32 \<Rightarrow> bool"
  get_last_error :: "win_call \<Rightarrow> error_condition"

section \<open>UTF-16\<close>

text \<open>The conversion of a \<open>size_t\<close> to \<open>int\<close>.\<close>

definition int_of_size :: "nat \<Rightarrow> int" where
  "int_of_size n = sint (word_of_nat n :: 32 word)"

text \<open>\<open>resize\<close> of a buffer: cut, or filled up with null units.\<close>

definition resized :: "nat \<Rightarrow> 'a \<Rightarrow> 'a list \<Rightarrow> 'a list" where
  "resized n x xs = take n xs @ replicate (n - length xs) x"

definition utf8_to_utf16 :: "win_api \<Rightarrow> string \<Rightarrow> 16 word list" where
  "utf8_to_utf16 win input =
     (if input = [] then []
      else (let (written, output) = multi_byte_to_wide_char win input (int_of_size (length input))
            in resized (nat written) 0 output))"

definition utf16_to_utf8 :: "win_api \<Rightarrow> 16 word list \<Rightarrow> string" where
  "utf16_to_utf8 win input =
     (if input = [] then []
      else (let cap = 3 * length input;
                (written, output) = wide_char_to_multi_byte win input (int_of_size cap)
            in resized (nat written) nul output))"

section \<open>File views\<close>

record win_file_view =
  wv_file :: int
  wv_size :: nat
  wv_mapping :: int
  wv_addr :: "(nat \<times> string) option"

definition win_file_view_default :: win_file_view where
  "win_file_view_default = \<lparr>wv_file = invalid_handle_value, wv_size = 0, wv_mapping = 0, wv_addr = None\<rparr>"

text \<open>\<open>Impl::destroy\<close>: three steps, each with an assertion that its call succeeds.\<close>

definition win_release :: "bool \<Rightarrow> bool \<Rightarrow> string \<Rightarrow> win_call \<Rightarrow> (fault option) \<times> win_call list \<Rightarrow> (fault option) \<times> win_call list" where
  "win_release held success message call st =
     (case fst st of
        Some a \<Rightarrow> st
      | None \<Rightarrow> if \<not> held then st
                else (if success then None else Some (Assertion_failed message), snd st @ [call]))"

definition win_view_address :: "win_file_view \<Rightarrow> nat" where
  "win_view_address f = (case wv_addr f of None \<Rightarrow> 0 | Some (address, bytes) \<Rightarrow> address)"

definition win_file_view_destroy :: "win_api \<Rightarrow> win_file_view \<Rightarrow> (fault option) \<times> win_call list" where
  "win_file_view_destroy win f =
     win_release (wv_file f \<noteq> invalid_handle_value) (close_handle win (wv_file f))
       ''could not close file handle'' (Win_CloseHandle (wv_file f))
       (win_release (wv_mapping f \<noteq> 0) (close_handle win (wv_mapping f))
          ''could not close file mapping handle'' (Win_CloseHandle (wv_mapping f))
          (win_release (wv_addr f \<noteq> None) (unmap_view_of_file win (win_view_address f))
             ''could not unmap file'' (Win_UnmapViewOfFile (win_view_address f)) (None, [])))"

definition win_file_view_destructor :: "win_api \<Rightarrow> win_file_view \<Rightarrow> (fault option) \<times> win_call list" where
  "win_file_view_destructor win f = win_file_view_destroy win f"

definition win_file_view_move :: "win_file_view \<Rightarrow> win_file_view \<times> win_file_view" where
  "win_file_view_move other = (other, win_file_view_default)"

text \<open>
  The end of the life of a view; the early returns of \<open>FileView::from\<close> destroy the local view, the
  last one moves it into the result and destroys what is left of it.
\<close>

definition win_and_then_destroy ::
    "win_api \<Rightarrow> win_file_view \<Rightarrow> (fault + 'a) \<times> win_call list \<Rightarrow> (fault + 'a) \<times> win_call list" where
  "win_and_then_destroy win f st =
     (let (aborted, cleanup) = win_file_view_destructor win f
      in (case aborted of Some a \<Rightarrow> Inl a | None \<Rightarrow> fst st, snd st @ cleanup))"

definition win_file_view_fail ::
    "win_api \<Rightarrow> win_file_view \<Rightarrow> win_call list \<Rightarrow> win_call \<Rightarrow> (fault + error_condition + win_file_view) \<times> win_call list" where
  "win_file_view_fail win f calls failed =
     (let error = get_last_error win failed in win_and_then_destroy win f (Inr (Inl error), calls))"

definition win_file_view_return ::
    "win_api \<Rightarrow> win_file_view \<Rightarrow> win_call list \<Rightarrow> (fault + error_condition + win_file_view) \<times> win_call list" where
  "win_file_view_return win f calls =
     (let (result, f) = win_file_view_move f in win_and_then_destroy win f (Inr (Inr result), calls))"

definition win_file_view_from ::
    "win_api \<Rightarrow> string \<Rightarrow> (fault + error_condition + win_file_view) \<times> win_call list" where
  "win_file_view_from win path =
     (let path_utf16 = takeWhile (\<lambda>c. c \<noteq> 0) (utf8_to_utf16 win path);
          f0 = win_file_view_default\<lparr>wv_file := create_file win path_utf16\<rparr>;
          calls0 = [Win_CreateFile path_utf16]
      in if wv_file f0 = invalid_handle_value then win_file_view_fail win f0 calls0 (Win_CreateFile path_utf16)
         else
           (let (success, file_size) = get_file_size_ex win (wv_file f0);
                calls1 = calls0 @ [Win_GetFileSizeEx (wv_file f0)]
            in if \<not> success then win_file_view_fail win f0 calls1 (Win_GetFileSizeEx (wv_file f0))
               else
                 (let f1 = f0\<lparr>wv_size := file_size\<rparr>
                  in if wv_size f1 > 0 then
                       (let f2 = f1\<lparr>wv_mapping := create_file_mapping win (wv_file f1)\<rparr>;
                            calls2 = calls1 @ [Win_CreateFileMapping (wv_file f1)]
                        in if wv_mapping f2 = 0
                           then win_file_view_fail win f2 calls2 (Win_CreateFileMapping (wv_file f1))
                           else
                             (let f3 = f2\<lparr>wv_addr := map_view_of_file win (wv_mapping f2)\<rparr>;
                                  calls3 = calls2 @ [Win_MapViewOfFile (wv_mapping f2)]
                              in if wv_addr f3 = None
                                 then win_file_view_fail win f3 calls3 (Win_MapViewOfFile (wv_mapping f2))
                                 else win_file_view_return win f3 calls3))
                     else win_file_view_return win f1 calls1)))"

text \<open>The text is as many bytes of the mapping as the file has.\<close>

definition win_file_view_get_text :: "win_file_view \<Rightarrow> string" where
  "win_file_view_get_text f =
     (if wv_size f = 0 then []
      else (case wv_addr f of None \<Rightarrow> [] | Some (address, bytes) \<Rightarrow> take (wv_size f) bytes))"

definition win_file_view_move_assign ::
    "win_api \<Rightarrow> win_file_view \<Rightarrow> win_file_view \<Rightarrow> (fault + win_file_view \<times> win_file_view) \<times> win_call list" where
  "win_file_view_move_assign win this other =
     (let (aborted, calls) = win_file_view_destroy win this
      in (case aborted of Some a \<Rightarrow> Inl a | None \<Rightarrow> Inr (other, win_file_view_default), calls))"

lemma win_file_view_return_eq [simp]: "win_file_view_return win f calls = (Inr (Inr f), calls)"
  by (simp add: win_file_view_return_def win_file_view_move_def win_and_then_destroy_def win_file_view_destructor_def
      win_file_view_destroy_def win_release_def win_file_view_default_def)

section \<open>The console\<close>

definition enable_virtual_terminal_processing :: u32 where
  "enable_virtual_terminal_processing = 0x0004"

text \<open>Each function gives the calls it makes and the lines it prints.\<close>

definition win_error_msg :: "win_api \<Rightarrow> (string \<Rightarrow> int \<Rightarrow> string \<Rightarrow> string) \<Rightarrow> win_call \<Rightarrow> string" where
  "win_error_msg win format failed = get_system_error_msg format (get_last_error win failed)"

definition enable_utf8_output :: "win_api \<Rightarrow> (string \<Rightarrow> int \<Rightarrow> string \<Rightarrow> string) \<Rightarrow> win_call list \<times> string list" where
  "enable_utf8_output win format =
     ([Win_SetConsoleCP],
      if \<not> set_console_cp win
      then [''failed to set console output code page to UTF-8, '' @ win_error_msg win format Win_SetConsoleCP] else [])"

definition enable_virtual_terminal_sequences :: "win_api \<Rightarrow> (string \<Rightarrow> int \<Rightarrow> string \<Rightarrow> string) \<Rightarrow> win_call list \<times> string list" where
  "enable_virtual_terminal_sequences win format =
     (let std_out = get_std_handle win
      in if std_out = invalid_handle_value then
           ([Win_GetStdHandle],
            [''failed to get stdout handle to enable virtual terminal sequences, '' @ win_error_msg win format Win_GetStdHandle])
         else
           (let (success, mode) = get_console_mode win std_out
            in if \<not> success then
                 ([Win_GetStdHandle, Win_GetConsoleMode std_out],
                  [''failed to get console mode to enable virtual terminal sequences, '' @ win_error_msg win format (Win_GetConsoleMode std_out)])
               else
                 (let mode1 = mode OR enable_virtual_terminal_processing
                  in ([Win_GetStdHandle, Win_GetConsoleMode std_out, Win_SetConsoleMode std_out mode1],
                      if \<not> set_console_mode win std_out mode1
                      then [''failed to set console mode to enable virtual terminal sequences, '' @
                            win_error_msg win format (Win_SetConsoleMode std_out mode1)]
                      else []))))"

definition init_console_environment :: "win_api \<Rightarrow> (string \<Rightarrow> int \<Rightarrow> string \<Rightarrow> string) \<Rightarrow> win_call list \<times> string list" where
  "init_console_environment win format =
     (let (calls, lines) = enable_utf8_output win format;
          (calls', lines') = enable_virtual_terminal_sequences win format
      in (calls @ calls', lines @ lines'))"

section \<open>Resources\<close>

definition opened_handles :: "win_api \<Rightarrow> win_call list \<Rightarrow> int list" where
  "opened_handles win cs =
     concat (map (\<lambda>c. case c of
         Win_CreateFile p \<Rightarrow> if create_file win p = invalid_handle_value then [] else [create_file win p]
       | Win_CreateFileMapping h \<Rightarrow> if create_file_mapping win h = 0 then [] else [create_file_mapping win h]
       | _ \<Rightarrow> []) cs)"

definition closed_handles :: "win_call list \<Rightarrow> int list" where
  "closed_handles cs = concat (map (\<lambda>c. case c of Win_CloseHandle h \<Rightarrow> [h] | _ \<Rightarrow> []) cs)"

definition mapped_views :: "win_api \<Rightarrow> win_call list \<Rightarrow> nat list" where
  "mapped_views win cs =
     concat (map (\<lambda>c. case c of
         Win_MapViewOfFile h \<Rightarrow> (case map_view_of_file win h of None \<Rightarrow> [] | Some (address, bytes) \<Rightarrow> [address])
       | _ \<Rightarrow> []) cs)"

definition unmapped_views :: "win_call list \<Rightarrow> nat list" where
  "unmapped_views cs = concat (map (\<lambda>c. case c of Win_UnmapViewOfFile a \<Rightarrow> [a] | _ \<Rightarrow> []) cs)"

definition win_no_leak :: "win_api \<Rightarrow> win_call list \<Rightarrow> bool" where
  "win_no_leak win cs \<longleftrightarrow>
     mset (opened_handles win cs) = mset (closed_handles cs) \<and> mset (mapped_views win cs) = mset (unmapped_views cs)"

lemmas win_leak_unfold =
  win_no_leak_def opened_handles_def closed_handles_def mapped_views_def unmapped_views_def

lemmas win_view_unfold =
  win_file_view_from_def win_file_view_fail_def win_and_then_destroy_def win_file_view_destructor_def win_file_view_destroy_def win_release_def win_file_view_default_def
  win_view_address_def

text \<open>
  A system where releasing what was acquired succeeds - a view that \<open>MapViewOfFile\<close> gave, a handle that
  \<open>CreateFileW\<close> or \<open>CreateFileMappingW\<close> gave - and where the view of a whole file has at least the
  bytes of the file.
\<close>

definition win_ok :: "win_api \<Rightarrow> bool" where
  "win_ok win \<longleftrightarrow>
     (\<forall>h address bytes. map_view_of_file win h = Some (address, bytes) \<longrightarrow> unmap_view_of_file win address) \<and>
     (\<forall>p. create_file win p \<noteq> invalid_handle_value \<longrightarrow> close_handle win (create_file win p)) \<and>
     (\<forall>h. create_file_mapping win h \<noteq> 0 \<longrightarrow> close_handle win (create_file_mapping win h)) \<and>
     (\<forall>file n address bytes. get_file_size_ex win file = (True, n) \<longrightarrow>
        map_view_of_file win (create_file_mapping win file) = Some (address, bytes) \<longrightarrow> n \<le> length bytes)"

lemma win_from_never_aborts: "win_ok win \<Longrightarrow> fst (win_file_view_from win path) \<noteq> Inl f"
  by (auto simp: win_view_unfold win_ok_def Let_def split: prod.splits if_splits)

lemma win_from_error_no_leak:
  "win_ok win \<Longrightarrow> fst (win_file_view_from win path) = Inr (Inl e) \<Longrightarrow> win_no_leak win (snd (win_file_view_from win path))"
  by (auto simp: win_view_unfold win_leak_unfold win_ok_def Let_def split: prod.splits if_splits)

lemma win_from_then_destroy_no_leak:
  "win_ok win \<Longrightarrow> fst (win_file_view_from win path) = Inr (Inr f) \<Longrightarrow>
   fst (win_file_view_destroy win f) = None \<and>
   win_no_leak win (snd (win_file_view_from win path) @ snd (win_file_view_destroy win f))"
  by (auto simp: win_view_unfold win_leak_unfold win_ok_def Let_def split: prod.splits if_splits) blast+

lemma win_from_text_length:
  "win_ok win \<Longrightarrow> fst (win_file_view_from win path) = Inr (Inr f) \<Longrightarrow> length (win_file_view_get_text f) = wv_size f"
  by (auto simp: win_view_unfold win_file_view_get_text_def win_ok_def Let_def split: prod.splits if_splits option.splits)

text \<open>C37. The Windows view leaks nothing either: where releasing what was acquired succeeds, opening a file never aborts; if it fails,
  every handle and view it acquired has been released; if it succeeds, destroying the view releases
  them, and the text of the view has the size of the file.\<close>
theorem win_file_view_no_leak:
  assumes "win_ok win"
  shows "case fst (win_file_view_from win path) of
      Inl f \<Rightarrow> False
    | Inr (Inl e) \<Rightarrow> win_no_leak win (snd (win_file_view_from win path))
    | Inr (Inr f) \<Rightarrow>
        fst (win_file_view_destroy win f) = None \<and>
        win_no_leak win (snd (win_file_view_from win path) @ snd (win_file_view_destroy win f)) \<and>
        length (win_file_view_get_text f) = wv_size f"
  using win_from_never_aborts[OF assms] win_from_error_no_leak[OF assms]
    win_from_then_destroy_no_leak[OF assms] win_from_text_length[OF assms]
  by (auto split: sum.splits)

definition sample_win :: win_api where
  "sample_win =
     \<lparr>create_file = (\<lambda>p. 5), get_file_size_ex = (\<lambda>h. (True, 2)), create_file_mapping = (\<lambda>h. 6),
      map_view_of_file = (\<lambda>h. None), unmap_view_of_file = (\<lambda>a. False), close_handle = (\<lambda>h. h \<in> {5, 6}),
      multi_byte_to_wide_char = (\<lambda>s n. (int (length s), map (\<lambda>c. word_of_nat (of_char c)) s)),
      wide_char_to_multi_byte = (\<lambda>s n. (0, [])), set_console_cp = True, get_std_handle = 1,
      get_console_mode = (\<lambda>h. (True, 0)), set_console_mode = (\<lambda>h m. True),
      get_last_error = (\<lambda>c. \<lparr>err_value = 8, err_message = ''?''\<rparr>)\<rparr>"

theorem win_file_view_no_leak_witness:
  "fst (win_file_view_from sample_win ''a'') = Inr (Inl \<lparr>err_value = 8, err_message = ''?''\<rparr>) \<and>
   win_no_leak sample_win (snd (win_file_view_from sample_win ''a''))"
proof -
  have ok: "win_ok sample_win" by (auto simp: win_ok_def sample_win_def)
  have "fst (win_file_view_from sample_win ''a'') = Inr (Inl \<lparr>err_value = 8, err_message = ''?''\<rparr>)"
    by (simp add: win_view_unfold sample_win_def Let_def invalid_handle_value_def)
  with win_file_view_no_leak[OF ok, of "''a''"] show ?thesis by simp
qed

text \<open>The console gets virtual terminal sequences on top of the modes it had.\<close>

lemma enable_virtual_terminal_keeps_mode:
  assumes "get_std_handle win \<noteq> invalid_handle_value" "get_console_mode win (get_std_handle win) = (True, mode)"
  shows "\<exists>mode'. last (fst (enable_virtual_terminal_sequences win format)) = Win_SetConsoleMode (get_std_handle win) mode' \<and>
    mode AND mode' = mode \<and> bit mode' 2"
proof -
  have "mode AND (mode OR enable_virtual_terminal_processing) = mode"
    by (rule bit_eqI) (auto simp: bit_and_iff bit_or_iff)
  moreover have "bit (mode OR enable_virtual_terminal_processing) 2"
    by (simp add: enable_virtual_terminal_processing_def bit_or_iff bit_numeral_rec numeral_2_eq_2)
  ultimately show ?thesis using assms by (simp add: enable_virtual_terminal_sequences_def Let_def)
qed

end
