(* ===== verification/Utf16.thy ===== *)
theory Utf16
  imports Windows Unicode
begin

text \<open>
  The conversions of \<open>src/cero/util/utf16.win.cc\<close> against the encodings of Unicode: the buffers that
  they hand to Windows are large enough for every text, so that nothing is lost.
\<close>

section \<open>Encodings of a text\<close>

text \<open>A text is a list of scalar values.\<close>

definition scalar_value :: "u32 \<Rightarrow> bool" where
  "scalar_value u \<longleftrightarrow> u < 0xd800 \<or> 0xdfff < u \<and> u < 0x110000"

definition utf16_units :: "u32 \<Rightarrow> 16 word list" where
  "utf16_units u =
     (if u < 0x10000 then [ucast u]
      else [0xd800 + ucast (drop_bit 10 (u - 0x10000)), 0xdc00 + ucast ((u - 0x10000) AND 0x3ff)])"

definition utf8_text :: "u32 list \<Rightarrow> string" where
  "utf8_text us = concat (map (\<lambda>u. map (\<lambda>b. char_of (unat b)) (utf8_bytes u)) us)"

definition utf16_text :: "u32 list \<Rightarrow> 16 word list" where
  "utf16_text us = concat (map utf16_units us)"

lemma encoding_lengths:
  "length (utf16_units u) \<le> length (utf8_bytes u)" "length (utf8_bytes u) \<le> 3 * length (utf16_units u)"
  "utf16_units u \<noteq> []"
  by (auto simp: utf16_units_def utf8_bytes_def word_less_nat_alt)

lemma text_lengths:
  "length (utf16_text us) \<le> length (utf8_text us)" "length (utf8_text us) \<le> 3 * length (utf16_text us)"
  by (induction us) (use encoding_lengths in \<open>auto simp: utf16_text_def utf8_text_def intro: add_mono\<close>)

lemma text_empty [simp]: "utf8_text us = [] \<longleftrightarrow> us = []" "utf16_text us = [] \<longleftrightarrow> us = []"
proof -
  have "utf8_bytes u \<noteq> []" for u by (simp add: utf8_bytes_def)
  then show "utf8_text us = [] \<longleftrightarrow> us = []" by (cases us) (simp_all add: utf8_text_def)
  show "utf16_text us = [] \<longleftrightarrow> us = []" by (cases us) (simp_all add: utf16_text_def encoding_lengths(3))
qed

section \<open>What Windows documents\<close>

text \<open>
  For a text and a buffer with room for its conversion, \<open>MultiByteToWideChar\<close> and
  \<open>WideCharToMultiByte\<close> fill the front of the buffer and return the number of units they have
  written. They do not say anything for a buffer that is too small or has a negative size.
\<close>

definition converts :: "win_api \<Rightarrow> u32 list \<Rightarrow> bool" where
  "converts win us \<longleftrightarrow> list_all scalar_value us \<longrightarrow>
     (\<forall>cap. int (length (utf16_text us)) \<le> cap \<longrightarrow>
        (\<exists>unused. length (utf16_text us @ unused) = nat cap \<and>
           multi_byte_to_wide_char win (utf8_text us) cap = (int (length (utf16_text us)), utf16_text us @ unused))) \<and>
     (\<forall>cap. int (length (utf8_text us)) \<le> cap \<longrightarrow>
        (\<exists>unused. length (utf8_text us @ unused) = nat cap \<and>
           wide_char_to_multi_byte win (utf16_text us) cap = (int (length (utf8_text us)), utf8_text us @ unused)))"

lemma int_of_size_small: "n < 2 ^ 31 \<Longrightarrow> int_of_size n = int n"
  by (simp add: int_of_size_def signed_of_nat signed_take_bit_int_eq_self)

section \<open>Property\<close>

text \<open>C20. Converting between UTF-8 and UTF-16 loses nothing: for every text that is short enough for the \<open>int\<close> sizes of
  Windows, the buffer of one unit per byte in one direction and of three bytes per unit in the other
  has room for the conversion, the results are exactly the two encodings of the text, and converting
  forth and back gives the text again.\<close>
theorem utf16_roundtrip:
  assumes "converts win us" "list_all scalar_value us" "3 * length (utf8_text us) < 2 ^ 31"
  shows "utf8_to_utf16 win (utf8_text us) = utf16_text us \<and> utf16_to_utf8 win (utf16_text us) = utf8_text us \<and>
    utf16_to_utf8 win (utf8_to_utf16 win (utf8_text us)) = utf8_text us"
proof (cases "us = []")
  case True
  then show ?thesis by (simp add: utf8_to_utf16_def utf16_to_utf8_def utf8_text_def utf16_text_def)
next
  case False
  note le = text_lengths[of us]
  have "int_of_size (length (utf8_text us)) = int (length (utf8_text us))"
    "int_of_size (3 * length (utf16_text us)) = int (3 * length (utf16_text us))"
    using assms(3) le(1) by (intro int_of_size_small; simp)+
  moreover obtain r1 r2 where
    "multi_byte_to_wide_char win (utf8_text us) (int (length (utf8_text us))) = (int (length (utf16_text us)), utf16_text us @ r1)"
    "wide_char_to_multi_byte win (utf16_text us) (int (3 * length (utf16_text us))) = (int (length (utf8_text us)), utf8_text us @ r2)"
    using assms(1,2) le unfolding converts_def by (metis of_nat_le_iff)
  ultimately show ?thesis using False by (simp add: utf8_to_utf16_def utf16_to_utf8_def resized_def)
qed

definition sample_scalars :: "u32 list" where
  "sample_scalars = [0x61, 0xe9, 0x20ac, 0x1f600]"

definition converting_win :: win_api where
  "converting_win = sample_win\<lparr>
     multi_byte_to_wide_char := (\<lambda>s cap.
       if s = utf8_text sample_scalars \<and> int (length (utf16_text sample_scalars)) \<le> cap
       then (int (length (utf16_text sample_scalars)), utf16_text sample_scalars @ replicate (nat cap - length (utf16_text sample_scalars)) 0)
       else (0, replicate (nat cap) 0)),
     wide_char_to_multi_byte := (\<lambda>s cap.
       if s = utf16_text sample_scalars \<and> int (length (utf8_text sample_scalars)) \<le> cap
       then (int (length (utf8_text sample_scalars)), utf8_text sample_scalars @ replicate (nat cap - length (utf8_text sample_scalars)) nul)
       else (0, replicate (nat cap) nul))\<rparr>"

theorem utf16_roundtrip_witness:
  "utf8_to_utf16 converting_win (utf8_text sample_scalars) = [0x61, 0xe9, 0x20ac, 0xd83d, 0xde00] \<and>
   utf16_to_utf8 converting_win [0x61, 0xe9, 0x20ac, 0xd83d, 0xde00] = utf8_text sample_scalars"
proof -
  have ok: "converts converting_win sample_scalars"
    unfolding converts_def
  proof (intro conjI allI impI)
    fix cap assume cap: "int (length (utf16_text sample_scalars)) \<le> cap"
    then show "\<exists>unused. length (utf16_text sample_scalars @ unused) = nat cap \<and>
        multi_byte_to_wide_char converting_win (utf8_text sample_scalars) cap =
          (int (length (utf16_text sample_scalars)), utf16_text sample_scalars @ unused)"
      by (intro exI[of _ "replicate (nat cap - length (utf16_text sample_scalars)) 0"]) (simp add: converting_win_def)
  next
    fix cap assume cap: "int (length (utf8_text sample_scalars)) \<le> cap"
    then show "\<exists>unused. length (utf8_text sample_scalars @ unused) = nat cap \<and>
        wide_char_to_multi_byte converting_win (utf16_text sample_scalars) cap =
          (int (length (utf8_text sample_scalars)), utf8_text sample_scalars @ unused)"
      by (intro exI[of _ "replicate (nat cap - length (utf8_text sample_scalars)) nul"]) (simp add: converting_win_def)
  qed
  have scalars: "list_all scalar_value sample_scalars" by code_simp
  have "length (utf8_text sample_scalars) = 10" by code_simp
  then have short: "3 * length (utf8_text sample_scalars) < 2 ^ 31" by simp
  have "utf16_text sample_scalars = [0x61, 0xe9, 0x20ac, 0xd83d, 0xde00]" by code_simp
  with utf16_roundtrip[OF ok scalars short] show ?thesis by metis
qed

end
