(* ===== verification/Impl_Storage.thy ===== *)
theory Impl_Storage
  imports Windows Bytes
begin

text \<open>
  \<open>util::ImplStorage\<close> (\<open>src/cero/util/impl_storage.hh\<close>): an array of bytes in which an object of a type
  \<open>T\<close> lives. The locale \<open>object_type\<close> states what the storage needs of the bytes of an object, and has the
  lemmas on construction, moves and \<open>std::exchange\<close>. It is interpreted on the two types that the
  compiler stores, \<open>FileView::Impl\<close> for POSIX and for Windows, with the layout of their fields; the moves
  of a \<open>FileView\<close> in \<open>File_View\<close> and \<open>Windows\<close> are what the storage does.
\<close>

section \<open>Storage\<close>

text \<open>
  A type: its size and alignment, the bytes of an object and the object that bytes stand for, the
  object that its default constructor makes, and what moving from an object leaves in it.
\<close>

record 't impl_type =
  type_size :: nat
  type_align :: nat
  represent :: "'t \<Rightarrow> u8 list"
  object_of :: "u8 list \<Rightarrow> 't"
  default_object :: 't
  moved_from :: "'t \<Rightarrow> 't"

type_synonym impl_storage = "u8 list"

definition static_assert_size_align :: "'t impl_type \<Rightarrow> nat \<Rightarrow> nat \<Rightarrow> bool" where
  "static_assert_size_align T bytes align \<longleftrightarrow> type_size T \<le> bytes \<and> type_align T \<le> align"

text \<open>The \<open>new\<close> expression writes the bytes of the object to the front of the storage.\<close>

definition placement_new :: "'t impl_type \<Rightarrow> 't \<Rightarrow> impl_storage \<Rightarrow> impl_storage" where
  "placement_new T t storage = represent T t @ drop (type_size T) storage"

definition storage_deref :: "'t impl_type \<Rightarrow> impl_storage \<Rightarrow> 't" where
  "storage_deref T storage = object_of T (take (type_size T) storage)"

text \<open>Constructors get the bytes that are not initialized yet as their last argument.\<close>

definition storage_default :: "'t impl_type \<Rightarrow> impl_storage \<Rightarrow> impl_storage" where
  "storage_default T storage = placement_new T (default_object T) storage"

definition storage_from :: "'t impl_type \<Rightarrow> 't \<Rightarrow> impl_storage \<Rightarrow> impl_storage" where
  "storage_from T t storage = placement_new T t storage"

text \<open>Move construction and move assignment give the target and what is left of the source.\<close>

definition storage_move :: "'t impl_type \<Rightarrow> impl_storage \<Rightarrow> impl_storage \<Rightarrow> impl_storage \<times> impl_storage" where
  "storage_move T other storage =
     (placement_new T (storage_deref T other) storage,
      placement_new T (moved_from T (storage_deref T other)) other)"

definition storage_move_assign :: "'t impl_type \<Rightarrow> impl_storage \<Rightarrow> impl_storage \<Rightarrow> impl_storage \<times> impl_storage" where
  "storage_move_assign T this other =
     (placement_new T (storage_deref T other) this,
      placement_new T (moved_from T (storage_deref T other)) other)"

definition storage_destructor :: "'t impl_type \<Rightarrow> ('t \<Rightarrow> 'e) \<Rightarrow> impl_storage \<Rightarrow> 'e" where
  "storage_destructor T destructor storage = destructor (storage_deref T storage)"

text \<open>\<open>std::exchange(obj, {})\<close>: the old object, and the storage with a default object in its place.\<close>

definition exchange_default :: "'t impl_type \<Rightarrow> impl_storage \<Rightarrow> impl_storage \<Rightarrow> impl_storage \<Rightarrow> impl_storage \<times> impl_storage" where
  "exchange_default T obj raw raw' =
     (let (old, obj1) = storage_move T obj raw;
          (obj2, _) = storage_move_assign T obj1 (storage_default T raw')
      in (old, obj2))"

section \<open>What the storage needs of a type\<close>

locale object_type =
  fixes T :: "'t impl_type"
  assumes represent_size: "length (represent T t) = type_size T"
    and object_of_represent: "object_of T (represent T t) = t"
begin

lemma placement_new_size: "type_size T \<le> length storage \<Longrightarrow> length (placement_new T t storage) = length storage"
  by (simp add: placement_new_def represent_size)

lemma deref_placement_new: "storage_deref T (placement_new T t storage) = t"
  by (simp add: storage_deref_def placement_new_def represent_size object_of_represent)

lemmas storage_defs = storage_default_def storage_from_def storage_move_def storage_move_assign_def storage_destructor_def

lemma storage_objects:
  "storage_deref T (storage_default T raw) = default_object T"
  "storage_deref T (storage_from T t raw) = t"
  "storage_deref T (fst (storage_move T other raw)) = storage_deref T other"
  "storage_deref T (snd (storage_move T other raw)) = moved_from T (storage_deref T other)"
  "storage_deref T (fst (storage_move_assign T this other)) = storage_deref T other"
  "storage_deref T (snd (storage_move_assign T this other)) = moved_from T (storage_deref T other)"
  by (simp_all add: storage_defs deref_placement_new)

lemma exchange_objects:
  "storage_deref T (fst (exchange_default T obj raw raw')) = storage_deref T obj"
  "storage_deref T (snd (exchange_default T obj raw raw')) = default_object T"
  by (simp_all add: exchange_default_def case_prod_beta Let_def storage_objects)

text \<open>Nothing is written outside the storage if the static assertion holds.\<close>

lemma exchange_sizes:
  assumes "static_assert_size_align T bytes align" "length obj = bytes" "length raw = bytes" "length raw' = bytes"
  shows "length (fst (exchange_default T obj raw raw')) = bytes \<and> length (snd (exchange_default T obj raw raw')) = bytes"
  using assms
  by (simp add: exchange_default_def case_prod_beta Let_def static_assert_size_align_def storage_defs placement_new_size)

end

section \<open>The implementations of file views\<close>

text \<open>\<open>FileView::Impl\<close> for POSIX: an \<open>int\<close>, 4 bytes of padding, a size and a pointer; moving it copies it.\<close>

record posix_impl =
  pi_fd :: "32 word"
  pi_size :: u64
  pi_addr :: u64

definition posix_impl_type :: "posix_impl impl_type" where
  "posix_impl_type =
     \<lparr>type_size = 24, type_align = 8,
      represent = (\<lambda>f. word_bytes 4 (pi_fd f) @ replicate 4 0 @ word_bytes 8 (pi_size f) @ word_bytes 8 (pi_addr f)),
      object_of = (\<lambda>bs. \<lparr>pi_fd = bytes_word (take 4 bs), pi_size = bytes_word (take 8 (drop 8 bs)),
        pi_addr = bytes_word (drop 16 bs)\<rparr>),
      default_object = \<lparr>pi_fd = -1, pi_size = 0, pi_addr = -1\<rparr>, moved_from = (\<lambda>f. f)\<rparr>"

text \<open>For Windows: a handle, a size, a handle and a pointer.\<close>

record win_impl =
  wi_file :: u64
  wi_size :: u64
  wi_mapping :: u64
  wi_addr :: u64

definition win_impl_type :: "win_impl impl_type" where
  "win_impl_type =
     \<lparr>type_size = 32, type_align = 8,
      represent = (\<lambda>f. word_bytes 8 (wi_file f) @ word_bytes 8 (wi_size f) @ word_bytes 8 (wi_mapping f) @ word_bytes 8 (wi_addr f)),
      object_of = (\<lambda>bs. \<lparr>wi_file = bytes_word (take 8 bs), wi_size = bytes_word (take 8 (drop 8 bs)),
        wi_mapping = bytes_word (take 8 (drop 16 bs)), wi_addr = bytes_word (drop 24 bs)\<rparr>),
      default_object = \<lparr>wi_file = -1, wi_size = 0, wi_mapping = 0, wi_addr = 0\<rparr>, moved_from = (\<lambda>f. f)\<rparr>"

interpretation posix_storage: object_type posix_impl_type
  by unfold_locales (simp_all add: posix_impl_type_def bytes_word_word_bytes)

interpretation win_storage: object_type win_impl_type
  by unfold_locales (simp_all add: win_impl_type_def bytes_word_word_bytes)

text \<open>The storage of a \<open>FileView\<close> has 32 bytes with the alignment of a pointer: both types fit.\<close>

definition file_view_storage_size :: nat where
  "file_view_storage_size = 32"

lemma file_view_storage_fits:
  "static_assert_size_align posix_impl_type file_view_storage_size 8"
  "static_assert_size_align win_impl_type file_view_storage_size 8"
  by (simp_all add: static_assert_size_align_def file_view_storage_size_def posix_impl_type_def win_impl_type_def)

section \<open>Views in storage\<close>

text \<open>The view that an implementation stands for, given the bytes that are mapped at an address.\<close>

definition posix_view :: "(u64 \<Rightarrow> string) \<Rightarrow> posix_impl \<Rightarrow> file_view" where
  "posix_view mapped f =
     \<lparr>fv_fd = sint (pi_fd f), fv_size = unat (pi_size f), fv_addr = (if pi_addr f = -1 then None else Some (mapped (pi_addr f)))\<rparr>"

definition win_view :: "(u64 \<Rightarrow> string) \<Rightarrow> win_impl \<Rightarrow> win_file_view" where
  "win_view mapped f =
     \<lparr>wv_file = sint (wi_file f), wv_size = unat (wi_size f), wv_mapping = sint (wi_mapping f),
      wv_addr = (if wi_addr f = 0 then None else Some (unat (wi_addr f), mapped (wi_addr f)))\<rparr>"

text \<open>
  The member \<open>impl_\<close> of a moved view is exchanged for a default one: what the bytes of the two storages
  stand for afterwards is what the moves of the views say.
\<close>

lemma posix_move_in_storage:
  "(posix_view mapped (storage_deref posix_impl_type (fst (exchange_default posix_impl_type obj raw raw'))),
    posix_view mapped (storage_deref posix_impl_type (snd (exchange_default posix_impl_type obj raw raw')))) =
   file_view_move (posix_view mapped (storage_deref posix_impl_type obj))"
  by (simp add: posix_storage.exchange_objects file_view_move_def)
    (simp add: posix_view_def posix_impl_type_def file_view_default_def)

lemma win_move_in_storage:
  "(win_view mapped (storage_deref win_impl_type (fst (exchange_default win_impl_type obj raw raw'))),
    win_view mapped (storage_deref win_impl_type (snd (exchange_default win_impl_type obj raw raw')))) =
   win_file_view_move (win_view mapped (storage_deref win_impl_type obj))"
  by (simp add: win_storage.exchange_objects win_file_view_move_def)
    (simp add: win_view_def win_impl_type_def win_file_view_default_def invalid_handle_value_def)

lemma file_view_storage_bounds:
  assumes "length obj = file_view_storage_size" "length raw = file_view_storage_size" "length raw' = file_view_storage_size"
  shows "length (fst (exchange_default posix_impl_type obj raw raw')) = file_view_storage_size"
    "length (snd (exchange_default posix_impl_type obj raw raw')) = file_view_storage_size"
    "length (fst (exchange_default win_impl_type obj raw raw')) = file_view_storage_size"
    "length (snd (exchange_default win_impl_type obj raw raw')) = file_view_storage_size"
  using posix_storage.exchange_sizes[OF file_view_storage_fits(1) assms]
    win_storage.exchange_sizes[OF file_view_storage_fits(2) assms] by simp_all

text \<open>C38. Moving a view moves the bytes in its storage: exchanging the bytes of an implementation for those of a default
  one gives storage whose bytes, read back, are the view that is moved, and leaves bytes in the source that are
  a closed view, on POSIX and on Windows; whatever the bytes of the storage were before, nothing is written past its 32 bytes.\<close>
theorem file_view_stored_move:
  assumes "length obj = file_view_storage_size" "length raw = file_view_storage_size" "length raw' = file_view_storage_size"
  shows "(case exchange_default posix_impl_type obj raw raw' of (new, old) \<Rightarrow>
      (posix_view mapped (storage_deref posix_impl_type new), posix_view mapped (storage_deref posix_impl_type old)) =
        file_view_move (posix_view mapped (storage_deref posix_impl_type obj)) \<and>
      length new = file_view_storage_size \<and> length old = file_view_storage_size) \<and>
    (case exchange_default win_impl_type obj raw raw' of (new, old) \<Rightarrow>
      (win_view mapped (storage_deref win_impl_type new), win_view mapped (storage_deref win_impl_type old)) =
        win_file_view_move (win_view mapped (storage_deref win_impl_type obj)) \<and>
      length new = file_view_storage_size \<and> length old = file_view_storage_size)"
  using posix_move_in_storage[of mapped obj raw raw'] win_move_in_storage[of mapped obj raw raw'] file_view_storage_bounds[OF assms]
  by (simp only: case_prod_beta)

theorem file_view_stored_move_witness:
  "\<exists>obj. posix_view (\<lambda>_. ''return;'') (storage_deref posix_impl_type obj) = \<lparr>fv_fd = 3, fv_size = 7, fv_addr = Some ''return;''\<rparr> \<and>
     posix_view (\<lambda>_. ''return;'') (storage_deref posix_impl_type (fst (exchange_default posix_impl_type obj (replicate 32 0) (replicate 32 1)))) =
       \<lparr>fv_fd = 3, fv_size = 7, fv_addr = Some ''return;''\<rparr> \<and>
     posix_view (\<lambda>_. ''return;'') (storage_deref posix_impl_type (snd (exchange_default posix_impl_type obj (replicate 32 0) (replicate 32 1)))) =
       file_view_default"
proof -
  let ?f = "\<lparr>pi_fd = 3, pi_size = 7, pi_addr = 4096\<rparr>"
  let ?obj = "storage_from posix_impl_type ?f (replicate 32 255)"
  have obj: "posix_view (\<lambda>_. ''return;'') (storage_deref posix_impl_type ?obj) = \<lparr>fv_fd = 3, fv_size = 7, fv_addr = Some ''return;''\<rparr>"
    by (simp add: posix_storage.storage_objects posix_view_def)
  have "length ?obj = file_view_storage_size"
    using posix_storage.placement_new_size[of "replicate 32 255" ?f]
    by (simp add: storage_from_def file_view_storage_size_def posix_impl_type_def)
  from file_view_stored_move[OF this, of "replicate 32 0" "replicate 32 1" "\<lambda>_. ''return;''"] show ?thesis
    by (intro exI[of _ ?obj]) (simp add: obj file_view_storage_size_def case_prod_beta file_view_move_def)
qed

end
