(* ===== verification/Assertions.thy ===== *)
theory Assertions
  imports Cero_Prelude
begin

text \<open>
  \<open>src/cero/util/assert.hh\<close> and \<open>assert.cc\<close>: how the process ends when an assertion fails, and what it
  prints before. The rest of the development only has the \<^typ>\<open>fault\<close>; \<open>ending_of\<close> says what becomes of
  it. A break into the debugger sends a signal that ends the process, unless a debugger or a handler
  resumes it: whether it does is a parameter.
\<close>

record source_location =
  file_name :: string
  function_name :: string

datatype ending = Trapped "string list" | Aborted "string list"

text \<open>The functions get the lines that are printed already; a line is given without its newline.\<close>

definition fail_at :: "source_location \<Rightarrow> string list \<Rightarrow> ending" where
  "fail_at location printed =
     Aborted (printed @ [tab_char # ''File:     '' @ file_name location, tab_char # ''Function: '' @ function_name location])"

definition assert_fail :: "string \<Rightarrow> source_location \<Rightarrow> string list \<Rightarrow> ending" where
  "assert_fail msg location printed = fail_at location (printed @ [''assertion failed: '' @ msg])"

definition assert_unreachable :: "bool \<Rightarrow> source_location \<Rightarrow> string list \<Rightarrow> ending" where
  "assert_unreachable resumes location printed =
     (if \<not> resumes then Trapped printed
      else fail_at location (printed @ [''reached code that should be unreachable'']))"

text \<open>The two macros; \<^const>\<open>None\<close> means that the program goes on.\<close>

definition cero_assert_macro :: "bool \<Rightarrow> bool \<Rightarrow> string \<Rightarrow> source_location \<Rightarrow> string list \<Rightarrow> ending option" where
  "cero_assert_macro resumes condition msg location printed =
     (if \<not> condition
      then Some (if \<not> resumes then Trapped printed else assert_fail msg location printed)
      else None)"

definition cero_assert_debug :: "bool \<Rightarrow> bool \<Rightarrow> bool \<Rightarrow> string \<Rightarrow> source_location \<Rightarrow> string list \<Rightarrow> ending option" where
  "cero_assert_debug ndebug resumes condition msg location printed =
     (if \<not> ndebug then cero_assert_macro resumes condition msg location printed else None)"

section \<open>Faults and endings\<close>

text \<open>The ending that a fault of the model stands for; the other faults are not assertions.\<close>

definition ending_of :: "bool \<Rightarrow> source_location \<Rightarrow> string list \<Rightarrow> fault \<Rightarrow> ending option" where
  "ending_of resumes location printed f =
     (case f of
        Assertion_failed msg \<Rightarrow> cero_assert_macro resumes False msg location printed
      | Unreachable_reached \<Rightarrow> Some (assert_unreachable resumes location printed)
      | _ \<Rightarrow> None)"

text \<open>A failed assertion of the model is a failed assertion of the program, and only that.\<close>

lemma cero_assert_ending:
  "cero_assert_macro resumes condition msg location printed =
     (case cero_assert condition msg (Inr ()) of Inl f \<Rightarrow> ending_of resumes location printed f | Inr _ \<Rightarrow> None)"
  by (simp add: cero_assert_macro_def ending_of_def)

text \<open>The message is printed only if the process outlives the break into the debugger.\<close>

lemma assertion_message_printed:
  "cero_assert_macro resumes condition msg location printed = Some ending \<Longrightarrow>
   (\<exists>lines. ending = Aborted lines \<and> ''assertion failed: '' @ msg \<in> set lines) \<longleftrightarrow> resumes"
  by (auto simp: cero_assert_macro_def assert_fail_def fail_at_def split: if_splits)

end
