(* ===== verification/Spec2Isabelle.thy ===== *)
theory Spec2Isabelle
  imports Build Tree_Memory Utf16 Impl_Storage Assertions
begin

text \<open>
  A verification of the front end of the Cero compiler, the C++ code under \<open>src/cero\<close>.

  \<^bold>\<open>The program.\<close> \<open>build_source\<close> (\<open>compile/build.cc\<close>) locks a source, which is a file or a string,
  and hands its view to \<open>run_lexer\<close>, \<open>run_parser\<close> and \<open>run_semantic_analyzer\<close> in this order; each stage
  gives reports to a \<open>Reporter\<close>. The lexer reads the bytes through a cursor and gives a list of tokens
  that ends with an end-of-file token; the parser reads the tokens through a cursor of its own, by
  recursive descent with precedences, and gives a tree; the semantic analyzer is still a stub, beside
  which there are a symbol table and a type checker. Trees live in a memory arena, files are mapped
  into memory.

  \<^bold>\<open>The model.\<close> Data are records and datatypes with the fields and constructors of the source,
  machine integers are words of their width, and an operation is a function from its state to its
  result and its new state. Failed assertions, exceptions and reads outside an array or a string are
  values of \<open>fault\<close> or of an error type, so that a theorem that excludes them says that they do not
  occur. An iterator is the suffix of the text or of the tokens from it; a pointer to a child node is
  the child. The reports are the list of the calls of \<open>Reporter::report\<close>, which \<open>deliver\<close> turns into
  what the handler of a reporter receives.

  \<^item> \<open>Cero_Prelude\<close>: types, faults, \<open>cero_assert\<close> (\<open>util/assert.hh\<close>) and lemmas on lists and words that are shared.
    \<open>Assertions\<close> (\<open>util/assert\<close>): how the process ends after a failed assertion, and what it prints.
  \<^item> \<open>Reporting\<close> (\<open>report/code_location\<close>, \<open>message\<close>, \<open>message_args\<close>, \<open>reporter\<close>): messages, their format
    strings and levels, and that the arguments of a report must fit its message.
  \<^item> \<open>File_View\<close> (\<open>util/file_view.posix.cc\<close>, \<open>system_error.cc\<close>) and \<open>Windows\<close> (\<open>util/file_view.win.cc\<close>,
    \<open>utf16.win.cc\<close>, \<open>report/console_reporter.win.cc\<close>): every operation returns the system calls it made;
    the theorems say that on every path what was acquired is released once. \<open>Utf16\<close> shows that the
    buffers of the conversions to and from UTF-16 are large enough. \<open>Impl_Storage\<close> (\<open>util/impl_storage.hh\<close>)
    has the bytes in which the two implementations of a view are stored: the locale \<open>object_type\<close> states
    what the storage needs of a type, and its interpretations give that both types fit and that
    \<open>std::exchange\<close> on the bytes moves views as \<open>File_View\<close> and \<open>Windows\<close> say. A view that a function
    returns is moved, and what it is moved from is destroyed, with the system calls that this makes.
  \<^item> \<open>Source_Text\<close> (\<open>syntax/source\<close>): sources, views, locking, \<open>locate\<close>; \<open>Source_Cursor\<close> (\<open>syntax/source_cursor.hh\<close>).
  \<^item> \<open>Token_Kinds\<close>, \<open>Tokens\<close> (\<open>syntax/token\<close>, \<open>token_list\<close>); \<open>Keywords\<close> (\<open>syntax/keywords.hh\<close>): the table and
    the packed tails; \<open>Unicode_Tables\<close>, \<open>Unicode\<close> (\<open>syntax/unicode\<close>): decoding and binary search, against
    the encoding of UTF-8 and membership in the ranges.
  \<^item> \<open>Flags\<close> (\<open>util/flags.hh\<close>, \<open>push_state.hh\<close>).
  \<^item> \<open>Lexer\<close> (\<open>syntax/lexer.cc\<close>): one function for each member function of \<open>struct Lexer\<close>. \<open>Lexemes\<close> is the
    lexical grammar, written without it: how long the lexeme of each kind of token is at the beginning of
    a text, up to the closing quote, the end of a nested comment or the last character of a word.
    \<open>Lexer_Tiling\<close> says what it means that tokens tile a text with such lexemes, \<open>Lexer_Handlers\<close> and \<open>Lexer_Words\<close> prove
    it for each handler, \<open>Lexer_Run\<close> for the loop, and \<open>Lexer_Correct\<close> has the properties: the lexer
    returns on every input, the tokens are the lexemes that stand at their places, nothing but white space is left
    out, and words and operators are read by longest match.
  \<^item> \<open>Token_Cursor\<close> (\<open>syntax/token_cursor.hh\<close>), \<open>Ast\<close> (\<open>syntax/ast\<close>, \<open>ast_visitor.hh\<close>) and \<open>Parser\<close>
    (\<open>syntax/parser.cc\<close>): one function for each member function of \<open>struct Parser\<close>; a parse returns,
    throws \<open>ParseError\<close>, faults or runs out of fuel.
  \<^item> \<open>Grammar\<close>: the specification of the parser, a printer of trees and a predicate on them that call no
    function of it (they share the types of operators and precedences, and the grammar has its own precedence for each operator):
    the symbols that a tree prints to and the trees that precedence and associativity allow. \<open>Parser_Contract\<close> and \<open>Parser_Correct\<close> prove
    that the parser returns and that a tree without a report is well formed and spells the tokens,
    \<open>Parser_Program\<close> does so for whole programs in the locale \<open>token_stream\<close>, which states what the
    parser needs of the lexer; \<open>Parser_Complete\<close> and \<open>Parser_Exact\<close> prove the converse, that every
    well-formed tree is found, and that there is only one. \<open>Front_End\<close> interprets the locale on the
    tokens of the lexer and joins the two; \<open>Parser_Properties\<close> has recovery, precedence and the cursor,
    and \<open>Parser_Recovery\<close> shows for programs with errors between their definitions and statements that
    the parser resumes where recovery stops, in front of the next \<open>public\<close>, \<open>private\<close>, \<open>struct\<close> or
    \<open>enum\<close> and behind the next semicolon: it keeps what is outside the skipped stretches and reports each
    of them once.
  \<^item> \<open>Bytes\<close>: memory as a function from 64-bit addresses to bytes, where overlapping writes show.
  \<^item> \<open>Memory_Arena\<close> and \<open>Arena_Array\<close> (\<open>util/memory_arena\<close>): a memory of bytes with the blocks that are
    live, which begin with headers of 8 bytes. The locale \<open>arena_storage\<close> states what an array needs of an allocator;
    its interpretation on \<open>allocate\<close> gives that an array in the arena refines a list. \<open>Tree_Layout\<close>
    and \<open>Tree_Memory\<close> (\<open>syntax/ast\<close>, \<open>Parser::create\<close> and \<open>Parser::put\<close>) put nodes into the arena, with the
    place and the size of every field as \<open>ast.hh\<close> has them: that the fields and lists of a node are aligned, lie in the
    node and do not overlap is checked for each kind of node (\<open>object_layout\<close>). The bytes of a list lie inside its node or in a
    local variable, and its elements elsewhere: in whatever order a tree is built, nodes, fields and lists do not disturb each
    other.
  \<^item> \<open>Symbol_Table\<close> (\<open>sema/symbol_table\<close>), \<open>Type_Checker\<close> (\<open>sema/type_checker.cc\<close>, \<open>tir_tree\<close>,
    \<open>semantic_analyzer.cc\<close>) and \<open>Build\<close> (\<open>compile/build.cc\<close>).

  This theory has the properties of the whole pipeline.

  \<^bold>\<open>Parameters.\<close> The system calls of POSIX (\<open>posix_api\<close>) and of Windows (\<open>win_api\<close>), \<open>operator new\<close>,
  \<open>fmt::vformat\<close> and \<open>std::hash\<close> are arguments of the definitions that use them. The hypotheses on them
  are \<open>posix_ok\<close> and \<open>win_ok\<close> (releasing what the same system gave succeeds, nothing is said of other
  handles; a mapping has the bytes of its file), \<open>converts\<close> (a conversion with enough room gives the other encoding of the text) and \<open>new_ok\<close> (a block is aligned, does not wrap around and overlaps no live block); each is
  shown to hold of a concrete instance where it is used.

  \<^bold>\<open>Loops and fuel.\<close> The loops of the lexer are total functions with a measure, the text that is
  left. The functions of the parser take fuel, \<open>5 * length tokens + 10\<close> in \<open>run_parser\<close>: that this is
  enough for every source is part of \<open>parse_source_returns\<close>. The loop of \<open>release\<close> takes the number of live blocks, which
  \<open>arena_lifetime\<close> shows to be enough.

  \<^bold>\<open>Bounds.\<close> Offsets in the source have 24 bits in tokens and nodes; the lexer refuses longer
  sources, and the theorems hold for sources of every length. Arrays in the arena are shown correct
  for fewer than \<open>2 ^ 31\<close> elements of 8 bytes, allocation for the alignments up to 8 that the nodes of
  the compiler have.

  \<^bold>\<open>Assumed of the source.\<close> \<open>TypeChecker\<close> and \<open>Evaluator\<close> derive from the class template \<open>AstVisitor\<close>
  without its argument, which no compiler accepts. \<open>Type_Checker\<close> models the class that derives from
  \<open>AstVisitor<void>\<close>, the only argument that fits what it overrides.

  \<^bold>\<open>Not modelled.\<close> \<open>sema/evaluator\<close>, whose visits are empty and whose \<open>evaluate_type\<close> returns nothing
  although it has a result type, so that there is no behaviour to state; the empty classes of \<open>sema/ir_graph\<close> and \<open>sema/type_context\<close>;
  the console reporter for POSIX, an empty function; declarations and macros in \<open>pch.hh\<close> and
  \<open>util/windows_api.hh\<close>. Trees are values in the parser and in the type checker: that their memory
  behaves like values is the subject of \<open>Tree_Memory\<close>, for the operations by which a parser builds
  a tree; the typed tree uses the same arena with nodes of 4 bytes and is not repeated there.
  The tests and the build files are not modelled either.
\<close>

section \<open>Building a source\<close>

text \<open>C4. Building a source, whatever its bytes and whether it is a file or a string, comes to an end without a failed
  assertion, an escaped exception or a read outside the source; the reporter shows every report, in
  the order in which it was made: the one report that the source could not be opened, or else all
  reports of the lexer and behind them all reports of the parser; and no descriptor stays open and
  no region mapped.\<close>
theorem build_source_safe:
  assumes "posix_ok os"
  shows "\<exists>reports. fst (build_source vformat os s) = Inr (map (shown vformat) reports) \<and>
    no_leak os (snd (build_source vformat os s)) \<and>
    (case lock os s of
       Inl f \<Rightarrow> False
     | Inr (Inl error) \<Rightarrow> reports = [lock_error_report s error]
     | Inr (Inr v) \<Rightarrow> \<exists>tokens lexer_made tree parser_made.
         run_lexer v [] flags_none default_tab_size = Some (tokens, lexer_made) \<and>
         run_parser tokens v lexer_made default_tab_size = Inr (tree, lexer_made @ parser_made) \<and>
         reports = lexer_made @ parser_made)"
proof (cases "lock os s")
  case (Inl f)
  then show ?thesis
    using file_view_from_never_aborts[OF assms, of "src_path s"] by (auto simp: lock_eq split: option.splits sum.splits)
next
  case (Inr r)
  show ?thesis
  proof (cases r)
    case (Inl error)
    have "list_all report_valid [lock_error_report s error]"
      by (simp add: lock_error_report_def Let_def report_valid_def valid_for_message_arity message_arity_def)
    moreover have "no_leak os (lock_calls os s)"
      using Inl Inr file_view_from_error_no_leak[OF assms, of "src_path s"]
      by (auto simp: lock_eq lock_calls_eq split: option.splits sum.splits)
    ultimately show ?thesis using Inl Inr deliver_shown[of "[lock_error_report s error]" vformat]
      by (simp add: build_source_def del: deliver.simps)
  next
    case v: (Inr v)
    let ?l = "lexer_reports v [] flags_none default_tab_size" and ?ts = "lexed v [] flags_none default_tab_size"
    show ?thesis
    proof (rule build_view_result[of v])
      fix ds rs
      assume run: "run_parser ?ts v ?l default_tab_size = Inr (\<lparr>root_definitions = ds\<rparr>, ?l @ rs)"
        and view: "build_view v = Inr (?l @ rs)" and valid: "list_all report_valid (?l @ rs)"
      have lex: "run_lexer v [] flags_none default_tab_size = Some (?ts, ?l)"
        using lexer_gives[of v flags_none default_tab_size] by auto
      have "fst (build_source vformat os s) = Inr (map (shown vformat) (?l @ rs))"
        "no_leak os (snd (build_source vformat os s))"
        using view deliver_shown[OF valid, of vformat] close_view_ok[OF assms Inr[unfolded v]] Inr v
        by (auto simp: build_source_def split: prod.splits)
      with lex run Inr v show ?thesis by (intro exI[of _ "?l @ rs"]) simp
    qed
  qed
qed

theorem build_source_safe_witness:
  "\<exists>reports. fst (build_source (\<lambda>f args. f) sample_posix (from_string ''ab'' ''a'')) = Inr (map (shown (\<lambda>f args. f)) reports)"
  using build_source_safe[OF sample_posix_ok, of "\<lambda>f args. f" "from_string ''ab'' ''a''"] by blast

text \<open>C2. A source that can be opened builds without a report exactly when the lexer finds nothing to report and its
  tokens spell a well-formed tree.\<close>
theorem build_source_accepts:
  assumes "posix_ok os" "lock os s = Inr (Inr v)"
  shows "fst (build_source vformat os s) = Inr [] \<longleftrightarrow>
    lexer_reports v [] flags_none default_tab_size = [] \<and>
    (\<exists>ds. spells (lexed v [] flags_none default_tab_size) (program_symbols ds) \<and> list_all definition_well_formed ds)"
proof (rule build_view_result[of v])
  let ?l = "lexer_reports v [] flags_none default_tab_size" and ?ts = "lexed v [] flags_none default_tab_size"
  fix ds rs
  assume run: "run_parser ?ts v ?l default_tab_size = Inr (\<lparr>root_definitions = ds\<rparr>, ?l @ rs)"
    and view: "build_view v = Inr (?l @ rs)" and valid: "list_all report_valid (?l @ rs)"
  obtain hs where hs: "deliver vformat (?l @ rs) = Inr hs" using deliver_all_valid[OF valid] by blast
  have "fst (build_source vformat os s) = Inr hs"
    using hs view assms(2) close_view_ok[OF assms] by (auto simp: build_source_def split: prod.splits)
  moreover have "hs = [] \<longleftrightarrow> ?l = [] \<and> rs = []" using hs deliver_empty[of vformat "?l @ rs"] by auto
  moreover have "rs = [] \<longleftrightarrow> (\<exists>ds. spells ?ts (program_symbols ds) \<and> list_all definition_well_formed ds)"
    if "?l = []"
  proof
    assume "rs = []"
    with run have "run_parser ?ts v ?l default_tab_size = Inr (\<lparr>root_definitions = ds\<rparr>, ?l)" by simp
    then show "\<exists>ds. spells ?ts (program_symbols ds) \<and> list_all definition_well_formed ds"
      using lexed_stream.run_parser_exact by blast
  next
    assume "\<exists>ds. spells ?ts (program_symbols ds) \<and> list_all definition_well_formed ds"
    then obtain ds' where "spells ?ts (program_symbols ds')" "list_all definition_well_formed ds'" by blast
    from lexed_stream.run_parser_accepts[OF this, of ?l default_tab_size] run show "rs = []" by simp
  qed
  ultimately show ?thesis by auto
qed

lemma sample_build: "fst (build_source (\<lambda>f args. f) sample_posix (from_string ''f(){a-b*c;}'' ''a.ce'')) = Inr []"
proof -
  have v: "lock sample_posix (from_string ''f(){a-b*c;}'' ''a.ce'') = Inr (Inr program_source)"
    by (simp add: lock_eq from_string_def program_source_def)
  have "build_view program_source = Inr []"
    using program_lexed[of flags_none] program_parsed
    by (simp add: build_view_def default_tab_size_def run_semantic_analyzer_def)
  with v show ?thesis by (simp add: build_source_def close_view_def program_source_def)
qed

theorem build_source_accepts_witness:
  "\<exists>ds. spells (lexed program_source [] flags_none default_tab_size) (program_symbols ds) \<and> list_all definition_well_formed ds"
proof -
  have v: "lock sample_posix (from_string ''f(){a-b*c;}'' ''a.ce'') = Inr (Inr program_source)"
    by (simp add: lock_eq from_string_def program_source_def)
  from build_source_accepts[OF sample_posix_ok v] sample_build show ?thesis by blast
qed

text \<open>C24. A file that cannot be opened gives exactly one error, at line and column 0 of its path: \<open>file_not_found\<close>
  if the system says that there is no such file, \<open>could_not_open_file\<close> with the system's message otherwise.
  Nothing is lexed or parsed.\<close>
theorem build_source_open_error:
  assumes "src_text s = None" "fst (file_view_from os (src_path s)) = Inr (Inl error)"
  shows "fst (build_source vformat os s) =
    Inr [(\<lparr>loc_path = src_path s, loc_line = 0, loc_column = 0\<rparr>, level_error,
      if err_value error = 2 then vformat (get_message_format_string file_not_found) []
      else vformat (get_message_format_string could_not_open_file) [Arg_string (err_message error)])]"
  using assms
  by (simp add: build_source_def lock_eq lock_error_report_def Let_def no_such_file_or_directory_def
      reporter_report_def valid_for_message_arity message_arity_def get_default_message_level_def)

theorem build_source_open_error_witness:
  "fst (build_source (\<lambda>f args. f) (sample_posix\<lparr>sys_open := (\<lambda>p. -1), last_error := (\<lambda>c. \<lparr>err_value = 2, err_message = ''?''\<rparr>)\<rparr>)
     (from_file ''a'')) =
   Inr [(\<lparr>loc_path = ''a'', loc_line = 0, loc_column = 0\<rparr>, level_error, get_message_format_string file_not_found)]"
proof -
  let ?os = "sample_posix\<lparr>sys_open := (\<lambda>p. -1), last_error := (\<lambda>c. \<lparr>err_value = 2, err_message = ''?''\<rparr>)\<rparr>"
  have "fst (file_view_from ?os (src_path (from_file ''a''))) = Inr (Inl \<lparr>err_value = 2, err_message = ''?''\<rparr>)"
    by (simp add: file_view_unfold from_file_def Let_def)
  moreover have "src_text (from_file ''a'') = None" by (simp add: from_file_def)
  ultimately show ?thesis using build_source_open_error[of "from_file ''a''" ?os] by (simp add: from_file_def)
qed

end
